(* ===== verification/Prelude.thy ===== *)
theory Prelude
  imports Main "HOL-Library.Word" "HOL-Library.Monad_Syntax"
begin

text \<open>
  Vocabulary shared by every component: the widths of the Go integers, the reading of
  \<open>'a option\<close> as "a value, or the goroutine panics (nil dereference, failed type assertion,
  index out of range) or does not return", and the lemmas on lists, options and maps that
  several components use.
\<close>

section \<open>Go integers\<close>

type_synonym u8 = "8 word"
type_synonym u16 = "16 word"
type_synonym u32 = "32 word"
type_synonym u64 = "64 word"

text \<open>Signed Go integers are words of their width, read with \<^const>\<open>sint\<close>.\<close>

type_synonym i8 = "8 word"
type_synonym i16 = "16 word"
type_synonym i32 = "32 word"
type_synonym i64 = "64 word"

section \<open>Collections of facts\<close>

named_theorems heap_simps \<open>unfoldings of the primitive reads and writes of the node store\<close>
named_theorems rep_simps \<open>what a represented tree says about the cells of the store\<close>

section \<open>Fallible computations\<close>

text \<open>
  The continuation of a bind is only simplified once its first argument has been evaluated:
  a loop whose next iteration sits under the binder is then unfolded one step at a time.
\<close>

lemma bind_weak_cong [cong]: "x = y \<Longrightarrow> Option.bind x f = Option.bind y f"
  by simp

text \<open>Short-circuit conjunction of two conditions that may panic (Go's \<open>a && b\<close>).\<close>

definition and_then :: "bool option \<Rightarrow> bool option \<Rightarrow> bool option" where
  "and_then a b = (case a of None \<Rightarrow> None | Some x \<Rightarrow> if x then b else Some False)"

lemma and_then_simps [simp]:
  "and_then None b = None"
  "and_then (Some True) b = b"
  "and_then (Some False) b = Some False"
  "and_then (Some x) b = (if x then b else Some False)"
  by (simp_all add: and_then_def)

lemma bind_eq_SomeI: "x = Some y \<Longrightarrow> f y = z \<Longrightarrow> Option.bind x f = z"
  by simp

section \<open>Association lists that are sorted by a rank of their keys\<close>

definition ranked :: "('k \<Rightarrow> 'o::linorder) \<Rightarrow> ('k \<times> 'v) list \<Rightarrow> bool" where
  "ranked rank xs = sorted_wrt (<) (map (\<lambda>p. rank (fst p)) xs)"

fun upd_list :: "('k \<Rightarrow> 'o::linorder) \<Rightarrow> 'k \<Rightarrow> 'v \<Rightarrow> ('k \<times> 'v) list \<Rightarrow> ('k \<times> 'v) list" where
  "upd_list rank k v [] = [(k, v)]"
| "upd_list rank k v (p # ps) =
     (if rank k < rank (fst p) then (k, v) # p # ps
      else if rank k = rank (fst p) then (k, v) # ps
      else p # upd_list rank k v ps)"

definition del_list :: "('k \<Rightarrow> 'o::linorder) \<Rightarrow> 'k \<Rightarrow> ('k \<times> 'v) list \<Rightarrow> ('k \<times> 'v) list" where
  "del_list rank k xs = filter (\<lambda>p. rank (fst p) \<noteq> rank k) xs"

definition find_list :: "('k \<Rightarrow> 'o::linorder) \<Rightarrow> 'k \<Rightarrow> ('k \<times> 'v) list \<Rightarrow> ('k \<times> 'v) option" where
  "find_list rank k xs = List.find (\<lambda>p. rank (fst p) = rank k) xs"

lemma ranked_simps [simp]:
  "ranked rank []"
  "ranked rank (p # ps) \<longleftrightarrow> (\<forall>q \<in> set ps. rank (fst p) < rank (fst q)) \<and> ranked rank ps"
  "ranked rank (xs @ ys) \<longleftrightarrow> ranked rank xs \<and> ranked rank ys
     \<and> (\<forall>p \<in> set xs. \<forall>q \<in> set ys. rank (fst p) < rank (fst q))"
  by (auto simp: ranked_def sorted_wrt_append)

lemma set_upd_list: "ranked rank xs \<Longrightarrow>
    set (upd_list rank k v xs) = insert (k, v) {p \<in> set xs. rank (fst p) \<noteq> rank k}"
  by (induction xs) (auto simp: not_less_iff_gr_or_eq)

lemma ranked_upd_list: "ranked rank xs \<Longrightarrow> ranked rank (upd_list rank k v xs)"
  by (induction xs) (auto simp: set_upd_list dest: order.strict_trans)

lemma ranked_del_list: "ranked rank xs \<Longrightarrow> ranked rank (del_list rank k xs)"
  by (induction xs) (auto simp: del_list_def)

lemma upd_list_left: "\<forall>q \<in> set ys. rank k < rank (fst q) \<Longrightarrow>
    upd_list rank k v (xs @ ys) = upd_list rank k v xs @ ys"
  by (induction xs) (auto intro: upd_list.simps split: list.split, cases ys, auto)

lemma upd_list_right: "\<forall>p \<in> set xs. rank (fst p) < rank k \<Longrightarrow>
    upd_list rank k v (xs @ ys) = xs @ upd_list rank k v ys"
  by (induction xs) auto

lemma find_list_append: "find_list rank k (xs @ ys) =
    (case find_list rank k xs of None \<Rightarrow> find_list rank k ys | Some p \<Rightarrow> Some p)"
  by (induction xs) (auto simp: find_list_def)

lemma find_list_none: "\<forall>p \<in> set xs. rank (fst p) \<noteq> rank k \<Longrightarrow> find_list rank k xs = None"
  by (auto simp: find_list_def find_None_iff)

end
