(* ===== verification/Containers.thy ===== *)
theory Containers
  imports Prelude "HOL-Library.List_Lexorder" "HOL-Library.Char_ord"
begin

text \<open>
  The package \<open>dispatcher/hash/containers\<close>: values of Go's \<open>interface{}\<close> as the comparators
  see them, every comparator of \<open>comparator.go\<close>, and the interface they offer to the ordered
  map: a comparator is a total order, by a rank, on the values of its dynamic type, and panics
  on the others.
\<close>

section \<open>Dynamic values\<close>

text \<open>
  A value stored in an \<open>interface{}\<close>, tagged by its dynamic type; \<open>byte\<close> is \<open>uint8\<close> and
  \<open>rune\<close> is \<open>int32\<close>. A float is its IEEE 754 bit pattern, a \<open>time.Time\<close> the instant in
  nanoseconds.
\<close>

datatype iface =
    INil
  | IString string
  | IBool bool
  | IInt i64
  | IInt8 i8
  | IInt16 i16
  | IInt32 i32
  | IInt64 i64
  | IUInt u64
  | IUInt8 u8
  | IUInt16 u16
  | IUInt32 u32
  | IUInt64 u64
  | IFloat32 u32
  | IFloat64 u64
  | ITime int

type_synonym comparator = "iface \<Rightarrow> iface \<Rightarrow> int option"

text \<open>The \<open>switch\<close> every numeric comparator ends with.\<close>

definition switch3 :: "bool \<Rightarrow> bool \<Rightarrow> int" where
  "switch3 gt lt = (if gt then 1 else if lt then -1 else 0)"

section \<open>The comparators\<close>

text \<open>
  The loop of \<open>StringComparator\<close>: the difference of the first bytes that differ, 0 when the
  first \<open>mn\<close> bytes agree. The indices stay below both lengths, as \<open>min\<close> is at most either.
\<close>

function byte_diff :: "string \<Rightarrow> string \<Rightarrow> nat \<Rightarrow> nat \<Rightarrow> int \<Rightarrow> int" where
  "byte_diff s1 s2 mn i diff =
     (if i < mn \<and> diff = 0
      then byte_diff s1 s2 mn (Suc i) (of_char (s1 ! i) - of_char (s2 ! i))
      else diff)"
  by pat_completeness auto
termination
  by (relation "measure (\<lambda>(s1, s2, mn, i, diff). mn - i)") auto

declare byte_diff.simps [simp del]

definition StringComparator :: comparator where
  "StringComparator a b = (case (a, b) of
     (IString s1, IString s2) \<Rightarrow>
       (let mn = (if length s1 < length s2 then length s1 else length s2);
            diff = byte_diff s1 s2 mn 0 0;
            diff = (if diff = 0 then int (length s1) - int (length s2) else diff)
        in Some (if diff < 0 then -1 else if diff > 0 then 1 else 0))
   | _ \<Rightarrow> None)"

definition IntComparator :: comparator where
  "IntComparator a b = (case (a, b) of
     (IInt x, IInt y) \<Rightarrow> Some (switch3 (sint x > sint y) (sint x < sint y)) | _ \<Rightarrow> None)"

definition Int8Comparator :: comparator where
  "Int8Comparator a b = (case (a, b) of
     (IInt8 x, IInt8 y) \<Rightarrow> Some (switch3 (sint x > sint y) (sint x < sint y)) | _ \<Rightarrow> None)"

definition Int16Comparator :: comparator where
  "Int16Comparator a b = (case (a, b) of
     (IInt16 x, IInt16 y) \<Rightarrow> Some (switch3 (sint x > sint y) (sint x < sint y)) | _ \<Rightarrow> None)"

definition Int32Comparator :: comparator where
  "Int32Comparator a b = (case (a, b) of
     (IInt32 x, IInt32 y) \<Rightarrow> Some (switch3 (sint x > sint y) (sint x < sint y)) | _ \<Rightarrow> None)"

definition Int64Comparator :: comparator where
  "Int64Comparator a b = (case (a, b) of
     (IInt64 x, IInt64 y) \<Rightarrow> Some (switch3 (sint x > sint y) (sint x < sint y)) | _ \<Rightarrow> None)"

definition UIntComparator :: comparator where
  "UIntComparator a b = (case (a, b) of
     (IUInt x, IUInt y) \<Rightarrow> Some (switch3 (x > y) (x < y)) | _ \<Rightarrow> None)"

definition UInt8Comparator :: comparator where
  "UInt8Comparator a b = (case (a, b) of
     (IUInt8 x, IUInt8 y) \<Rightarrow> Some (switch3 (x > y) (x < y)) | _ \<Rightarrow> None)"

definition UInt16Comparator :: comparator where
  "UInt16Comparator a b = (case (a, b) of
     (IUInt16 x, IUInt16 y) \<Rightarrow> Some (switch3 (x > y) (x < y)) | _ \<Rightarrow> None)"

definition UInt32Comparator :: comparator where
  "UInt32Comparator a b = (case (a, b) of
     (IUInt32 x, IUInt32 y) \<Rightarrow> Some (switch3 (x > y) (x < y)) | _ \<Rightarrow> None)"

definition UInt64Comparator :: comparator where
  "UInt64Comparator a b = (case (a, b) of
     (IUInt64 x, IUInt64 y) \<Rightarrow> Some (switch3 (x > y) (x < y)) | _ \<Rightarrow> None)"

definition ByteComparator :: comparator where
  "ByteComparator a b = (case (a, b) of
     (IUInt8 x, IUInt8 y) \<Rightarrow> Some (switch3 (x > y) (x < y)) | _ \<Rightarrow> None)"

definition RuneComparator :: comparator where
  "RuneComparator a b = (case (a, b) of
     (IInt32 x, IInt32 y) \<Rightarrow> Some (switch3 (sint x > sint y) (sint x < sint y)) | _ \<Rightarrow> None)"

definition TimeComparator :: comparator where
  "TimeComparator a b = (case (a, b) of
     (ITime x, ITime y) \<Rightarrow> Some (switch3 (x > y) (x < y)) | _ \<Rightarrow> None)"

text \<open>
  IEEE 754 order on bit patterns: a NaN (all exponent bits set, a non-zero fraction) is
  unordered; otherwise the magnitude bits compare as integers, with the sign bit as their
  sign, so that the two zeros are equal.
\<close>

definition fsign :: "'a::len word \<Rightarrow> bool" where
  "fsign w = bit w (LENGTH('a) - 1)"

definition fmag :: "'a::len word \<Rightarrow> int" where
  "fmag w = uint w mod 2 ^ (LENGTH('a) - 1)"

definition frank :: "'a::len word \<Rightarrow> int" where
  "frank w = (if fsign w then - fmag w else fmag w)"

definition nan32 :: "u32 \<Rightarrow> bool" where
  "nan32 w = (fmag w > 255 * 2 ^ 23)"

definition nan64 :: "u64 \<Rightarrow> bool" where
  "nan64 w = (fmag w > 2047 * 2 ^ 52)"

definition float32_less :: "u32 \<Rightarrow> u32 \<Rightarrow> bool" where
  "float32_less x y = (\<not> nan32 x \<and> \<not> nan32 y \<and> frank x < frank y)"

definition float64_less :: "u64 \<Rightarrow> u64 \<Rightarrow> bool" where
  "float64_less x y = (\<not> nan64 x \<and> \<not> nan64 y \<and> frank x < frank y)"

definition Float32Comparator :: comparator where
  "Float32Comparator a b = (case (a, b) of
     (IFloat32 x, IFloat32 y) \<Rightarrow> Some (switch3 (float32_less y x) (float32_less x y)) | _ \<Rightarrow> None)"

definition Float64Comparator :: comparator where
  "Float64Comparator a b = (case (a, b) of
     (IFloat64 x, IFloat64 y) \<Rightarrow> Some (switch3 (float64_less y x) (float64_less x y)) | _ \<Rightarrow> None)"

section \<open>The contract of a comparator\<close>

text \<open>
  What the ordered map asks of the function it is given: on the keys \<open>K\<close> it answers, and its
  sign is the order of the ranks.
\<close>

locale comparator_order =
  fixes cmp :: "'k \<Rightarrow> 'k \<Rightarrow> int option"
    and K :: "'k set"
    and rank :: "'k \<Rightarrow> 'o::linorder"
  assumes cmp_answers: "a \<in> K \<Longrightarrow> b \<in> K \<Longrightarrow> cmp a b \<noteq> None"
    and cmp_neg: "a \<in> K \<Longrightarrow> b \<in> K \<Longrightarrow> cmp a b = Some c \<Longrightarrow> c < 0 \<longleftrightarrow> rank a < rank b"
    and cmp_zero: "a \<in> K \<Longrightarrow> b \<in> K \<Longrightarrow> cmp a b = Some c \<Longrightarrow> c = 0 \<longleftrightarrow> rank a = rank b"
begin

lemma cmp_pos: "a \<in> K \<Longrightarrow> b \<in> K \<Longrightarrow> cmp a b = Some c \<Longrightarrow> c > 0 \<longleftrightarrow> rank a > rank b"
  using cmp_neg [of a b c] cmp_zero [of a b c] by (auto simp: not_less_iff_gr_or_eq)

text \<open>The three outcomes of a comparison, ready for a case split.\<close>

lemma cmp_cases:
  assumes "a \<in> K" and "b \<in> K"
  obtains (EQ) c where "cmp a b = Some c" "c = 0" "rank a = rank b"
    | (LT) c where "cmp a b = Some c" "c < 0" "rank a < rank b"
    | (GT) c where "cmp a b = Some c" "c > 0" "rank a > rank b"
proof -
  obtain c where c: "cmp a b = Some c"
    using cmp_answers [OF assms] by blast
  consider "c = 0" | "c < 0" | "c > 0" by linarith
  then show thesis
    using that c cmp_zero [OF assms c] cmp_neg [OF assms c] cmp_pos [OF assms c] by cases auto
qed

lemma cmp_refl: "a \<in> K \<Longrightarrow> cmp a a = Some 0"
  using cmp_answers [of a a] cmp_zero [of a a] by auto

lemma cmp_antisym:
  assumes "a \<in> K" and "b \<in> K" and "cmp a b = Some c" and "cmp b a = Some d"
  shows "sgn c = - sgn d"
  using cmp_neg [of a b c] cmp_zero [of a b c] cmp_neg [of b a d] cmp_zero [of b a d] assms
  by (cases "rank a" "rank b" rule: linorder_cases) (auto simp: sgn_if)

end

subsection \<open>The comparators meet it\<close>

fun num_rank :: "iface \<Rightarrow> int" where
  "num_rank (IInt x) = sint x"
| "num_rank (IInt8 x) = sint x"
| "num_rank (IInt16 x) = sint x"
| "num_rank (IInt32 x) = sint x"
| "num_rank (IInt64 x) = sint x"
| "num_rank (IUInt x) = uint x"
| "num_rank (IUInt8 x) = uint x"
| "num_rank (IUInt16 x) = uint x"
| "num_rank (IUInt32 x) = uint x"
| "num_rank (IUInt64 x) = uint x"
| "num_rank (IFloat32 x) = frank x"
| "num_rank (IFloat64 x) = frank x"
| "num_rank (ITime x) = x"
| "num_rank _ = 0"

fun str_rank :: "iface \<Rightarrow> string" where
  "str_rank (IString s) = s"
| "str_rank _ = []"

lemma switch3_sign [simp]:
  "switch3 g l < 0 \<longleftrightarrow> \<not> g \<and> l"
  "switch3 g l = 0 \<longleftrightarrow> \<not> g \<and> \<not> l"
  "switch3 g l > 0 \<longleftrightarrow> g"
  by (auto simp: switch3_def)

lemma append_less_cancel: "p @ u < p @ v \<longleftrightarrow> u < (v :: string)"
  by (induction p) auto

lemma byte_diff_done: "diff \<noteq> 0 \<Longrightarrow> byte_diff s1 s2 mn i diff = diff"
  by (simp add: byte_diff.simps)

text \<open>Behind a common prefix \<open>p\<close>, the loop and the comparison of the lengths decide the
  lexicographic order of the rests.\<close>

lemma byte_diff_sign:
  assumes "d = byte_diff (p @ u) (p @ v) (length p + min (length u) (length v)) (length p) 0"
    and "e = (if d = 0 then int (length u) - int (length v) else d)"
  shows "(e < 0 \<longleftrightarrow> u < v) \<and> (e = 0 \<longleftrightarrow> u = v)"
  using assms
proof (induction u arbitrary: p v d e)
  case Nil
  then show ?case by (cases v) (simp_all add: byte_diff.simps)
next
  case (Cons x u)
  show ?case
  proof (cases v)
    case Nil
    with Cons.prems show ?thesis by (simp add: byte_diff.simps)
  next
    case v: (Cons y w)
    have step: "d = byte_diff (p @ x # u) (p @ y # w) (length p + Suc (min (length u) (length w)))
        (Suc (length p)) (of_char x - of_char y)"
      using Cons.prems(1) v by (subst (asm) byte_diff.simps) (simp add: nth_append)
    show ?thesis
    proof (cases "x = y")
      case True
      have "d = byte_diff ((p @ [x]) @ u) ((p @ [x]) @ w)
          (length (p @ [x]) + min (length u) (length w)) (length (p @ [x])) 0"
        using step True by simp
      moreover have "e = (if d = 0 then int (length u) - int (length w) else d)"
        using Cons.prems(2) v by simp
      ultimately show ?thesis
        using Cons.IH [of d "p @ [x]" w e] v True by simp
    next
      case False
      then have "(of_char x :: int) \<noteq> of_char y" by simp
      with step have d: "d = of_char x - of_char y" by (simp add: byte_diff_done)
      with \<open>(of_char x :: int) \<noteq> of_char y\<close> have "d \<noteq> 0" by simp
      then have "e = d" using Cons.prems(2) by simp
      have "(of_char x :: int) < of_char y \<longleftrightarrow> x < y"
        by (simp add: less_char_def flip: of_nat_of_char [where ?'a = int])
      then have "d < 0 \<longleftrightarrow> x < y" using d by linarith
      with \<open>e = d\<close> \<open>d \<noteq> 0\<close> False v show ?thesis by simp
    qed
  qed
qed

lemma StringComparator_order: "comparator_order StringComparator (range IString) str_rank"
proof
  fix a b c assume K: "a \<in> range IString" "b \<in> range IString"
  then obtain s t where ab: "a = IString s" "b = IString t" by auto
  define d where "d = byte_diff s t (min (length s) (length t)) 0 0"
  define e where "e = (if d = 0 then int (length s) - int (length t) else d)"
  have sign: "(e < 0 \<longleftrightarrow> s < t) \<and> (e = 0 \<longleftrightarrow> s = t)"
    using byte_diff_sign [of d "[]" s t e] by (simp add: d_def e_def)
  have eq: "StringComparator a b = Some (if e < 0 then -1 else if e > 0 then 1 else 0)"
    unfolding ab StringComparator_def Let_def d_def e_def min_def
    by (auto simp: not_less)
  show "StringComparator a b \<noteq> None" by (simp add: eq)
  assume "StringComparator a b = Some c"
  with eq sign ab show "c < 0 \<longleftrightarrow> str_rank a < str_rank b" "c = 0 \<longleftrightarrow> str_rank a = str_rank b"
    by (auto split: if_splits)
qed

lemmas comparator_defs =
  IntComparator_def Int8Comparator_def Int16Comparator_def Int32Comparator_def Int64Comparator_def
  UIntComparator_def UInt8Comparator_def UInt16Comparator_def UInt32Comparator_def
  UInt64Comparator_def ByteComparator_def RuneComparator_def TimeComparator_def
  Float32Comparator_def Float64Comparator_def

interpretation string_cmp: comparator_order StringComparator "range IString" str_rank
  by (rule StringComparator_order)

interpretation int_cmp: comparator_order IntComparator "range IInt" num_rank
  by unfold_locales (auto simp: comparator_defs)

interpretation int8_cmp: comparator_order Int8Comparator "range IInt8" num_rank
  by unfold_locales (auto simp: comparator_defs)

interpretation int16_cmp: comparator_order Int16Comparator "range IInt16" num_rank
  by unfold_locales (auto simp: comparator_defs)

interpretation int32_cmp: comparator_order Int32Comparator "range IInt32" num_rank
  by unfold_locales (auto simp: comparator_defs)

interpretation int64_cmp: comparator_order Int64Comparator "range IInt64" num_rank
  by unfold_locales (auto simp: comparator_defs)

interpretation uint_cmp: comparator_order UIntComparator "range IUInt" num_rank
  by unfold_locales (auto simp: comparator_defs word_less_def)

interpretation uint8_cmp: comparator_order UInt8Comparator "range IUInt8" num_rank
  by unfold_locales (auto simp: comparator_defs word_less_def)

interpretation uint16_cmp: comparator_order UInt16Comparator "range IUInt16" num_rank
  by unfold_locales (auto simp: comparator_defs word_less_def)

interpretation uint32_cmp: comparator_order UInt32Comparator "range IUInt32" num_rank
  by unfold_locales (auto simp: comparator_defs word_less_def)

interpretation uint64_cmp: comparator_order UInt64Comparator "range IUInt64" num_rank
  by unfold_locales (auto simp: comparator_defs word_less_def)

interpretation byte_cmp: comparator_order ByteComparator "range IUInt8" num_rank
  by unfold_locales (auto simp: comparator_defs word_less_def)

interpretation rune_cmp: comparator_order RuneComparator "range IInt32" num_rank
  by unfold_locales (auto simp: comparator_defs)

interpretation time_cmp: comparator_order TimeComparator "range ITime" num_rank
  by unfold_locales (auto simp: comparator_defs)

interpretation float32_cmp: comparator_order Float32Comparator "IFloat32 ` {x. \<not> nan32 x}" num_rank
  by unfold_locales (auto simp: comparator_defs float32_less_def)

interpretation float64_cmp: comparator_order Float64Comparator "IFloat64 ` {x. \<not> nan64 x}" num_rank
  by unfold_locales (auto simp: comparator_defs float64_less_def)

section \<open>Claims\<close>

text \<open>A comparator panics exactly when one of the values is not of its type.\<close>

definition answers_on :: "comparator \<Rightarrow> iface set \<Rightarrow> bool" where
  "answers_on cmp T \<longleftrightarrow> (\<forall>a b. cmp a b \<noteq> None \<longleftrightarrow> a \<in> T \<and> b \<in> T)"

lemma answers_onI:
  assumes "\<And>a b. cmp a b \<noteq> None \<longleftrightarrow> a \<in> range C \<and> b \<in> range C"
  shows "answers_on cmp (range C)"
  using assms by (simp add: answers_on_def)

lemma comparators_answer:
  "answers_on StringComparator (range IString)"
  "answers_on IntComparator (range IInt)"
  "answers_on Int8Comparator (range IInt8)"
  "answers_on Int16Comparator (range IInt16)"
  "answers_on Int32Comparator (range IInt32)"
  "answers_on Int64Comparator (range IInt64)"
  "answers_on UIntComparator (range IUInt)"
  "answers_on UInt8Comparator (range IUInt8)"
  "answers_on UInt16Comparator (range IUInt16)"
  "answers_on UInt32Comparator (range IUInt32)"
  "answers_on UInt64Comparator (range IUInt64)"
  "answers_on ByteComparator (range IUInt8)"
  "answers_on RuneComparator (range IInt32)"
  "answers_on TimeComparator (range ITime)"
  "answers_on Float32Comparator (range IFloat32)"
  "answers_on Float64Comparator (range IFloat64)"
  by (rule answers_onI; auto simp: comparator_defs StringComparator_def Let_def split: iface.splits)+

text \<open>
  C29. Every comparator of \<open>comparator.go\<close> is a total order on the values of its dynamic type:
  it never panics there, its sign is the order of the mathematical values (signed, unsigned,
  lexicographic on bytes, instants), and it returns 0 exactly on equal values; for floats this
  holds away from NaN, the two zeros being equal. It answers exactly when both values are of its type, NaN
  included, and panics otherwise.
\<close>

theorem comparators_total_orders:
  "comparator_order StringComparator (range IString) str_rank
   \<and> comparator_order IntComparator (range IInt) num_rank
   \<and> comparator_order Int8Comparator (range IInt8) num_rank
   \<and> comparator_order Int16Comparator (range IInt16) num_rank
   \<and> comparator_order Int32Comparator (range IInt32) num_rank
   \<and> comparator_order Int64Comparator (range IInt64) num_rank
   \<and> comparator_order UIntComparator (range IUInt) num_rank
   \<and> comparator_order UInt8Comparator (range IUInt8) num_rank
   \<and> comparator_order UInt16Comparator (range IUInt16) num_rank
   \<and> comparator_order UInt32Comparator (range IUInt32) num_rank
   \<and> comparator_order UInt64Comparator (range IUInt64) num_rank
   \<and> comparator_order ByteComparator (range IUInt8) num_rank
   \<and> comparator_order RuneComparator (range IInt32) num_rank
   \<and> comparator_order TimeComparator (range ITime) num_rank
   \<and> comparator_order Float32Comparator (IFloat32 ` {x. \<not> nan32 x}) num_rank
   \<and> comparator_order Float64Comparator (IFloat64 ` {x. \<not> nan64 x}) num_rank
   \<and> answers_on StringComparator (range IString)
   \<and> answers_on IntComparator (range IInt)
   \<and> answers_on Int8Comparator (range IInt8)
   \<and> answers_on Int16Comparator (range IInt16)
   \<and> answers_on Int32Comparator (range IInt32)
   \<and> answers_on Int64Comparator (range IInt64)
   \<and> answers_on UIntComparator (range IUInt)
   \<and> answers_on UInt8Comparator (range IUInt8)
   \<and> answers_on UInt16Comparator (range IUInt16)
   \<and> answers_on UInt32Comparator (range IUInt32)
   \<and> answers_on UInt64Comparator (range IUInt64)
   \<and> answers_on ByteComparator (range IUInt8)
   \<and> answers_on RuneComparator (range IInt32)
   \<and> answers_on TimeComparator (range ITime)
   \<and> answers_on Float32Comparator (range IFloat32)
   \<and> answers_on Float64Comparator (range IFloat64)"
  by (intro conjI comparators_answer string_cmp.comparator_order_axioms int_cmp.comparator_order_axioms
      int8_cmp.comparator_order_axioms int16_cmp.comparator_order_axioms
      int32_cmp.comparator_order_axioms int64_cmp.comparator_order_axioms
      uint_cmp.comparator_order_axioms uint8_cmp.comparator_order_axioms
      uint16_cmp.comparator_order_axioms uint32_cmp.comparator_order_axioms
      uint64_cmp.comparator_order_axioms byte_cmp.comparator_order_axioms
      rune_cmp.comparator_order_axioms time_cmp.comparator_order_axioms
      float32_cmp.comparator_order_axioms float64_cmp.comparator_order_axioms)

end
