(* ===== verification/Maps.thy ===== *)
theory Maps
  imports Containers
begin

text \<open>
  \<open>dispatcher/hash/maps/maps.go\<close>: the red-black tree with parent pointers, as the code has it.
  A node is a cell of a store, a pointer a reference or nil, and every method reads and writes
  cells in the order of the source. \<open>None\<close> stands for a panic (a nil dereference, a failed type
  assertion in the comparator) or a loop that does not return; \<open>MapsCorrect\<close> shows that neither
  happens on the maps the methods build.
\<close>

section \<open>Data\<close>

datatype color = Black | Red

type_synonym ref = nat
type_synonym ptr = "ref option"

record ('k, 'v) Node =
  Key :: 'k
  Value :: 'v
  color :: color
  Left :: ptr
  Right :: ptr
  Parent :: ptr

text \<open>
  \<open>store\<close> holds the nodes allocated by this map and \<open>fresh\<close> is the next reference the
  allocator hands out; the other fields are those of the source (\<open>msize\<close> is \<open>size\<close>).
\<close>

record ('k, 'v) Map =
  Root :: ptr
  msize :: int
  Comparator :: "'k \<Rightarrow> 'k \<Rightarrow> int option"
  store :: "ref \<Rightarrow> ('k, 'v) Node option"
  fresh :: ref

definition NewWith :: "('k \<Rightarrow> 'k \<Rightarrow> int option) \<Rightarrow> ('k, 'v) Map" where
  "NewWith comparator =
     \<lparr>Root = None, msize = 0, Comparator = comparator, store = Map.empty, fresh = 0\<rparr>"

definition NewWithIntComparator :: "(iface, 'v) Map" where
  "NewWithIntComparator = NewWith IntComparator"

definition NewWithUInt32Comparator :: "(iface, 'v) Map" where
  "NewWithUInt32Comparator = NewWith UInt32Comparator"

definition NewWithStringComparator :: "(iface, 'v) Map" where
  "NewWithStringComparator = NewWith StringComparator"

section \<open>Reading and writing cells\<close>

definition deref :: "('k, 'v) Map \<Rightarrow> ptr \<Rightarrow> ('k, 'v) Node option" where
  "deref m p = (case p of None \<Rightarrow> None | Some r \<Rightarrow> store m r)"

definition update_node :: "('k, 'v) Map \<Rightarrow> ptr \<Rightarrow> (('k, 'v) Node \<Rightarrow> ('k, 'v) Node) \<Rightarrow> ('k, 'v) Map option" where
  "update_node m p f = (case p of None \<Rightarrow> None | Some r \<Rightarrow>
     (case store m r of None \<Rightarrow> None | Some n \<Rightarrow> Some (m\<lparr>store := (store m)(r \<mapsto> f n)\<rparr>)))"

definition getLeft :: "('k, 'v) Map \<Rightarrow> ptr \<Rightarrow> ptr option" where
  "getLeft m p = map_option Left (deref m p)"

definition getRight :: "('k, 'v) Map \<Rightarrow> ptr \<Rightarrow> ptr option" where
  "getRight m p = map_option Right (deref m p)"

definition getParent :: "('k, 'v) Map \<Rightarrow> ptr \<Rightarrow> ptr option" where
  "getParent m p = map_option Parent (deref m p)"

definition setLeft :: "('k, 'v) Map \<Rightarrow> ptr \<Rightarrow> ptr \<Rightarrow> ('k, 'v) Map option" where
  "setLeft m p q = update_node m p (Left_update (\<lambda>_. q))"

definition setRight :: "('k, 'v) Map \<Rightarrow> ptr \<Rightarrow> ptr \<Rightarrow> ('k, 'v) Map option" where
  "setRight m p q = update_node m p (Right_update (\<lambda>_. q))"

definition setParent :: "('k, 'v) Map \<Rightarrow> ptr \<Rightarrow> ptr \<Rightarrow> ('k, 'v) Map option" where
  "setParent m p q = update_node m p (Parent_update (\<lambda>_. q))"

definition setColor :: "('k, 'v) Map \<Rightarrow> ptr \<Rightarrow> color \<Rightarrow> ('k, 'v) Map option" where
  "setColor m p c = update_node m p (color_update (\<lambda>_. c))"

text \<open>\<open>&Node{Key: key, Value: value, color: red}\<close>\<close>

definition new_node :: "('k, 'v) Map \<Rightarrow> 'k \<Rightarrow> 'v \<Rightarrow> ('k, 'v) Map \<times> ptr" where
  "new_node m key value =
     (m\<lparr>store := (store m)(fresh m \<mapsto>
          \<lparr>Key = key, Value = value, color = Red, Left = None, Right = None, Parent = None\<rparr>),
        fresh := Suc (fresh m)\<rparr>, Some (fresh m))"

definition nodeColor :: "('k, 'v) Map \<Rightarrow> ptr \<Rightarrow> color option" where
  "nodeColor m node = (case node of None \<Rightarrow> Some Black | Some _ \<Rightarrow> map_option color (deref m node))"

definition has_color :: "('k, 'v) Map \<Rightarrow> ptr \<Rightarrow> color \<Rightarrow> bool option" where
  "has_color m node c = map_option (\<lambda>d. d = c) (nodeColor m node)"

section \<open>Relatives of a node\<close>

definition grandparent :: "('k, 'v) Map \<Rightarrow> ptr \<Rightarrow> ptr option" where
  "grandparent m node =
     (if node = None then Some None
      else do {
        p \<leftarrow> getParent m node;
        if p \<noteq> None then getParent m p else Some None
      })"

definition sibling :: "('k, 'v) Map \<Rightarrow> ptr \<Rightarrow> ptr option" where
  "sibling m node =
     (if node = None then Some None
      else do {
        p \<leftarrow> getParent m node;
        if p = None then Some None
        else do {
          l \<leftarrow> getLeft m p;
          if node = l then getRight m p else getLeft m p
        }
      })"

definition uncle :: "('k, 'v) Map \<Rightarrow> ptr \<Rightarrow> ptr option" where
  "uncle m node =
     (if node = None then Some None
      else do {
        p \<leftarrow> getParent m node;
        if p = None then Some None
        else do {
          g \<leftarrow> getParent m p;
          if g = None then Some None else sibling m p
        }
      })"

text \<open>The conditions \<open>node == node.Parent.Left\<close> and \<open>node == node.Parent.Right\<close>.\<close>

definition is_left :: "('k, 'v) Map \<Rightarrow> ptr \<Rightarrow> bool option" where
  "is_left m node = do { p \<leftarrow> getParent m node; l \<leftarrow> getLeft m p; Some (node = l) }"

definition is_right :: "('k, 'v) Map \<Rightarrow> ptr \<Rightarrow> bool option" where
  "is_right m node = do { p \<leftarrow> getParent m node; r \<leftarrow> getRight m p; Some (node = r) }"

partial_function (option) maximum_loop :: "('k, 'v) Map \<Rightarrow> ptr \<Rightarrow> ptr option" where
  "maximum_loop m node = do {
     r \<leftarrow> getRight m node;
     if r \<noteq> None then maximum_loop m r else Some node
   }"

definition maximumNode :: "('k, 'v) Map \<Rightarrow> ptr \<Rightarrow> ptr option" where
  "maximumNode m node = (if node = None then Some None else maximum_loop m node)"

section \<open>Rotations\<close>

definition replaceNode :: "('k, 'v) Map \<Rightarrow> ptr \<Rightarrow> ptr \<Rightarrow> ('k, 'v) Map option" where
  "replaceNode m old new = do {
     p \<leftarrow> getParent m old;
     m1 \<leftarrow> (if p = None then Some (m\<lparr>Root := new\<rparr>)
           else do {
             l \<leftarrow> getLeft m p;
             if old = l then setLeft m p new else setRight m p new
           });
     if new \<noteq> None
     then do { p1 \<leftarrow> getParent m1 old; setParent m1 new p1 }
     else Some m1
   }"

definition rotateLeft :: "('k, 'v) Map \<Rightarrow> ptr \<Rightarrow> ('k, 'v) Map option" where
  "rotateLeft m node = do {
     right \<leftarrow> getRight m node;
     m1 \<leftarrow> replaceNode m node right;
     rl \<leftarrow> getLeft m1 right;
     m2 \<leftarrow> setRight m1 node rl;
     rl2 \<leftarrow> getLeft m2 right;
     m3 \<leftarrow> (if rl2 \<noteq> None then setParent m2 rl2 node else Some m2);
     m4 \<leftarrow> setLeft m3 right node;
     setParent m4 node right
   }"

definition rotateRight :: "('k, 'v) Map \<Rightarrow> ptr \<Rightarrow> ('k, 'v) Map option" where
  "rotateRight m node = do {
     left \<leftarrow> getLeft m node;
     m1 \<leftarrow> replaceNode m node left;
     lr \<leftarrow> getRight m1 left;
     m2 \<leftarrow> setLeft m1 node lr;
     lr2 \<leftarrow> getRight m2 left;
     m3 \<leftarrow> (if lr2 \<noteq> None then setParent m2 lr2 node else Some m2);
     m4 \<leftarrow> setRight m3 left node;
     setParent m4 node left
   }"

section \<open>Insertion\<close>

definition insertCase5 :: "('k, 'v) Map \<Rightarrow> ptr \<Rightarrow> ('k, 'v) Map option" where
  "insertCase5 m node = do {
     p \<leftarrow> getParent m node;
     m1 \<leftarrow> setColor m p Black;
     g \<leftarrow> grandparent m1 node;
     m2 \<leftarrow> setColor m1 g Red;
     p2 \<leftarrow> getParent m2 node;
     ll \<leftarrow> and_then (is_left m2 node) (map_option (\<lambda>l. p2 = l) (getLeft m2 g));
     if ll then rotateRight m2 g
     else do {
       rr \<leftarrow> and_then (is_right m2 node) (map_option (\<lambda>r. p2 = r) (getRight m2 g));
       if rr then rotateLeft m2 g else Some m2
     }
   }"

definition insertCase4 :: "('k, 'v) Map \<Rightarrow> ptr \<Rightarrow> ('k, 'v) Map option" where
  "insertCase4 m node = do {
     g \<leftarrow> grandparent m node;
     p \<leftarrow> getParent m node;
     lr \<leftarrow> and_then (is_right m node) (map_option (\<lambda>l. p = l) (getLeft m g));
     if lr then do {
       m1 \<leftarrow> rotateLeft m p;
       n1 \<leftarrow> getLeft m1 node;
       insertCase5 m1 n1
     }
     else do {
       rl \<leftarrow> and_then (is_left m node) (map_option (\<lambda>r. p = r) (getRight m g));
       if rl then do {
         m1 \<leftarrow> rotateRight m p;
         n1 \<leftarrow> getRight m1 node;
         insertCase5 m1 n1
       }
       else insertCase5 m node
     }
   }"

text \<open>
  The first three cases call each other: one function, with the method that is running as an
  argument.
\<close>

datatype insert_call = InsertCase1 | InsertCase2 | InsertCase3

partial_function (option) insertCase ::
    "insert_call \<Rightarrow> ('k, 'v) Map \<Rightarrow> ptr \<Rightarrow> ('k, 'v) Map option" where
  "insertCase call m node = (case call of
     InsertCase1 \<Rightarrow> do {
       p \<leftarrow> getParent m node;
       if p = None then setColor m node Black else insertCase InsertCase2 m node
     }
   | InsertCase2 \<Rightarrow> do {
       p \<leftarrow> getParent m node;
       black \<leftarrow> has_color m p Black;
       if black then Some m else insertCase InsertCase3 m node
     }
   | InsertCase3 \<Rightarrow> do {
       u \<leftarrow> uncle m node;
       red \<leftarrow> has_color m u Red;
       if red then do {
         p \<leftarrow> getParent m node;
         m1 \<leftarrow> setColor m p Black;
         m2 \<leftarrow> setColor m1 u Black;
         g \<leftarrow> grandparent m2 node;
         m3 \<leftarrow> setColor m2 g Red;
         g3 \<leftarrow> grandparent m3 node;
         insertCase InsertCase1 m3 g3
       }
       else insertCase4 m node
     })"

definition insertCase1 :: "('k, 'v) Map \<Rightarrow> ptr \<Rightarrow> ('k, 'v) Map option" where
  "insertCase1 m node = insertCase InsertCase1 m node"

text \<open>
  The search loop of \<open>Put\<close>. It returns the map and, when a node was attached, that node and the
  node it was attached to; \<open>None\<close> in the second component is the early return after overwriting
  an existing entry.
\<close>

partial_function (option) put_loop ::
    "('k, 'v) Map \<Rightarrow> 'k \<Rightarrow> 'v \<Rightarrow> ptr \<Rightarrow> (('k, 'v) Map \<times> (ptr \<times> ptr) option) option" where
  "put_loop m key value node = do {
     n \<leftarrow> deref m node;
     compare \<leftarrow> Comparator m key (Key n);
     if compare = 0 then do {
       m1 \<leftarrow> update_node m node (Key_update (\<lambda>_. key));
       m2 \<leftarrow> update_node m1 node (Value_update (\<lambda>_. value));
       Some (m2, None)
     }
     else if compare < 0 then
       (if Left n = None then do {
          let (m1, r) = new_node m key value;
          m2 \<leftarrow> setLeft m1 node r;
          Some (m2, Some (r, node))
        }
        else put_loop m key value (Left n))
     else
       (if Right n = None then do {
          let (m1, r) = new_node m key value;
          m2 \<leftarrow> setRight m1 node r;
          Some (m2, Some (r, node))
        }
        else put_loop m key value (Right n))
   }"

definition Put :: "('k, 'v) Map \<Rightarrow> 'k \<Rightarrow> 'v \<Rightarrow> ('k, 'v) Map option" where
  "Put m key value =
     (if Root m = None then do {
        _ \<leftarrow> Comparator m key key;
        let (m1, r) = new_node m key value;
        m2 \<leftarrow> insertCase1 (m1\<lparr>Root := r\<rparr>) r;
        Some (m2\<lparr>msize := msize m2 + 1\<rparr>)
      }
      else do {
        (m1, inserted) \<leftarrow> put_loop m key value (Root m);
        (case inserted of
           None \<Rightarrow> Some m1
         | Some (r, node) \<Rightarrow> do {
             m2 \<leftarrow> setParent m1 r node;
             m3 \<leftarrow> insertCase1 m2 r;
             Some (m3\<lparr>msize := msize m3 + 1\<rparr>)
           })
      })"

section \<open>Lookup\<close>

partial_function (option) lookup_loop :: "('k, 'v) Map \<Rightarrow> 'k \<Rightarrow> ptr \<Rightarrow> ptr option" where
  "lookup_loop m key node =
     (if node = None then Some None
      else do {
        n \<leftarrow> deref m node;
        compare \<leftarrow> Comparator m key (Key n);
        if compare = 0 then Some node
        else if compare < 0 then lookup_loop m key (Left n)
        else lookup_loop m key (Right n)
      })"

definition lookup :: "('k, 'v) Map \<Rightarrow> 'k \<Rightarrow> ptr option" where
  "lookup m key = lookup_loop m key (Root m)"

text \<open>The result \<open>(value, found)\<close> of \<open>Get\<close>: \<open>None\<close> inside for \<open>nil, false\<close>.\<close>

definition Get :: "('k, 'v) Map \<Rightarrow> 'k \<Rightarrow> 'v option option" where
  "Get m key = do {
     node \<leftarrow> lookup m key;
     if node \<noteq> None then do { n \<leftarrow> deref m node; Some (Some (Value n)) } else Some None
   }"

text \<open>\<open>Floor\<close> and \<open>Ceiling\<close> return the node, or nil with \<open>false\<close>.\<close>

partial_function (option) floor_loop :: "('k, 'v) Map \<Rightarrow> 'k \<Rightarrow> ptr \<Rightarrow> ptr \<Rightarrow> ptr option" where
  "floor_loop m key node floor =
     (if node = None then Some floor
      else do {
        n \<leftarrow> deref m node;
        compare \<leftarrow> Comparator m key (Key n);
        if compare = 0 then Some node
        else if compare < 0 then floor_loop m key (Left n) floor
        else floor_loop m key (Right n) node
      })"

definition Floor :: "('k, 'v) Map \<Rightarrow> 'k \<Rightarrow> ptr option" where
  "Floor m key = floor_loop m key (Root m) None"

partial_function (option) ceiling_loop :: "('k, 'v) Map \<Rightarrow> 'k \<Rightarrow> ptr \<Rightarrow> ptr \<Rightarrow> ptr option" where
  "ceiling_loop m key node ceiling =
     (if node = None then Some ceiling
      else do {
        n \<leftarrow> deref m node;
        compare \<leftarrow> Comparator m key (Key n);
        if compare = 0 then Some node
        else if compare < 0 then ceiling_loop m key (Left n) node
        else ceiling_loop m key (Right n) ceiling
      })"

definition Ceiling :: "('k, 'v) Map \<Rightarrow> 'k \<Rightarrow> ptr option" where
  "Ceiling m key = ceiling_loop m key (Root m) None"

partial_function (option) left_loop :: "('k, 'v) Map \<Rightarrow> ptr \<Rightarrow> ptr \<Rightarrow> ptr option" where
  "left_loop m parent current =
     (if current = None then Some parent
      else do { l \<leftarrow> getLeft m current; left_loop m current l })"

definition Map_Left :: "('k, 'v) Map \<Rightarrow> ptr option" where
  "Map_Left m = left_loop m None (Root m)"

partial_function (option) right_loop :: "('k, 'v) Map \<Rightarrow> ptr \<Rightarrow> ptr \<Rightarrow> ptr option" where
  "right_loop m parent current =
     (if current = None then Some parent
      else do { r \<leftarrow> getRight m current; right_loop m current r })"

definition Map_Right :: "('k, 'v) Map \<Rightarrow> ptr option" where
  "Map_Right m = right_loop m None (Root m)"

section \<open>Removal\<close>

definition deleteCase6 :: "('k, 'v) Map \<Rightarrow> ptr \<Rightarrow> ('k, 'v) Map option" where
  "deleteCase6 m node = do {
     s \<leftarrow> sibling m node;
     p \<leftarrow> getParent m node;
     c \<leftarrow> nodeColor m p;
     m1 \<leftarrow> setColor m s c;
     m2 \<leftarrow> setColor m1 p Black;
     far \<leftarrow> and_then (is_left m2 node) (do { sr \<leftarrow> getRight m2 s; has_color m2 sr Red });
     if far then do {
       sr \<leftarrow> getRight m2 s;
       m3 \<leftarrow> setColor m2 sr Black;
       rotateLeft m3 p
     }
     else do {
       sl \<leftarrow> getLeft m2 s;
       red \<leftarrow> has_color m2 sl Red;
       if red then do { m3 \<leftarrow> setColor m2 sl Black; rotateRight m3 p } else Some m2
     }
   }"

definition deleteCase5 :: "('k, 'v) Map \<Rightarrow> ptr \<Rightarrow> ('k, 'v) Map option" where
  "deleteCase5 m node = do {
     s \<leftarrow> sibling m node;
     left \<leftarrow> and_then (is_left m node) (and_then (has_color m s Black)
              (and_then (do { sl \<leftarrow> getLeft m s; has_color m sl Red })
                        (do { sr \<leftarrow> getRight m s; has_color m sr Black })));
     m1 \<leftarrow> (if left then do {
              a \<leftarrow> setColor m s Red;
              sl \<leftarrow> getLeft a s;
              b \<leftarrow> setColor a sl Black;
              rotateRight b s
            }
            else do {
              right \<leftarrow> and_then (is_right m node) (and_then (has_color m s Black)
                        (and_then (do { sr \<leftarrow> getRight m s; has_color m sr Red })
                                  (do { sl \<leftarrow> getLeft m s; has_color m sl Black })));
              if right then do {
                a \<leftarrow> setColor m s Red;
                sr \<leftarrow> getRight a s;
                b \<leftarrow> setColor a sr Black;
                rotateLeft b s
              }
              else Some m
            });
     deleteCase6 m1 node
   }"

text \<open>The condition shared by cases 3 and 4: the parent has colour \<open>c\<close>, the sibling and both its
  children are black.\<close>

definition black_sibling :: "('k, 'v) Map \<Rightarrow> ptr \<Rightarrow> ptr \<Rightarrow> color \<Rightarrow> bool option" where
  "black_sibling m node s c =
     and_then (do { p \<leftarrow> getParent m node; has_color m p c }) (and_then (has_color m s Black)
       (and_then (do { sl \<leftarrow> getLeft m s; has_color m sl Black })
                 (do { sr \<leftarrow> getRight m s; has_color m sr Black })))"

definition deleteCase4 :: "('k, 'v) Map \<Rightarrow> ptr \<Rightarrow> ('k, 'v) Map option" where
  "deleteCase4 m node = do {
     s \<leftarrow> sibling m node;
     b \<leftarrow> black_sibling m node s Red;
     if b then do {
       m1 \<leftarrow> setColor m s Red;
       p \<leftarrow> getParent m1 node;
       setColor m1 p Black
     }
     else deleteCase5 m node
   }"

datatype delete_call = DeleteCase1 | DeleteCase2 | DeleteCase3

partial_function (option) deleteCase ::
    "delete_call \<Rightarrow> ('k, 'v) Map \<Rightarrow> ptr \<Rightarrow> ('k, 'v) Map option" where
  "deleteCase call m node = (case call of
     DeleteCase1 \<Rightarrow> do {
       p \<leftarrow> getParent m node;
       if p = None then Some m else deleteCase DeleteCase2 m node
     }
   | DeleteCase2 \<Rightarrow> do {
       s \<leftarrow> sibling m node;
       red \<leftarrow> has_color m s Red;
       m1 \<leftarrow> (if red then do {
                p \<leftarrow> getParent m node;
                a \<leftarrow> setColor m p Red;
                b \<leftarrow> setColor a s Black;
                l \<leftarrow> is_left b node;
                if l then rotateLeft b p else rotateRight b p
              }
              else Some m);
       deleteCase DeleteCase3 m1 node
     }
   | DeleteCase3 \<Rightarrow> do {
       s \<leftarrow> sibling m node;
       b \<leftarrow> black_sibling m node s Black;
       if b then do {
         m1 \<leftarrow> setColor m s Red;
         p \<leftarrow> getParent m1 node;
         deleteCase DeleteCase1 m1 p
       }
       else deleteCase4 m node
     })"

definition deleteCase1 :: "('k, 'v) Map \<Rightarrow> ptr \<Rightarrow> ('k, 'v) Map option" where
  "deleteCase1 m node = deleteCase DeleteCase1 m node"

text \<open>\<open>Remove\<close> after the node has been found: first the part that moves the predecessor up.\<close>

definition remove_target :: "('k, 'v) Map \<Rightarrow> ptr \<Rightarrow> (('k, 'v) Map \<times> ptr) option" where
  "remove_target m node = do {
     n \<leftarrow> deref m node;
     if Left n \<noteq> None \<and> Right n \<noteq> None then do {
       pred \<leftarrow> maximumNode m (Left n);
       pn \<leftarrow> deref m pred;
       m1 \<leftarrow> update_node m node (Key_update (\<lambda>_. Key pn));
       pn1 \<leftarrow> deref m1 pred;
       m2 \<leftarrow> update_node m1 node (Value_update (\<lambda>_. Value pn1));
       Some (m2, pred)
     }
     else Some (m, node)
   }"

definition remove_at :: "('k, 'v) Map \<Rightarrow> ptr \<Rightarrow> ('k, 'v) Map option" where
  "remove_at m node = do {
     n \<leftarrow> deref m node;
     if Left n = None \<or> Right n = None then do {
       let child = (if Right n = None then Left n else Right n);
       m1 \<leftarrow> (if color n = Black then do {
                c \<leftarrow> nodeColor m child;
                a \<leftarrow> setColor m node c;
                deleteCase1 a node
              }
              else Some m);
       m2 \<leftarrow> replaceNode m1 node child;
       p \<leftarrow> getParent m2 node;
       if p = None \<and> child \<noteq> None then setColor m2 child Black else Some m2
     }
     else Some m
   }"

definition Remove :: "('k, 'v) Map \<Rightarrow> 'k \<Rightarrow> ('k, 'v) Map option" where
  "Remove m key = do {
     node \<leftarrow> lookup m key;
     if node = None then Some m
     else do {
       (m1, node1) \<leftarrow> remove_target m node;
       m2 \<leftarrow> remove_at m1 node1;
       Some (m2\<lparr>msize := msize m2 - 1\<rparr>)
     }
   }"

text \<open>The loops compute: their equations are code equations.\<close>

lemmas loop_code [code] =
  maximum_loop.simps insertCase.simps put_loop.simps lookup_loop.simps floor_loop.simps
  ceiling_loop.simps left_loop.simps right_loop.simps deleteCase.simps

section \<open>Size and clearing\<close>

definition Empty :: "('k, 'v) Map \<Rightarrow> bool" where
  "Empty m = (msize m = 0)"

definition Size :: "('k, 'v) Map \<Rightarrow> int" where
  "Size m = msize m"

definition Clear :: "('k, 'v) Map \<Rightarrow> ('k, 'v) Map" where
  "Clear m = m\<lparr>Root := None, msize := 0\<rparr>"

end
