(* ===== verification/RbTree.thy ===== *)
theory RbTree
  imports Maps
begin

text \<open>
  The abstract side of the ordered map: trees whose nodes carry their reference, contexts (the
  path from a subtree up to the root), the red-black invariants split over a context, and the
  two rebalancing algorithms as functions on contexts. \<open>MapsCorrect\<close> shows that the pointer code
  computes them.
\<close>

section \<open>Trees and contexts\<close>

datatype ('k, 'v) rtree =
    Leaf
  | Br ref color 'k 'v "('k, 'v) rtree" "('k, 'v) rtree"

text \<open>
  A frame is a node with a hole for one child: \<open>FL\<close> has the hole on the left and its other
  subtree on the right, \<open>FR\<close> the other way round. A context lists the frames from the hole up.
\<close>

datatype ('k, 'v) frame =
    FL (faddr: ref) (fcolor: color) (fkey: 'k) (fval: 'v) (fsib: "('k, 'v) rtree")
  | FR (faddr: ref) (fcolor: color) (fkey: 'k) (fval: 'v) (fsib: "('k, 'v) rtree")

type_synonym ('k, 'v) ctx = "('k, 'v) frame list"

fun fill :: "('k, 'v) frame \<Rightarrow> ('k, 'v) rtree \<Rightarrow> ('k, 'v) rtree" where
  "fill (FL r c k v s) t = Br r c k v t s"
| "fill (FR r c k v s) t = Br r c k v s t"

text \<open>A frame with another colour and another subtree.\<close>

fun set_sib :: "('k, 'v) frame \<Rightarrow> color \<Rightarrow> ('k, 'v) rtree \<Rightarrow> ('k, 'v) frame" where
  "set_sib (FL p _ k v _) c s = FL p c k v s"
| "set_sib (FR p _ k v _) c s = FR p c k v s"

fun plug :: "('k, 'v) ctx \<Rightarrow> ('k, 'v) rtree \<Rightarrow> ('k, 'v) rtree" where
  "plug [] t = t"
| "plug (f # fs) t = plug fs (fill f t)"

lemma plug_append [simp]: "plug (fs @ gs) t = plug gs (plug fs t)"
  by (induction fs arbitrary: t) auto

fun inorder :: "('k, 'v) rtree \<Rightarrow> ('k \<times> 'v) list" where
  "inorder Leaf = []"
| "inorder (Br r c k v a b) = inorder a @ (k, v) # inorder b"

fun addrs :: "('k, 'v) rtree \<Rightarrow> ref list" where
  "addrs Leaf = []"
| "addrs (Br r c k v a b) = r # addrs a @ addrs b"

fun caddrs :: "('k, 'v) ctx \<Rightarrow> ref list" where
  "caddrs [] = []"
| "caddrs (f # fs) = faddr f # addrs (fsib f) @ caddrs fs"

text \<open>The entries before and after the hole.\<close>

fun before :: "('k, 'v) ctx \<Rightarrow> ('k \<times> 'v) list" where
  "before [] = []"
| "before (FL r c k v s # fs) = before fs"
| "before (FR r c k v s # fs) = before fs @ inorder s @ [(k, v)]"

fun after :: "('k, 'v) ctx \<Rightarrow> ('k \<times> 'v) list" where
  "after [] = []"
| "after (FL r c k v s # fs) = (k, v) # inorder s @ after fs"
| "after (FR r c k v s # fs) = after fs"

lemma inorder_plug: "inorder (plug fs t) = before fs @ inorder t @ after fs"
proof (induction fs arbitrary: t)
  case Nil
  then show ?case by simp
next
  case (Cons f fs)
  then show ?case by (cases f) simp_all
qed

section \<open>The red-black invariants\<close>

fun colorOf :: "('k, 'v) rtree \<Rightarrow> color" where
  "colorOf Leaf = Black"
| "colorOf (Br r c k v a b) = c"

fun paint :: "color \<Rightarrow> ('k, 'v) rtree \<Rightarrow> ('k, 'v) rtree" where
  "paint c Leaf = Leaf"
| "paint c (Br r d k v a b) = Br r c k v a b"

fun bheight :: "('k, 'v) rtree \<Rightarrow> nat" where
  "bheight Leaf = 0"
| "bheight (Br r c k v a b) = bheight a + (if c = Black then 1 else 0)"

fun invc :: "('k, 'v) rtree \<Rightarrow> bool" where
  "invc Leaf = True"
| "invc (Br r c k v a b) =
     ((c = Red \<longrightarrow> colorOf a = Black \<and> colorOf b = Black) \<and> invc a \<and> invc b)"

fun invh :: "('k, 'v) rtree \<Rightarrow> bool" where
  "invh Leaf = True"
| "invh (Br r c k v a b) = (bheight a = bheight b \<and> invh a \<and> invh b)"

definition rbt :: "('k, 'v) rtree \<Rightarrow> bool" where
  "rbt t = (invc t \<and> invh t \<and> colorOf t = Black)"

lemma color_neq [simp]: "c \<noteq> Black \<longleftrightarrow> c = Red" "c \<noteq> Red \<longleftrightarrow> c = Black"
  by (cases c; simp)+

text \<open>The invariants of a context whose hole takes a tree of a given black height and colour.\<close>

fun cinvh :: "('k, 'v) ctx \<Rightarrow> nat \<Rightarrow> bool" where
  "cinvh [] n = True"
| "cinvh (f # fs) n = (bheight (fsib f) = n \<and> invh (fsib f)
     \<and> cinvh fs (n + (if fcolor f = Black then 1 else 0)))"

fun cinvc :: "('k, 'v) ctx \<Rightarrow> color \<Rightarrow> bool" where
  "cinvc [] c = True"
| "cinvc (f # fs) c = ((fcolor f = Red \<longrightarrow> c = Black \<and> colorOf (fsib f) = Black)
     \<and> invc (fsib f) \<and> cinvc fs (fcolor f))"

text \<open>The colour of the root, given the colour of the tree in the hole.\<close>

fun ctop :: "('k, 'v) ctx \<Rightarrow> color \<Rightarrow> color" where
  "ctop [] c = c"
| "ctop (f # fs) c = ctop fs (fcolor f)"

lemma invh_plug: "invh (plug fs t) \<longleftrightarrow> invh t \<and> cinvh fs (bheight t)"
proof (induction fs arbitrary: t)
  case Nil
  then show ?case by simp
next
  case (Cons f fs)
  have "invh (fill f t) \<longleftrightarrow> invh t \<and> invh (fsib f) \<and> bheight (fsib f) = bheight t"
    by (cases f) (simp_all add: conj_ac eq_commute)
  moreover have "bheight (fsib f) = bheight t \<Longrightarrow>
      bheight (fill f t) = bheight t + (if fcolor f = Black then 1 else 0)"
    by (cases f) simp_all
  ultimately show ?case by (auto simp: Cons.IH)
qed

lemma invc_plug: "invc (plug fs t) \<longleftrightarrow> invc t \<and> cinvc fs (colorOf t)"
proof (induction fs arbitrary: t)
  case Nil
  then show ?case by simp
next
  case (Cons f fs)
  then show ?case by (cases f) auto
qed

lemma colorOf_plug: "colorOf (plug fs t) = ctop fs (colorOf t)"
proof (induction fs arbitrary: t)
  case Nil
  then show ?case by simp
next
  case (Cons f fs)
  then show ?case by (cases f) auto
qed

lemmas plug_invs = invh_plug invc_plug colorOf_plug inorder_plug

lemma cinvc_mono: "cinvc fs Red \<Longrightarrow> cinvc fs c"
  by (cases fs) auto

lemma paint_simps [simp]:
  "inorder (paint c t) = inorder t" "addrs (paint c t) = addrs t"
  "invh (paint c t) = invh t" "paint c t = Leaf \<longleftrightarrow> t = Leaf"
  "invc t \<Longrightarrow> invc (paint Black t)" "colorOf (paint Black t) = Black"
  by (cases t; simp)+

lemma bheight_pos: "0 < bheight t \<Longrightarrow> t \<noteq> Leaf"
  by (cases t) auto

section \<open>Rebalancing after an insertion\<close>

text \<open>
  \<open>ifix fs t\<close>: the tree after \<open>insertCase1\<close> on the red node \<open>t\<close> that sits in the hole of
  \<open>fs\<close>. The innermost frame is the parent, the next one the grandparent.
\<close>

fun ifix :: "('k, 'v) ctx \<Rightarrow> ('k, 'v) rtree \<Rightarrow> ('k, 'v) rtree" where
  "ifix [] t = paint Black t"
| "ifix [f] t = fill f t"
| "ifix (f # g # gs) t =
     (if fcolor f = Black then plug (f # g # gs) t
      else if colorOf (fsib g) = Red then
        ifix gs (fill (set_sib g Red (paint Black (fsib g))) (paint Black (fill f t)))
      else (case t of Leaf \<Rightarrow> plug (f # g # gs) t | Br n _ nk nv a b \<Rightarrow>
        (case (f, g) of
          (FL p _ pk pv ps, FL r _ k v u) \<Rightarrow>
            plug gs (Br p Black pk pv t (Br r Red k v ps u))
        | (FR p _ pk pv ps, FL r _ k v u) \<Rightarrow>
            plug gs (Br n Black nk nv (Br p Red pk pv ps a) (Br r Red k v b u))
        | (FL p _ pk pv ps, FR r _ k v u) \<Rightarrow>
            plug gs (Br n Black nk nv (Br r Red k v u a) (Br p Red pk pv b ps))
        | (FR p _ pk pv ps, FR r _ k v u) \<Rightarrow>
            plug gs (Br p Black pk pv (Br r Red k v u ps) t))))"

text \<open>The facts about one frame that the inductions need.\<close>

lemma fill_simps [simp]:
  "inorder (fill f t) = before [f] @ inorder t @ after [f]"
  "invc (fill f t) \<longleftrightarrow> (fcolor f = Red \<longrightarrow> colorOf t = Black \<and> colorOf (fsib f) = Black)
     \<and> invc t \<and> invc (fsib f)"
  "invh (fill f t) \<longleftrightarrow> bheight (fsib f) = bheight t \<and> invh t \<and> invh (fsib f)"
  "colorOf (fill f t) = fcolor f"
  by (cases f; auto)+

lemma bheight_fill: "bheight (fsib f) = bheight t \<Longrightarrow>
    bheight (fill f t) = bheight t + (if fcolor f = Black then 1 else 0)"
  by (cases f) auto

lemma paint_fill [simp]: "paint c (fill f t) = fill (set_sib f c (fsib f)) t"
  by (cases f) auto

lemma bheight_paint: "colorOf t = Red \<Longrightarrow> bheight (paint Black t) = Suc (bheight t)"
  by (cases t) auto

lemma set_sib_simps [simp]:
  "faddr (set_sib f c s) = faddr f" "fcolor (set_sib f c s) = c" "fsib (set_sib f c s) = s"
  "inorder s = inorder (fsib f) \<Longrightarrow> before [set_sib f c s] = before [f]"
  "inorder s = inorder (fsib f) \<Longrightarrow> after [set_sib f c s] = after [f]"
  by (cases f; auto)+

lemma before_after_Cons [simp]:
  "NO_MATCH [] fs \<Longrightarrow> before (f # fs) = before fs @ before [f]"
  "NO_MATCH [] fs \<Longrightarrow> after (f # fs) = after [f] @ after fs"
  by (cases f; simp)+

lemma inorder_ifix: "inorder (ifix fs t) = before fs @ inorder t @ after fs"
proof (induction fs t rule: ifix.induct)
  case (3 f g gs t)
  show ?case
  proof (cases "fcolor f = Black \<or> t = Leaf \<and> colorOf (fsib g) = Black")
    case True
    then show ?thesis by (auto simp: inorder_plug)
  next
    case False
    then show ?thesis
      using "3.IH" by (cases "colorOf (fsib g)"; cases f; cases g; cases t) (simp_all add: inorder_plug)
  qed
qed simp_all

text \<open>
  The state of the tree when \<open>insertCase1\<close> runs: everything holds but that the parent of the
  red node \<open>t\<close> may be red. The result is a red-black tree.
\<close>

lemma rbt_ifix:
  assumes "invc t" and "invh t" and "colorOf t = Red"
    and "cinvh fs (bheight t)" and "cinvc fs Black" and "fs \<noteq> [] \<Longrightarrow> ctop fs Black = Black"
  shows "rbt (ifix fs t)"
  using assms
proof (induction fs t rule: ifix.induct)
  case (1 t)
  then show ?case by (simp add: rbt_def)
next
  case (2 f t)
  then show ?case by (simp add: rbt_def)
next
  case (3 f g gs t)
  obtain n k v a b where t: "t = Br n Red k v a b"
    using "3.prems"(3) by (cases t) auto
  show ?case
  proof (cases "fcolor f = Black")
    case True
    then have "ifix (f # g # gs) t = plug (f # g # gs) t" by simp
    moreover have "rbt (plug (f # g # gs) t)"
      using True "3.prems" unfolding rbt_def plug_invs by simp
    ultimately show ?thesis by (simp only:)
  next
    case red: False
    then have g: "fcolor g = Black" using "3.prems"(5) by simp
    show ?thesis
    proof (cases "colorOf (fsib g) = Red")
      case True
      have "rbt (ifix gs (fill (set_sib g Red (paint Black (fsib g))) (paint Black (fill f t))))"
        using "3.prems" red g True
        by (intro "3.IH") (simp_all add: bheight_paint bheight_fill cinvc_mono)
      with red True show ?thesis by simp
    next
      case False
      then show ?thesis
        using "3.prems" red g t by (cases f; cases g) (simp_all add: rbt_def plug_invs)
    qed
  qed
qed

section \<open>Rebalancing before a removal\<close>

text \<open>
  \<open>dfix fs\<close>: the context of the node after \<open>deleteCase1\<close> ran on it. The subtree in the hole
  is not touched, its context gains the black node that the hole is about to lose. Without the
  far red nephew of case 6 the code would only recolour; \<open>far\<close> is where it finds one.
\<close>

fun dfix6 :: "('k, 'v) ctx \<Rightarrow> ('k, 'v) ctx" where
  "dfix6 (FL p pc pk pv (Br s sc sk sv sl sr) # fs) =
     FL p Black pk pv sl # FL s pc sk sv (paint Black sr) # fs"
| "dfix6 (FR p pc pk pv (Br s sc sk sv sl sr) # fs) =
     FR p Black pk pv sr # FR s pc sk sv (paint Black sl) # fs"
| "dfix6 fs = fs"

fun dfix5 :: "('k, 'v) ctx \<Rightarrow> ('k, 'v) ctx" where
  "dfix5 (FL p pc pk pv (Br s sc sk sv (Br l Red lk lv la lb) sr) # fs) =
     (if colorOf sr = Black
      then dfix6 (FL p pc pk pv (Br l Black lk lv la (Br s Red sk sv lb sr)) # fs)
      else dfix6 (FL p pc pk pv (Br s sc sk sv (Br l Red lk lv la lb) sr) # fs))"
| "dfix5 (FR p pc pk pv (Br s sc sk sv sl (Br r Red rk rv ra rb)) # fs) =
     (if colorOf sl = Black
      then dfix6 (FR p pc pk pv (Br r Black rk rv (Br s Red sk sv sl ra) rb) # fs)
      else dfix6 (FR p pc pk pv (Br s sc sk sv sl (Br r Red rk rv ra rb)) # fs))"
| "dfix5 fs = dfix6 fs"

fun black_nephews :: "('k, 'v) rtree \<Rightarrow> bool" where
  "black_nephews Leaf = True"
| "black_nephews (Br s c k v l r) = (colorOf l = Black \<and> colorOf r = Black)"

text \<open>Case 4 on, with the sibling black.\<close>

definition dfix4 :: "('k, 'v) frame \<Rightarrow> ('k, 'v) ctx \<Rightarrow> ('k, 'v) ctx" where
  "dfix4 f fs =
     (if fcolor f = Red \<and> black_nephews (fsib f) then set_sib f Black (paint Red (fsib f)) # fs
      else dfix5 (f # fs))"

fun dfix :: "('k, 'v) ctx \<Rightarrow> ('k, 'v) ctx" where
  "dfix [] = []"
| "dfix (f # fs) =
     (case (f, fsib f) of
        (FL p pc pk pv _, Br s Red sk sv sl sr) \<Rightarrow> dfix4 (FL p Red pk pv sl) (FL s Black sk sv sr # fs)
      | (FR p pc pk pv _, Br s Red sk sv sl sr) \<Rightarrow> dfix4 (FR p Red pk pv sr) (FR s Black sk sv sl # fs)
      | _ \<Rightarrow>
         if fcolor f = Black \<and> black_nephews (fsib f)
         then set_sib f Black (paint Red (fsib f)) # dfix fs
         else dfix4 f fs)"

text \<open>What a step on a context promises, from a hole of black height \<open>n + 1\<close> to one of height \<open>n\<close>.\<close>

definition lowers :: "('k, 'v) ctx \<Rightarrow> ('k, 'v) ctx \<Rightarrow> nat \<Rightarrow> bool" where
  "lowers fs gs n = (cinvh gs n \<and> cinvc gs Red
     \<and> (ctop fs Red = Black \<longrightarrow> ctop gs Red = Black)
     \<and> before gs = before fs \<and> after gs = after fs)"

lemma ctop_cong: "fs \<noteq> [] \<Longrightarrow> ctop fs c = ctop fs d"
  by (cases fs) auto

lemma ctop_Black: "ctop fs Red = Black \<Longrightarrow> ctop fs c = Black"
  by (cases fs) auto

lemma lowers_dfix4:
  assumes "cinvh (f # fs) (Suc n)" and "cinvc (f # fs) Black" and "colorOf (fsib f) = Black"
    and "fcolor f = Red \<or> \<not> black_nephews (fsib f)"
  shows "lowers (f # fs) (dfix4 f fs) n"
proof -
  obtain s k v l r where s: "fsib f = Br s Black k v l r"
    using assms(1,3) by (cases "fsib f") auto
  show ?thesis
  proof (cases "black_nephews (fsib f)")
    case True
    then show ?thesis
      using assms s by (cases f) (auto simp: dfix4_def lowers_def intro: cinvc_mono ctop_Black)
  next
    case False
    then show ?thesis
      using assms s
      by (cases f; cases l; cases r; cases "colorOf l"; cases "colorOf r")
        (auto simp: dfix4_def lowers_def)
  qed
qed

text \<open>Case 2: the red sibling goes up, and the node gets a red parent and a black sibling.\<close>

lemma lowers_red_sibling:
  assumes "cinvh (f # fs) (Suc n)" and "cinvc (f # fs) Black" and "fsib f = Br s Red k v l r"
  shows "lowers (f # fs) (dfix (f # fs)) n"
proof (cases f)
  case f: (FL p c pk pv t)
  have "lowers (FL p Red pk pv l # FL s Black k v r # fs)
      (dfix4 (FL p Red pk pv l) (FL s Black k v r # fs)) n"
    using assms f by (intro lowers_dfix4) auto
  then show ?thesis using assms f by (auto simp: lowers_def)
next
  case f: (FR p c pk pv t)
  have "lowers (FR p Red pk pv r # FR s Black k v l # fs)
      (dfix4 (FR p Red pk pv r) (FR s Black k v l # fs)) n"
    using assms f by (intro lowers_dfix4) auto
  then show ?thesis using assms f by (auto simp: lowers_def)
qed

lemma lowers_dfix:
  assumes "cinvh fs (Suc n)" and "cinvc fs Black"
  shows "lowers fs (dfix fs) n"
  using assms
proof (induction fs arbitrary: n)
  case Nil
  then show ?case by (simp add: lowers_def)
next
  case (Cons f fs)
  obtain s c k v l r where s: "fsib f = Br s c k v l r"
    using Cons.prems by (cases "fsib f") auto
  show ?case
  proof (cases c)
    case Red
    with s Cons.prems show ?thesis by (blast intro: lowers_red_sibling)
  next
    case Black
    show ?thesis
    proof (cases "fcolor f = Black \<and> black_nephews (fsib f)")
      case True
      then have "lowers fs (dfix fs) (Suc n)"
        using Cons.prems by (intro Cons.IH) (auto intro: cinvc_mono)
      moreover have "ctop fs Black = Black \<Longrightarrow> fs = [] \<or> ctop fs Red = Black"
        using ctop_cong by metis
      ultimately show ?thesis
        using True Cons.prems s Black
        by (cases f) (auto simp: lowers_def intro: cinvc_mono ctop_Black)
    next
      case False
      then have "dfix (f # fs) = dfix4 f fs"
        using s Black by (cases f) auto
      with False Cons.prems s Black show ?thesis
        using lowers_dfix4 [of f fs n] by simp
    qed
  qed
qed

end
