(* ===== verification/MapsRep.thy ===== *)
theory MapsRep
  imports RbTree "HOL-Library.Multiset"
begin

text \<open>
  The representation relation between a store and a tree, its form at a focus inside the tree,
  and the pointer operations of \<open>maps.go\<close> that move pointers (reads of relatives, colour writes,
  \<open>replaceNode\<close>, the rotations) as operations on the tree at the focus.
\<close>

section \<open>A store represents a tree\<close>

fun rootp :: "('k, 'v) rtree \<Rightarrow> ptr" where
  "rootp Leaf = None"
| "rootp (Br r c k v a b) = Some r"

fun is_tree :: "(ref \<Rightarrow> ('k, 'v) Node option) \<Rightarrow> ptr \<Rightarrow> ('k, 'v) rtree \<Rightarrow> bool" where
  "is_tree h p Leaf = True"
| "is_tree h p (Br r c k v a b) =
     (h r = Some \<lparr>Key = k, Value = v, color = c, Left = rootp a, Right = rootp b, Parent = p\<rparr>
      \<and> is_tree h (Some r) a \<and> is_tree h (Some r) b)"

definition rep :: "('k, 'v) Map \<Rightarrow> ('k, 'v) rtree \<Rightarrow> bool" where
  "rep m t = (Root m = rootp t \<and> is_tree (store m) None t \<and> distinct (addrs t)
     \<and> (\<forall>r \<in> set (addrs t). r < fresh m))"

text \<open>The cell of a frame: \<open>x\<close> is the pointer into the hole, \<open>p\<close> the parent.\<close>

fun fcell :: "('k, 'v) frame \<Rightarrow> ptr \<Rightarrow> ptr \<Rightarrow> ('k, 'v) Node" where
  "fcell (FL r c k v s) x p =
     \<lparr>Key = k, Value = v, color = c, Left = x, Right = rootp s, Parent = p\<rparr>"
| "fcell (FR r c k v s) x p =
     \<lparr>Key = k, Value = v, color = c, Left = rootp s, Right = x, Parent = p\<rparr>"

fun cparent :: "('k, 'v) ctx \<Rightarrow> ptr" where
  "cparent [] = None"
| "cparent (f # fs) = Some (faddr f)"

fun croot :: "('k, 'v) ctx \<Rightarrow> ptr \<Rightarrow> ptr" where
  "croot [] x = x"
| "croot (f # fs) x = croot fs (Some (faddr f))"

fun is_ctx :: "(ref \<Rightarrow> ('k, 'v) Node option) \<Rightarrow> ('k, 'v) ctx \<Rightarrow> ptr \<Rightarrow> bool" where
  "is_ctx h [] x = True"
| "is_ctx h (f # fs) x = (h (faddr f) = Some (fcell f x (cparent fs))
     \<and> is_tree h (Some (faddr f)) (fsib f) \<and> is_ctx h fs (Some (faddr f)))"

subsection \<open>The focus form\<close>

lemma rootp_fill [simp]: "rootp (fill f t) = Some (faddr f)"
  by (cases f) auto

lemma is_tree_fill [simp]: "is_tree h p (fill f t) \<longleftrightarrow>
    h (faddr f) = Some (fcell f (rootp t) p)
    \<and> is_tree h (Some (faddr f)) (fsib f) \<and> is_tree h (Some (faddr f)) t"
  by (cases f) auto

lemma rootp_plug: "rootp (plug fs t) = croot fs (rootp t)"
  by (induction fs arbitrary: t) auto

lemma is_tree_plug:
  "is_tree h None (plug fs t) \<longleftrightarrow> is_ctx h fs (rootp t) \<and> is_tree h (cparent fs) t"
  by (induction fs arbitrary: t) auto

lemma mset_addrs_fill: "mset (addrs (fill f t)) = mset (addrs t @ faddr f # addrs (fsib f))"
  by (cases f) auto

lemma mset_addrs_plug: "mset (addrs (plug fs t)) = mset (addrs t @ caddrs fs)"
  by (induction fs arbitrary: t) (auto simp: mset_addrs_fill)

lemma rep_plug: "rep m (plug fs t) \<longleftrightarrow>
    Root m = croot fs (rootp t) \<and> is_ctx (store m) fs (rootp t)
    \<and> is_tree (store m) (cparent fs) t \<and> distinct (addrs t @ caddrs fs)
    \<and> (\<forall>r \<in> set (addrs t @ caddrs fs). r < fresh m)"
  unfolding rep_def rootp_plug is_tree_plug
  using mset_eq_imp_distinct_iff [OF mset_addrs_plug, of fs t]
    mset_eq_setD [OF mset_addrs_plug, of fs t]
  by simp

subsection \<open>Cells outside a tree do not matter\<close>

lemma is_tree_frame [simp]: "r \<notin> set (addrs t) \<Longrightarrow> is_tree (h(r := n)) p t = is_tree h p t"
  by (induction t arbitrary: p) auto

lemma is_ctx_frame [simp]: "r \<notin> set (caddrs fs) \<Longrightarrow> is_ctx (h(r := n)) fs x = is_ctx h fs x"
  by (induction fs arbitrary: x) auto

lemma rootp_addr: "rootp t = Some r \<Longrightarrow> r \<in> set (addrs t)"
  by (cases t) auto

lemma rootp_None [simp]: "rootp t = None \<longleftrightarrow> t = Leaf" "None = rootp t \<longleftrightarrow> t = Leaf"
  by (cases t; auto)+

lemma rootp_neq: "r \<notin> set (addrs t) \<Longrightarrow> rootp t \<noteq> Some r" "r \<notin> set (addrs t) \<Longrightarrow> Some r \<noteq> rootp t"
  using rootp_addr [of t r] by auto

section \<open>Reads and writes at a focus\<close>

text \<open>What no operation on the shape changes.\<close>

definition same :: "('k, 'v) Map \<Rightarrow> ('k, 'v) Map \<Rightarrow> bool" where
  "same m m' = (msize m' = msize m \<and> Comparator m' = Comparator m \<and> fresh m' = fresh m)"

lemma same_refl [simp]: "same m m"
  by (simp add: same_def)

lemma same_trans: "same m m' \<Longrightarrow> same m' m'' \<Longrightarrow> same m m''"
  by (simp add: same_def)

lemmas [heap_simps] =
  deref_def update_node_def getLeft_def getRight_def getParent_def
  setLeft_def setRight_def setParent_def setColor_def

lemma deref_node: "rep m (plug fs (Br n c k v a b)) \<Longrightarrow> deref m (Some n) =
    Some \<lparr>Key = k, Value = v, color = c, Left = rootp a, Right = rootp b, Parent = cparent fs\<rparr>"
  by (simp add: rep_plug deref_def)

lemma getters_node [rep_simps]:
  assumes "rep m (plug fs (Br n c k v a b))"
  shows "getLeft m (Some n) = Some (rootp a)" "getRight m (Some n) = Some (rootp b)"
    "getParent m (Some n) = Some (cparent fs)"
  using deref_node [OF assms] by (simp_all add: getLeft_def getRight_def getParent_def)

lemma nodeColor_focus [rep_simps]: "rep m (plug fs t) \<Longrightarrow> nodeColor m (rootp t) = Some (colorOf t)"
  by (cases t) (simp_all add: nodeColor_def deref_node)

lemma has_color_focus [rep_simps]:
  "rep m (plug fs t) \<Longrightarrow> has_color m (rootp t) c = Some (colorOf t = c)"
  by (simp add: has_color_def nodeColor_focus)

lemma setColor_focus:
  assumes "rep m (plug fs t)" and "t \<noteq> Leaf"
  shows "\<exists>m'. setColor m (rootp t) c = Some m' \<and> rep m' (plug fs (paint c t)) \<and> same m m'"
  using assms by (cases t) (auto simp: rep_plug heap_simps same_def)

text \<open>Moving the focus to the parent or into a child.\<close>

lemma rep_up: "rep m (plug (f # fs) t) \<longleftrightarrow> rep m (plug fs (fill f t))"
  by simp

lemma rep_left: "rep m (plug fs (Br n c k v a b)) \<longleftrightarrow> rep m (plug (FL n c k v b # fs) a)"
  by simp

lemma rep_right: "rep m (plug fs (Br n c k v a b)) \<longleftrightarrow> rep m (plug (FR n c k v a # fs) b)"
  by simp

section \<open>Relatives at a focus\<close>

lemma parent_focus [rep_simps]:
  assumes "rep m (plug fs t)" and "t \<noteq> Leaf"
  shows "getParent m (rootp t) = Some (cparent fs)"
  using assms by (cases t) (auto simp: rep_plug heap_simps)

lemma frame_cell: "rep m (plug (f # fs) t) \<Longrightarrow>
    deref m (Some (faddr f)) = Some (fcell f (rootp t) (cparent fs))"
  by (simp add: rep_plug deref_def del: plug.simps)

lemma frame_hole [rep_simps]:
  "rep m (plug (FL r c k v s # fs) t) \<Longrightarrow> getLeft m (Some r) = Some (rootp t)"
  "rep m (plug (FL r c k v s # fs) t) \<Longrightarrow> getRight m (Some r) = Some (rootp s)"
  "rep m (plug (FR r c k v s # fs) t) \<Longrightarrow> getRight m (Some r) = Some (rootp t)"
  "rep m (plug (FR r c k v s # fs) t) \<Longrightarrow> getLeft m (Some r) = Some (rootp s)"
  by (auto simp: rep_plug heap_simps simp del: plug.simps)

lemma frame_parent [rep_simps]:
  "rep m (plug (f # fs) t) \<Longrightarrow> getParent m (Some (faddr f)) = Some (cparent fs)"
  by (cases f) (auto simp: rep_plug heap_simps simp del: plug.simps)

lemma hole_not_sibling:
  assumes "rep m (plug (f # fs) t)" and "t \<noteq> Leaf"
  shows "rootp t \<noteq> rootp (fsib f)"
  using assms rootp_addr [of "fsib f"]
  by (cases t) (auto simp: rep_plug simp del: plug.simps)

lemma sibling_focus [rep_simps]:
  assumes "rep m (plug (f # fs) t)" and "t \<noteq> Leaf"
  shows "sibling m (rootp t) = Some (rootp (fsib f))"
proof -
  note parent = parent_focus [OF assms]
  show ?thesis
  proof (cases f)
    case (FL r c k v s)
    with assms parent show ?thesis
      by (simp add: sibling_def frame_hole [of m r c k v s fs t] del: plug.simps)
  next
    case (FR r c k v s)
    with assms parent hole_not_sibling [OF assms] show ?thesis
      by (simp add: sibling_def frame_hole [of m r c k v s fs t] del: plug.simps)
  qed
qed

lemma is_left_focus [rep_simps]:
  assumes "rep m (plug (f # fs) t)" and "t \<noteq> Leaf"
  shows "is_left m (rootp t) = Some (case f of FL _ _ _ _ _ \<Rightarrow> True | FR _ _ _ _ _ \<Rightarrow> False)"
    and "is_right m (rootp t) = Some (case f of FL _ _ _ _ _ \<Rightarrow> False | FR _ _ _ _ _ \<Rightarrow> True)"
proof -
  note parent = parent_focus [OF assms] and other = hole_not_sibling [OF assms]
  show "is_left m (rootp t) = Some (case f of FL _ _ _ _ _ \<Rightarrow> True | FR _ _ _ _ _ \<Rightarrow> False)"
    using assms parent other
    by (cases f) (auto simp: is_left_def frame_hole [of m _ _ _ _ _ fs t] simp del: plug.simps)
  show "is_right m (rootp t) = Some (case f of FL _ _ _ _ _ \<Rightarrow> False | FR _ _ _ _ _ \<Rightarrow> True)"
    using assms parent other
    by (cases f) (auto simp: is_right_def frame_hole [of m _ _ _ _ _ fs t] simp del: plug.simps)
qed

lemma grandparent_focus [rep_simps]:
  assumes "rep m (plug (f # fs) t)" and "t \<noteq> Leaf"
  shows "grandparent m (rootp t) = Some (cparent fs)"
  using assms parent_focus [OF assms] frame_parent [OF assms(1)]
  by (simp add: grandparent_def del: plug.simps)

lemma uncle_focus [rep_simps]:
  assumes "rep m (plug (f # fs) t)" and "t \<noteq> Leaf"
  shows "uncle m (rootp t) = Some (case fs of [] \<Rightarrow> None | g # gs \<Rightarrow> rootp (fsib g))"
proof -
  note parent = parent_focus [OF assms] and gp = frame_parent [OF assms(1)]
  show ?thesis
  proof (cases fs)
    case Nil
    then show ?thesis using assms parent gp by (simp add: uncle_def del: plug.simps)
  next
    case (Cons g gs)
    have "sibling m (rootp (fill f t)) = Some (rootp (fsib g))"
      using assms(1) Cons by (intro sibling_focus [of m g gs]) (auto, cases f, auto)
    then show ?thesis
      using Cons assms parent gp by (simp add: uncle_def del: plug.simps)
  qed
qed

section \<open>Replacing a subtree and rotating\<close>

lemma rotateLeft_focus:
  assumes "rep m (plug fs (Br n c k v a (Br r c' k' v' b d)))"
  shows "\<exists>m'. rotateLeft m (Some n) = Some m'
    \<and> rep m' (plug fs (Br r c' k' v' (Br n c k v a b) d)) \<and> same m m'"
proof (cases fs)
  case Nil
  then show ?thesis
    using assms
    by (cases b) (auto simp: rep_plug rotateLeft_def replaceNode_def heap_simps same_def rootp_neq
        simp del: plug.simps)
next
  case (Cons f gs)
  then show ?thesis
    using assms
    by (cases f; cases b)
      (auto simp: rep_plug rotateLeft_def replaceNode_def heap_simps same_def rootp_neq
        simp del: plug.simps)
qed

lemma rotateRight_focus:
  assumes "rep m (plug fs (Br n c k v (Br l c' k' v' a b) d))"
  shows "\<exists>m'. rotateRight m (Some n) = Some m'
    \<and> rep m' (plug fs (Br l c' k' v' a (Br n c k v b d))) \<and> same m m'"
proof (cases fs)
  case Nil
  then show ?thesis
    using assms
    by (cases b) (auto simp: rep_plug rotateRight_def replaceNode_def heap_simps same_def rootp_neq
        simp del: plug.simps)
next
  case (Cons f gs)
  then show ?thesis
    using assms
    by (cases f; cases b)
      (auto simp: rep_plug rotateRight_def replaceNode_def heap_simps same_def rootp_neq
        simp del: plug.simps)
qed

text \<open>
  \<open>replaceNode(node, child)\<close> when one child of the node is nil: the node leaves the tree, the
  cell keeps its parent pointer.
\<close>

lemma replaceNode_focus:
  assumes "rep m (plug fs (Br n c k v a b))" and "a = Leaf \<or> b = Leaf"
    and "x = (if b = Leaf then a else b)"
  shows "\<exists>m'. replaceNode m (Some n) (rootp x) = Some m' \<and> rep m' (plug fs x) \<and> same m m'
    \<and> getParent m' (Some n) = Some (cparent fs)"
proof (cases fs)
  case Nil
  then show ?thesis
    using assms
    by (cases x) (auto simp: rep_plug replaceNode_def heap_simps same_def rootp_neq
        simp del: plug.simps split: if_splits)
next
  case (Cons f gs)
  then show ?thesis
    using assms
    by (cases f; cases x)
      (auto simp: rep_plug replaceNode_def heap_simps same_def rootp_neq
        simp del: plug.simps split: if_splits)
qed

end
