(* ===== verification/MapsFix.thy ===== *)
theory MapsFix
  imports MapsRep
begin

text \<open>
  The rebalancing methods of \<open>maps.go\<close> on a store that represents a tree: \<open>insertCase1\<close> to
  \<open>insertCase5\<close> compute \<open>ifix\<close>, \<open>deleteCase1\<close> to \<open>deleteCase6\<close> compute \<open>dfix\<close>, and none of
  them panics or loops.
\<close>

section \<open>Insertion\<close>

lemma insertCase_simps:
  "insertCase InsertCase1 m node = do {
     p \<leftarrow> getParent m node;
     if p = None then setColor m node Black else insertCase InsertCase2 m node }"
  "insertCase InsertCase2 m node = do {
     p \<leftarrow> getParent m node;
     black \<leftarrow> has_color m p Black;
     if black then Some m else insertCase InsertCase3 m node }"
  "insertCase InsertCase3 m node = do {
     u \<leftarrow> uncle m node;
     red \<leftarrow> has_color m u Red;
     if red then do {
       p \<leftarrow> getParent m node;
       m1 \<leftarrow> setColor m p Black;
       m2 \<leftarrow> setColor m1 u Black;
       g \<leftarrow> grandparent m2 node;
       m3 \<leftarrow> setColor m2 g Red;
       g3 \<leftarrow> grandparent m3 node;
       insertCase InsertCase1 m3 g3
     }
     else insertCase4 m node }"
  by (subst insertCase.simps, simp)+

text \<open>The colour of a frame, read through its reference.\<close>

lemma has_color_frame [rep_simps]:
  "rep m (plug (f # fs) t) \<Longrightarrow> has_color m (Some (faddr f)) c = Some (fcolor f = c)"
  using has_color_focus [of m fs "fill f t" c] by simp

lemma setColor_frame:
  assumes "rep m (plug (f # fs) t)"
  shows "\<exists>m'. setColor m (Some (faddr f)) c = Some m'
    \<and> rep m' (plug (set_sib f c (fsib f) # fs) t) \<and> same m m'"
proof -
  have "fill f t \<noteq> Leaf" by (cases f) auto
  with setColor_focus [of m fs "fill f t" c] assms show ?thesis by simp
qed

text \<open>The same place of the tree, seen from the sibling of the hole.\<close>

fun flip :: "('k, 'v) frame \<Rightarrow> ('k, 'v) rtree \<Rightarrow> ('k, 'v) frame" where
  "flip (FL p c k v s) t = FR p c k v t"
| "flip (FR p c k v s) t = FL p c k v t"

lemma fill_flip: "fill (flip f t) s = fill (set_sib f (fcolor f) s) t"
  by (cases f) auto

lemma set_sib_set_sib [simp]: "set_sib (set_sib f c s) d u = set_sib f d u"
  by (cases f) auto

lemma set_sib_id [simp]: "set_sib f (fcolor f) (fsib f) = f"
  by (cases f) auto

lemma setColor_sib:
  assumes "rep m (plug (f # fs) t)" and "fsib f \<noteq> Leaf"
  shows "\<exists>m'. setColor m (rootp (fsib f)) c = Some m'
    \<and> rep m' (plug (set_sib f (fcolor f) (paint c (fsib f)) # fs) t) \<and> same m m'"
  using setColor_focus [of m "flip f t # fs" "fsib f" c] assms by (simp add: fill_flip)

lemma has_color_sib [rep_simps]:
  "rep m (plug (f # fs) t) \<Longrightarrow> has_color m (rootp (fsib f)) c = Some (colorOf (fsib f) = c)"
  using has_color_focus [of m "flip f t # fs" "fsib f" c] by (simp add: fill_flip)

subsection \<open>Cases 5 and 4\<close>

lemma insertCase5_LL:
  assumes "rep m (plug (FL p pc pk pv ps # FL r c k v u # gs) t)" and "t \<noteq> Leaf"
  shows "\<exists>m'. insertCase5 m (rootp t) = Some m'
    \<and> rep m' (plug gs (Br p Black pk pv t (Br r Red k v ps u))) \<and> same m m'"
proof -
  obtain m1 where m1: "setColor m (Some p) Black = Some m1" "same m m1"
    and r1: "rep m1 (plug (FL p Black pk pv ps # FL r c k v u # gs) t)"
    using setColor_frame [OF assms(1), of Black] by auto
  then have "rep m1 (plug (FL r c k v u # gs) (Br p Black pk pv t ps))" by simp
  from setColor_frame [OF this, of Red] obtain m2 where m2: "setColor m1 (Some r) Red = Some m2" "same m1 m2"
    and r2: "rep m2 (plug (FL r Red k v u # gs) (Br p Black pk pv t ps))"
    by auto
  then have r2': "rep m2 (plug (FL p Black pk pv ps # FL r Red k v u # gs) t)" by simp
  from r2 have "rep m2 (plug gs (Br r Red k v (Br p Black pk pv t ps) u))" by simp
  from rotateRight_focus [OF this] obtain m3 where m3: "rotateRight m2 (Some r) = Some m3" "same m2 m3"
    and r3: "rep m3 (plug gs (Br p Black pk pv t (Br r Red k v ps u)))"
    by blast
  have "insertCase5 m (rootp t) = Some m3"
    using parent_focus [OF assms] m1 grandparent_focus [OF r1 assms(2)] m2 m3
      parent_focus [OF r2' assms(2)] is_left_focus [OF r2' assms(2)] frame_hole(1) [OF r2]
    by (simp add: insertCase5_def)
  with r3 m1 m2 m3 show ?thesis by (blast intro: same_trans)
qed

lemma insertCase5_RR:
  assumes "rep m (plug (FR p pc pk pv ps # FR r c k v u # gs) t)" and "t \<noteq> Leaf"
  shows "\<exists>m'. insertCase5 m (rootp t) = Some m'
    \<and> rep m' (plug gs (Br p Black pk pv (Br r Red k v u ps) t)) \<and> same m m'"
proof -
  obtain m1 where m1: "setColor m (Some p) Black = Some m1" "same m m1"
    and r1: "rep m1 (plug (FR p Black pk pv ps # FR r c k v u # gs) t)"
    using setColor_frame [OF assms(1), of Black] by auto
  then have "rep m1 (plug (FR r c k v u # gs) (Br p Black pk pv ps t))" by simp
  from setColor_frame [OF this, of Red] obtain m2 where m2: "setColor m1 (Some r) Red = Some m2" "same m1 m2"
    and r2: "rep m2 (plug (FR r Red k v u # gs) (Br p Black pk pv ps t))"
    by auto
  then have r2': "rep m2 (plug (FR p Black pk pv ps # FR r Red k v u # gs) t)" by simp
  from r2 have "rep m2 (plug gs (Br r Red k v u (Br p Black pk pv ps t)))" by simp
  from rotateLeft_focus [OF this] obtain m3 where m3: "rotateLeft m2 (Some r) = Some m3" "same m2 m3"
    and r3: "rep m3 (plug gs (Br p Black pk pv (Br r Red k v u ps) t))"
    by blast
  have "insertCase5 m (rootp t) = Some m3"
    using parent_focus [OF assms] m1 grandparent_focus [OF r1 assms(2)] m2 m3
      parent_focus [OF r2' assms(2)] is_left_focus [OF r2' assms(2)] frame_hole(3) [OF r2]
    by (simp add: insertCase5_def)
  with r3 m1 m2 m3 show ?thesis by (blast intro: same_trans)
qed

text \<open>The tree that cases 4 and 5 leave, from the four shapes of parent and grandparent.\<close>

fun rotated :: "('k, 'v) frame \<Rightarrow> ('k, 'v) frame \<Rightarrow> ('k, 'v) rtree \<Rightarrow> ('k, 'v) rtree" where
  "rotated (FL p _ pk pv ps) (FL r _ k v u) t = Br p Black pk pv t (Br r Red k v ps u)"
| "rotated (FR p _ pk pv ps) (FR r _ k v u) t = Br p Black pk pv (Br r Red k v u ps) t"
| "rotated (FR p pc pk pv ps) (FL r _ k v u) (Br n _ nk nv a b) =
     Br n Black nk nv (Br p pc pk pv ps a) (Br r Red k v b u)"
| "rotated (FL p pc pk pv ps) (FR r _ k v u) (Br n _ nk nv a b) =
     Br n Black nk nv (Br r Red k v u a) (Br p pc pk pv b ps)"
| "rotated _ _ Leaf = Leaf"

lemma insertCase4_focus:
  assumes "rep m (plug (f # g # gs) t)" and "t \<noteq> Leaf"
  shows "\<exists>m'. insertCase4 m (rootp t) = Some m'
    \<and> rep m' (plug gs (rotated f g t)) \<and> same m m'"
proof -
  obtain n c nk nv a b where t: "t = Br n c nk nv a b" using assms(2) by (cases t) auto
  have up: "rep m (plug (g # gs) (fill f t))" using assms(1) by simp
  note reads = grandparent_focus [OF assms] parent_focus [OF assms] is_left_focus [OF assms]
  consider (LL) p pc pk pv ps r rc k v u where "f = FL p pc pk pv ps" "g = FL r rc k v u"
    | (RR) p pc pk pv ps r rc k v u where "f = FR p pc pk pv ps" "g = FR r rc k v u"
    | (LR) p pc pk pv ps r rc k v u where "f = FR p pc pk pv ps" "g = FL r rc k v u"
    | (RL) p pc pk pv ps r rc k v u where "f = FL p pc pk pv ps" "g = FR r rc k v u"
    by (cases f; cases g) auto
  then show ?thesis
  proof cases
    case LL
    then have "insertCase4 m (rootp t) = insertCase5 m (rootp t)"
      using reads frame_hole(2) [of m r rc k v u gs "fill f t"] up hole_not_sibling [OF up]
      by (simp add: insertCase4_def del: plug.simps)
    with insertCase5_LL [of m] LL assms show ?thesis by simp
  next
    case RR
    then have "insertCase4 m (rootp t) = insertCase5 m (rootp t)"
      using reads frame_hole(4) [of m r rc k v u gs "fill f t"] up hole_not_sibling [OF up]
      by (simp add: insertCase4_def del: plug.simps)
    with insertCase5_RR [of m] RR assms show ?thesis by simp
  next
    case LR
    have "rep m (plug (FL r rc k v u # gs) (Br p pc pk pv ps (Br n c nk nv a b)))"
      using assms(1) LR t by simp
    from rotateLeft_focus [OF this] obtain m1 where m1: "rotateLeft m (Some p) = Some m1" "same m m1"
      and r1: "rep m1 (plug (FL r rc k v u # gs) (Br n c nk nv (Br p pc pk pv ps a) b))"
      by blast
    then have r1': "rep m1 (plug (FL n c nk nv b # FL r rc k v u # gs) (Br p pc pk pv ps a))" by simp
    have "insertCase4 m (rootp t) = insertCase5 m1 (rootp (Br p pc pk pv ps a))"
      using reads LR t m1 frame_hole(1) [of m r rc k v u gs "fill f t"] up getters_node(1) [OF r1]
      by (simp add: insertCase4_def del: plug.simps)
    with insertCase5_LL [OF r1'] LR t m1 show ?thesis by (auto intro: same_trans)
  next
    case RL
    have "rep m (plug (FR r rc k v u # gs) (Br p pc pk pv (Br n c nk nv a b) ps))"
      using assms(1) RL t by simp
    from rotateRight_focus [OF this] obtain m1 where m1: "rotateRight m (Some p) = Some m1" "same m m1"
      and r1: "rep m1 (plug (FR r rc k v u # gs) (Br n c nk nv a (Br p pc pk pv b ps)))"
      by blast
    then have r1': "rep m1 (plug (FR n c nk nv a # FR r rc k v u # gs) (Br p pc pk pv b ps))" by simp
    have "insertCase4 m (rootp t) = insertCase5 m1 (rootp (Br p pc pk pv b ps))"
      using reads RL t m1 frame_hole(3) [of m r rc k v u gs "fill f t"] up getters_node(2) [OF r1]
      by (simp add: insertCase4_def del: plug.simps)
    with insertCase5_RR [OF r1'] RL t m1 show ?thesis by (auto intro: same_trans)
  qed
qed

subsection \<open>Cases 1 to 3\<close>

lemma insertCase1_recolour:
  assumes "rep m (plug (f # g # gs) t)" and "t \<noteq> Leaf"
    and "fcolor f = Red" and "colorOf (fsib g) = Red"
  shows "\<exists>m'. insertCase InsertCase1 m (rootp t) = insertCase InsertCase1 m' (Some (faddr g))
    \<and> rep m' (plug gs (fill (set_sib g Red (paint Black (fsib g))) (paint Black (fill f t)))) \<and> same m m'"
proof -
  let ?f = "set_sib f Black (fsib f)" and ?u = "paint Black (fsib g)"
  have u: "fsib g \<noteq> Leaf" using assms(4) by auto
  obtain m1 where m1: "setColor m (Some (faddr f)) Black = Some m1" "same m m1"
    and r1: "rep m1 (plug (?f # g # gs) t)"
    using setColor_frame [OF assms(1)] by blast
  from r1 have "rep m1 (plug (g # gs) (fill ?f t))" by simp
  from setColor_sib [OF this u] obtain m2
    where m2: "setColor m1 (rootp (fsib g)) Black = Some m2" "same m1 m2"
      and r2: "rep m2 (plug (set_sib g (fcolor g) ?u # gs) (fill ?f t))"
    by blast
  then have r2': "rep m2 (plug (?f # set_sib g (fcolor g) ?u # gs) t)" by simp
  from setColor_frame [OF r2] obtain m3
    where m3: "setColor m2 (Some (faddr g)) Red = Some m3" "same m2 m3"
      and r3: "rep m3 (plug (set_sib g Red ?u # gs) (fill ?f t))"
    by auto
  then have r3': "rep m3 (plug (?f # set_sib g Red ?u # gs) t)" by simp
  have "insertCase InsertCase1 m (rootp t) = insertCase InsertCase1 m3 (Some (faddr g))"
    using parent_focus [OF assms(1,2)] has_color_frame [OF assms(1)] assms(3,4)
      uncle_focus [OF assms(1,2)] has_color_sib [of m g gs "fill f t" Red] assms(1) m1 m2
      grandparent_focus [OF r2' assms(2)] m3 grandparent_focus [OF r3' assms(2)]
    by (simp add: insertCase_simps(1) [of m "rootp t"] insertCase_simps(2,3))
  with r3 m1 m2 m3 show ?thesis by (auto intro: same_trans)
qed

lemma insertCase1_focus:
  assumes "rep m (plug fs t)" and "t \<noteq> Leaf" and "colorOf t = Red"
    and "cinvc fs Black" and "fs \<noteq> [] \<Longrightarrow> ctop fs Black = Black"
  shows "\<exists>m'. insertCase InsertCase1 m (rootp t) = Some m' \<and> rep m' (ifix fs t) \<and> same m m'"
  using assms
proof (induction fs t arbitrary: m rule: ifix.induct)
  case (1 t)
  then show ?case
    using setColor_focus [of m "[]" t Black] parent_focus [of m "[]" t]
    by (simp add: insertCase_simps(1))
next
  case (2 f t)
  then show ?case
    using parent_focus [OF "2.prems"(1,2)] has_color_frame [OF "2.prems"(1)]
    by (simp add: insertCase_simps)
next
  case (3 f g gs t)
  note reads = parent_focus [OF "3.prems"(1,2)] has_color_frame [OF "3.prems"(1)]
  show ?case
  proof (cases "fcolor f = Black")
    case True
    then show ?thesis using reads "3.prems"(1) by (simp add: insertCase_simps)
  next
    case red: False
    then have g: "fcolor g = Black" using "3.prems"(4) by simp
    show ?thesis
    proof (cases "colorOf (fsib g) = Red")
      case True
      let ?t = "fill (set_sib g Red (paint Black (fsib g))) (paint Black (fill f t))"
      obtain m1 where m1: "insertCase InsertCase1 m (rootp t) = insertCase InsertCase1 m1 (rootp ?t)"
        and r1: "rep m1 (plug gs ?t)" and s1: "same m m1"
        using insertCase1_recolour [OF "3.prems"(1,2) _ True] red by auto
      have "\<exists>m'. insertCase InsertCase1 m1 (rootp ?t) = Some m' \<and> rep m' (ifix gs ?t) \<and> same m1 m'"
        using "3.prems" red True r1 g
        by (intro "3.IH") (auto intro: cinvc_mono, cases g, auto)
      with m1 s1 red True show ?thesis by (auto intro: same_trans)
    next
      case False
      obtain n nk nv a b where t: "t = Br n Red nk nv a b"
        using "3.prems"(2,3) by (cases t) auto
      have "insertCase InsertCase1 m (rootp t) = insertCase4 m (rootp t)"
        using reads red False uncle_focus [OF "3.prems"(1,2)]
          has_color_sib [of m g gs "fill f t" Red] "3.prems"(1)
        by (simp add: insertCase_simps)
      moreover have "ifix (f # g # gs) t = plug gs (rotated f g t)"
        using red False t by (cases f; cases g) simp_all
      ultimately show ?thesis
        using insertCase4_focus [OF "3.prems"(1,2)] by simp
    qed
  qed
qed

section \<open>Removal\<close>

lemma deleteCase_simps:
  "deleteCase DeleteCase1 m node = do {
     p \<leftarrow> getParent m node;
     if p = None then Some m else deleteCase DeleteCase2 m node }"
  "deleteCase DeleteCase2 m node = do {
     s \<leftarrow> sibling m node;
     red \<leftarrow> has_color m s Red;
     m1 \<leftarrow> (if red then do {
              p \<leftarrow> getParent m node;
              a \<leftarrow> setColor m p Red;
              b \<leftarrow> setColor a s Black;
              l \<leftarrow> is_left b node;
              if l then rotateLeft b p else rotateRight b p
            }
            else Some m);
     deleteCase DeleteCase3 m1 node }"
  "deleteCase DeleteCase3 m node = do {
     s \<leftarrow> sibling m node;
     b \<leftarrow> black_sibling m node s Black;
     if b then do {
       m1 \<leftarrow> setColor m s Red;
       p \<leftarrow> getParent m1 node;
       deleteCase DeleteCase1 m1 p
     }
     else deleteCase4 m node }"
  by (subst deleteCase.simps, simp)+

text \<open>The children of the sibling.\<close>

lemma rep_flip: "rep m (plug (f # fs) t) \<longleftrightarrow> rep m (plug (flip f t # fs) (fsib f))"
  by (simp add: fill_flip)

lemma sib_children [rep_simps]:
  assumes "rep m (plug (f # fs) t)" and "fsib f = Br s c k v l r"
  shows "getLeft m (Some s) = Some (rootp l)" "getRight m (Some s) = Some (rootp r)"
    "has_color m (rootp l) d = Some (colorOf l = d)" "has_color m (rootp r) d = Some (colorOf r = d)"
proof -
  have at: "rep m (plug (flip f t # fs) (Br s c k v l r))"
    using assms(1) by (simp add: fill_flip assms(2) [symmetric])
  show "getLeft m (Some s) = Some (rootp l)" "getRight m (Some s) = Some (rootp r)"
    by (rule getters_node [OF at])+
  show "has_color m (rootp l) d = Some (colorOf l = d)" "has_color m (rootp r) d = Some (colorOf r = d)"
    using at has_color_focus [of m "FL s c k v r # flip f t # fs" l d]
      has_color_focus [of m "FR s c k v l # flip f t # fs" r d] by simp_all
qed

lemma black_sibling_focus [rep_simps]:
  assumes "rep m (plug (f # fs) t)" and "t \<noteq> Leaf" and "fsib f \<noteq> Leaf"
  shows "black_sibling m (rootp t) (rootp (fsib f)) c =
    Some (fcolor f = c \<and> colorOf (fsib f) = Black \<and> black_nephews (fsib f))"
proof -
  obtain s d k v l r where s: "fsib f = Br s d k v l r" using assms(3) by (cases "fsib f") auto
  show ?thesis
    using parent_focus [OF assms(1,2)] has_color_frame [OF assms(1)] has_color_sib [OF assms(1)]
      sib_children [OF assms(1) s] s
    by (simp add: black_sibling_def)
qed

lemma nodeColor_frame:
  "rep m (plug (f # fs) t) \<Longrightarrow> nodeColor m (Some (faddr f)) = Some (fcolor f)"
  using nodeColor_focus [of m fs "fill f t"] by simp

text \<open>Painting a child of the sibling.\<close>

lemma setColor_sib_children:
  assumes "rep m (plug (f # fs) t)" and "fsib f = Br s c k v l r"
  shows "l \<noteq> Leaf \<Longrightarrow> \<exists>m'. setColor m (rootp l) d = Some m' \<and> same m m'
      \<and> rep m' (plug (set_sib f (fcolor f) (Br s c k v (paint d l) r) # fs) t)"
    and "r \<noteq> Leaf \<Longrightarrow> \<exists>m'. setColor m (rootp r) d = Some m' \<and> same m m'
      \<and> rep m' (plug (set_sib f (fcolor f) (Br s c k v l (paint d r)) # fs) t)"
proof -
  have at: "rep m (plug (flip f t # fs) (Br s c k v l r))"
    using assms(1) by (simp add: fill_flip assms(2) [symmetric])
  { assume "l \<noteq> Leaf"
    with at show "\<exists>m'. setColor m (rootp l) d = Some m' \<and> same m m'
      \<and> rep m' (plug (set_sib f (fcolor f) (Br s c k v (paint d l) r) # fs) t)"
      using setColor_focus [of m "FL s c k v r # flip f t # fs" l d] by (simp add: fill_flip) blast }
  { assume "r \<noteq> Leaf"
    with at show "\<exists>m'. setColor m (rootp r) d = Some m' \<and> same m m'
      \<and> rep m' (plug (set_sib f (fcolor f) (Br s c k v l (paint d r)) # fs) t)"
      using setColor_focus [of m "FR s c k v l # flip f t # fs" r d] by (simp add: fill_flip) blast }
qed

subsection \<open>Cases 6, 5 and 4\<close>

text \<open>The common start of case 6: the sibling takes the parent's colour, the parent is black.\<close>

lemma deleteCase6_colours:
  assumes "rep m (plug (f # fs) t)" and "t \<noteq> Leaf" and "fsib f = Br s c k v l r"
  shows "\<exists>m1 m2. setColor m (Some s) (fcolor f) = Some m1 \<and> setColor m1 (Some (faddr f)) Black = Some m2
    \<and> same m m2 \<and> rep m2 (plug (set_sib f Black (Br s (fcolor f) k v l r) # fs) t)"
proof -
  obtain m1 where m1: "setColor m (Some s) (fcolor f) = Some m1" "same m m1"
    and r1: "rep m1 (plug (set_sib f (fcolor f) (Br s (fcolor f) k v l r) # fs) t)"
    using setColor_sib [OF assms(1), of "fcolor f"] assms(3) by auto
  from setColor_frame [OF r1, of Black] m1 show ?thesis by (auto intro: same_trans)
qed

lemma deleteCase6_focus:
  assumes "rep m (plug (f # fs) t)" and "t \<noteq> Leaf" and "fsib f = Br s c k v l r"
    and "case f of FL _ _ _ _ _ \<Rightarrow> colorOf r = Red | FR _ _ _ _ _ \<Rightarrow> colorOf l = Red"
  shows "\<exists>m'. deleteCase6 m (rootp t) = Some m' \<and> rep m' (plug (dfix6 (f # fs)) t) \<and> same m m'"
proof -
  obtain m1 m2 where m1: "setColor m (Some s) (fcolor f) = Some m1"
    and m2: "setColor m1 (Some (faddr f)) Black = Some m2" "same m m2"
    and r2: "rep m2 (plug (set_sib f Black (Br s (fcolor f) k v l r) # fs) t)" (is "rep m2 (plug (?f # fs) t)")
    using deleteCase6_colours [OF assms(1-3)] by blast
  have sib: "fsib ?f = Br s (fcolor f) k v l r" by simp
  note reads = sibling_focus [OF assms(1,2)] parent_focus [OF assms(1,2)] nodeColor_frame [OF assms(1)]
    is_left_focus [OF r2 assms(2)] sib_children [OF r2 sib]
  show ?thesis
  proof (cases f)
    case f: (FL p pc pk pv x)
    then have "r \<noteq> Leaf" using assms(4) by auto
    with setColor_sib_children(2) [OF r2 sib, of Black] obtain m3
      where m3: "setColor m2 (rootp r) Black = Some m3" "same m2 m3"
        and r3: "rep m3 (plug fs (Br p Black pk pv t (Br s pc k v l (paint Black r))))"
      using f by auto
    from rotateLeft_focus [OF r3] obtain m4 where m4: "rotateLeft m3 (Some p) = Some m4" "same m3 m4"
      and r4: "rep m4 (plug fs (Br s pc k v (Br p Black pk pv t l) (paint Black r)))"
      by blast
    have "deleteCase6 m (rootp t) = Some m4"
      using reads f assms(3,4) m1 m2 m3 m4 by (simp add: deleteCase6_def)
    with r4 m2 m3 m4 f assms(3) show ?thesis by (auto intro: same_trans)
  next
    case f: (FR p pc pk pv x)
    then have "l \<noteq> Leaf" using assms(4) by auto
    with setColor_sib_children(1) [OF r2 sib, of Black] obtain m3
      where m3: "setColor m2 (rootp l) Black = Some m3" "same m2 m3"
        and r3: "rep m3 (plug fs (Br p Black pk pv (Br s pc k v (paint Black l) r) t))"
      using f by auto
    from rotateRight_focus [OF r3] obtain m4 where m4: "rotateRight m3 (Some p) = Some m4" "same m3 m4"
      and r4: "rep m4 (plug fs (Br s pc k v (paint Black l) (Br p Black pk pv r t)))"
      by blast
    have "deleteCase6 m (rootp t) = Some m4"
      using reads f assms(3,4) m1 m2 m3 m4 by (simp add: deleteCase6_def)
    with r4 m2 m3 m4 f assms(3) show ?thesis by (auto intro: same_trans)
  qed
qed

lemma deleteCase5_focus:
  assumes "rep m (plug (f # fs) t)" and "t \<noteq> Leaf" and "fsib f = Br s Black k v l r"
    and "\<not> black_nephews (fsib f)"
  shows "\<exists>m'. deleteCase5 m (rootp t) = Some m' \<and> rep m' (plug (dfix5 (f # fs)) t) \<and> same m m'"
proof -
  note reads = sibling_focus [OF assms(1,2)] is_left_focus [OF assms(1,2)]
    has_color_sib [OF assms(1)] sib_children [OF assms(1,3)]
  note paint_s = setColor_sib [OF assms(1), of Red]
  show ?thesis
  proof (cases f)
    case f: (FL p pc pk pv x)
    show ?thesis
    proof (cases "colorOf r = Black")
      case True
      with assms(3,4) obtain lr lk lv la lb where l: "l = Br lr Red lk lv la lb"
        by (cases l) auto
      from paint_s assms(3) f obtain a where a: "setColor m (Some s) Red = Some a" "same m a"
        and ra: "rep a (plug (FL p pc pk pv (Br s Red k v l r) # fs) t)"
        by auto
      from setColor_sib_children(1) [OF ra, of s Red k v l r Black] l obtain b
        where b: "setColor a (Some lr) Black = Some b" "same a b"
          and rb: "rep b (plug (FL p pc pk pv (Br s Red k v (Br lr Black lk lv la lb) r) # fs) t)"
        by auto
      have gl: "getLeft a (Some s) = Some (Some lr)"
        using sib_children(1) [OF ra, of s Red k v l r] l by simp
      from rb have "rep b (plug (FR p pc pk pv t # fs) (Br s Red k v (Br lr Black lk lv la lb) r))"
        by simp
      from rotateRight_focus [OF this] obtain m1 where m1: "rotateRight b (Some s) = Some m1" "same b m1"
        and r1: "rep m1 (plug (FL p pc pk pv (Br lr Black lk lv la (Br s Red k v lb r)) # fs) t)"
        by auto
      have "deleteCase5 m (rootp t) = deleteCase6 m1 (rootp t)"
        using reads f assms(3) l True a gl b m1 by (simp add: deleteCase5_def)
      moreover have "\<exists>m'. deleteCase6 m1 (rootp t) = Some m' \<and> same m1 m' \<and>
          rep m' (plug (dfix6 (FL p pc pk pv (Br lr Black lk lv la (Br s Red k v lb r)) # fs)) t)"
        using deleteCase6_focus [OF r1 assms(2)] by auto
      ultimately show ?thesis
        using f assms(3) l True a b m1 by (auto intro: same_trans)
    next
      case False
      then have "deleteCase5 m (rootp t) = deleteCase6 m (rootp t)"
        using reads f assms(3) by (simp add: deleteCase5_def)
      moreover have "dfix5 (f # fs) = dfix6 (f # fs)"
        using False f assms(3) by (cases l; cases "colorOf l") auto
      ultimately show ?thesis
        using deleteCase6_focus [OF assms(1-3)] False f by simp
    qed
  next
    case f: (FR p pc pk pv x)
    show ?thesis
    proof (cases "colorOf l = Black")
      case True
      with assms(3,4) obtain rr rk rv ra rb where r: "r = Br rr Red rk rv ra rb"
        by (cases r) auto
      from paint_s assms(3) f obtain a where a: "setColor m (Some s) Red = Some a" "same m a"
        and ra: "rep a (plug (FR p pc pk pv (Br s Red k v l r) # fs) t)"
        by auto
      from setColor_sib_children(2) [OF ra, of s Red k v l r Black] r obtain b
        where b: "setColor a (Some rr) Black = Some b" "same a b"
          and rb: "rep b (plug (FR p pc pk pv (Br s Red k v l (Br rr Black rk rv ra rb)) # fs) t)"
        by auto
      have gr: "getRight a (Some s) = Some (Some rr)"
        using sib_children(2) [OF ra, of s Red k v l r] r by simp
      from rb have "rep b (plug (FL p pc pk pv t # fs) (Br s Red k v l (Br rr Black rk rv ra rb)))"
        by simp
      from rotateLeft_focus [OF this] obtain m1 where m1: "rotateLeft b (Some s) = Some m1" "same b m1"
        and r1: "rep m1 (plug (FR p pc pk pv (Br rr Black rk rv (Br s Red k v l ra) rb) # fs) t)"
        by auto
      have "deleteCase5 m (rootp t) = deleteCase6 m1 (rootp t)"
        using reads f assms(3) r True a gr b m1 by (simp add: deleteCase5_def)
      moreover have "\<exists>m'. deleteCase6 m1 (rootp t) = Some m' \<and> same m1 m' \<and>
          rep m' (plug (dfix6 (FR p pc pk pv (Br rr Black rk rv (Br s Red k v l ra) rb) # fs)) t)"
        using deleteCase6_focus [OF r1 assms(2)] by auto
      ultimately show ?thesis
        using f assms(3) r True a b m1 by (auto intro: same_trans)
    next
      case False
      then have "deleteCase5 m (rootp t) = deleteCase6 m (rootp t)"
        using reads f assms(3) by (simp add: deleteCase5_def)
      moreover have "dfix5 (f # fs) = dfix6 (f # fs)"
        using False f assms(3) by (cases r; cases "colorOf r") auto
      ultimately show ?thesis
        using deleteCase6_focus [OF assms(1-3)] False f by simp
    qed
  qed
qed

lemma deleteCase4_focus:
  assumes "rep m (plug (f # fs) t)" and "t \<noteq> Leaf" and "fsib f = Br s Black k v l r"
    and "fcolor f = Red \<or> \<not> black_nephews (fsib f)"
  shows "\<exists>m'. deleteCase4 m (rootp t) = Some m' \<and> rep m' (plug (dfix4 f fs) t) \<and> same m m'"
proof -
  have s: "fsib f \<noteq> Leaf" using assms(3) by simp
  note reads = sibling_focus [OF assms(1,2)] black_sibling_focus [OF assms(1,2) s]
  show ?thesis
  proof (cases "black_nephews (fsib f)")
    case True
    then have red: "fcolor f = Red" using assms(4) by simp
    obtain m1 where m1: "setColor m (Some s) Red = Some m1" "same m m1"
      and r1: "rep m1 (plug (set_sib f Red (paint Red (fsib f)) # fs) t)"
      using setColor_sib [OF assms(1) s, of Red] assms(3) red by auto
    from setColor_frame [OF r1, of Black] obtain m2
      where m2: "setColor m1 (Some (faddr f)) Black = Some m2" "same m1 m2"
        and r2: "rep m2 (plug (set_sib f Black (paint Red (fsib f)) # fs) t)"
      by auto
    have "deleteCase4 m (rootp t) = Some m2"
      using reads True red assms(3) m1 m2 parent_focus [OF r1 assms(2)] by (simp add: deleteCase4_def)
    with r2 m1 m2 True red show ?thesis by (auto simp: dfix4_def intro: same_trans)
  next
    case False
    then have "deleteCase4 m (rootp t) = deleteCase5 m (rootp t)"
      using reads by (simp add: deleteCase4_def)
    with False deleteCase5_focus [OF assms(1-3)] show ?thesis by (simp add: dfix4_def)
  qed
qed

subsection \<open>Cases 1 to 3\<close>

text \<open>Case 2 with a red sibling: one rotation, then case 3 finds a red parent and goes on to case 4.\<close>

lemma deleteCase2_red:
  assumes "rep m (plug (f # fs) t)" and "t \<noteq> Leaf" and "fsib f = Br s Red k v l r"
  shows "\<exists>m' g h. deleteCase DeleteCase2 m (rootp t) = deleteCase DeleteCase3 m' (rootp t)
    \<and> rep m' (plug (g # h # fs) t) \<and> same m m' \<and> fcolor g = Red
    \<and> fsib g = (case f of FL _ _ _ _ _ \<Rightarrow> l | FR _ _ _ _ _ \<Rightarrow> r)
    \<and> dfix (f # fs) = dfix4 g (h # fs)"
proof -
  note reads = sibling_focus [OF assms(1,2)] has_color_sib [OF assms(1)] parent_focus [OF assms(1,2)]
  obtain a where a: "setColor m (Some (faddr f)) Red = Some a" "same m a"
    and ra: "rep a (plug (set_sib f Red (fsib f) # fs) t)"
    using setColor_frame [OF assms(1)] by blast
  from setColor_sib [OF ra, of Black] assms(3) obtain b
    where b: "setColor a (Some s) Black = Some b" "same a b"
      and rb: "rep b (plug (set_sib f Red (Br s Black k v l r) # fs) t)"
    by auto
  note left = is_left_focus(1) [OF rb assms(2)]
  show ?thesis
  proof (cases f)
    case f: (FL p pc pk pv x)
    with rb have "rep b (plug fs (Br p Red pk pv t (Br s Black k v l r)))" by simp
    from rotateLeft_focus [OF this] obtain m1 where m1: "rotateLeft b (Some p) = Some m1" "same b m1"
      and r1: "rep m1 (plug (FL p Red pk pv l # FL s Black k v r # fs) t)"
      by auto
    have "deleteCase DeleteCase2 m (rootp t) = deleteCase DeleteCase3 m1 (rootp t)"
      using reads assms(3) a b left m1 f by (simp add: deleteCase_simps(2))
    then show ?thesis
      using r1 a b m1 f assms(3)
      by (intro exI [of _ m1] exI [of _ "FL p Red pk pv l"] exI [of _ "FL s Black k v r"])
        (auto intro: same_trans)
  next
    case f: (FR p pc pk pv x)
    with rb have "rep b (plug fs (Br p Red pk pv (Br s Black k v l r) t))" by simp
    from rotateRight_focus [OF this] obtain m1 where m1: "rotateRight b (Some p) = Some m1" "same b m1"
      and r1: "rep m1 (plug (FR p Red pk pv r # FR s Black k v l # fs) t)"
      by auto
    have "deleteCase DeleteCase2 m (rootp t) = deleteCase DeleteCase3 m1 (rootp t)"
      using reads assms(3) a b left m1 f by (simp add: deleteCase_simps(2))
    then show ?thesis
      using r1 a b m1 f assms(3)
      by (intro exI [of _ m1] exI [of _ "FR p Red pk pv r"] exI [of _ "FR s Black k v l"])
        (auto intro: same_trans)
  qed
qed

lemma deleteCase3_not_black:
  assumes "rep m (plug (f # fs) t)" and "t \<noteq> Leaf" and "fsib f = Br s Black k v l r"
    and "fcolor f = Red \<or> \<not> black_nephews (fsib f)"
  shows "deleteCase DeleteCase3 m (rootp t) = deleteCase4 m (rootp t)"
proof -
  have "fsib f \<noteq> Leaf" using assms(3) by simp
  from sibling_focus [OF assms(1,2)] black_sibling_focus [OF assms(1,2) this] assms(4)
  show ?thesis by (auto simp: deleteCase_simps(3))
qed

lemma deleteCase1_focus:
  assumes "rep m (plug fs t)" and "t \<noteq> Leaf" and "cinvh fs (Suc n)" and "cinvc fs Black"
  shows "\<exists>m'. deleteCase DeleteCase1 m (rootp t) = Some m' \<and> rep m' (plug (dfix fs) t) \<and> same m m'"
  using assms
proof (induction fs arbitrary: m t n)
  case Nil
  then show ?case
    using parent_focus [of m "[]" t] by (simp add: deleteCase_simps(1))
next
  case (Cons f fs)
  obtain s c k v l r where s: "fsib f = Br s c k v l r"
    using Cons.prems(3) by (cases "fsib f") auto
  note reads = parent_focus [OF Cons.prems(1,2)] sibling_focus [OF Cons.prems(1,2)]
    has_color_sib [OF Cons.prems(1)]
  have case2: "deleteCase DeleteCase1 m (rootp t) = deleteCase DeleteCase2 m (rootp t)"
    using reads by (simp add: deleteCase_simps(1))
  show ?case
  proof (cases c)
    case Red
    then obtain m1 g h where m1: "deleteCase DeleteCase2 m (rootp t) = deleteCase DeleteCase3 m1 (rootp t)"
      and r1: "rep m1 (plug (g # h # fs) t)" and s1: "same m m1" and g: "fcolor g = Red"
      and sib: "fsib g = (case f of FL _ _ _ _ _ \<Rightarrow> l | FR _ _ _ _ _ \<Rightarrow> r)"
      and dfix: "dfix (f # fs) = dfix4 g (h # fs)"
      using deleteCase2_red [OF Cons.prems(1,2)] s by blast
    have "bheight (fsib g) = Suc n \<and> colorOf (fsib g) = Black"
      using Cons.prems(3,4) s Red sib by (cases f) auto
    then obtain gs gk gv gl gr where gsib: "fsib g = Br gs Black gk gv gl gr"
      by (cases "fsib g") auto
    show ?thesis
      using case2 m1 deleteCase3_not_black [OF r1 Cons.prems(2) gsib] g
        deleteCase4_focus [OF r1 Cons.prems(2) gsib] dfix s1
      by (auto intro: same_trans)
  next
    case Black
    then have case3: "deleteCase DeleteCase2 m (rootp t) = deleteCase DeleteCase3 m (rootp t)"
      using reads s by (simp add: deleteCase_simps(2))
    show ?thesis
    proof (cases "fcolor f = Black \<and> black_nephews (fsib f)")
      case True
      have sib: "fsib f \<noteq> Leaf" using s by simp
      obtain m1 where m1: "setColor m (Some s) Red = Some m1" "same m m1"
        and r1: "rep m1 (plug (set_sib f Black (paint Red (fsib f)) # fs) t)" (is "rep m1 (plug (?f # fs) t)")
        using setColor_sib [OF Cons.prems(1) sib, of Red] s True by auto
      have step: "deleteCase DeleteCase3 m (rootp t) = deleteCase DeleteCase1 m1 (rootp (fill ?f t))"
        using reads black_sibling_focus [OF Cons.prems(1,2) sib] True s Black m1
          parent_focus [OF r1 Cons.prems(2)]
        by (simp add: deleteCase_simps(3))
      have "rep m1 (plug fs (fill ?f t))" using r1 by simp
      moreover have "fill ?f t \<noteq> Leaf" by (cases f) auto
      moreover have "cinvh fs (Suc (Suc n))" "cinvc fs Black"
        using Cons.prems(3,4) True by (auto intro: cinvc_mono)
      ultimately obtain m2 where m2: "deleteCase DeleteCase1 m1 (rootp (fill ?f t)) = Some m2"
        and r2: "rep m2 (plug (dfix fs) (fill ?f t))" and s2: "same m1 m2"
        using Cons.IH [of m1 "fill ?f t" "Suc n"] by blast
      have "dfix (f # fs) = ?f # dfix fs" using True s Black by (cases f) auto
      then show ?thesis
        using case2 case3 step m2 r2 m1 s2 by (auto intro: same_trans)
    next
      case False
      then have "dfix (f # fs) = dfix4 f fs" using s Black by (cases f) auto
      with False case2 case3 s Black show ?thesis
        using deleteCase3_not_black [OF Cons.prems(1,2)] deleteCase4_focus [OF Cons.prems(1,2)] by auto
    qed
  qed
qed

end
