(* ===== verification/MapsCorrect.thy ===== *)
theory MapsCorrect
  imports MapsFix
begin

text \<open>
  Functional correctness of the ordered map of \<open>maps.go\<close>: under a comparator that is a total
  order on the keys in use, every method answers (no panic, no endless loop), keeps the red-black
  invariant, and acts on the sorted list of entries as its name says.
\<close>

text \<open>Contexts compose.\<close>

lemma caddrs_append: "caddrs (fs @ gs) = caddrs fs @ caddrs gs"
  by (induction fs) auto

lemma before_append: "before (fs @ gs) = before gs @ before fs"
  by (induction fs rule: before.induct) auto

lemma after_append: "after (fs @ gs) = after fs @ after gs"
  by (induction fs rule: after.induct) auto

section \<open>Well-formed maps\<close>

text \<open>
  \<open>is_map K rank m xs\<close>: the store of \<open>m\<close> holds a red-black search tree with the entries \<open>xs\<close>, in
  ascending order, with keys from \<open>K\<close>; the size field counts them.
\<close>

definition is_map :: "'k set \<Rightarrow> ('k \<Rightarrow> 'o::linorder) \<Rightarrow> ('k, 'v) Map \<Rightarrow> ('k \<times> 'v) list \<Rightarrow> bool" where
  "is_map K rank m xs = (comparator_order (Comparator m) K rank
     \<and> (\<exists>t. rep m t \<and> rbt t \<and> inorder t = xs)
     \<and> ranked rank xs \<and> fst ` set xs \<subseteq> K \<and> msize m = int (length xs))"

text \<open>The search has narrowed down to the hole of \<open>fs\<close>.\<close>

definition apart :: "('k \<Rightarrow> 'o::linorder) \<Rightarrow> 'k \<Rightarrow> ('k, 'v) ctx \<Rightarrow> bool" where
  "apart rank k fs = ((\<forall>p \<in> set (before fs). rank (fst p) < rank k)
     \<and> (\<forall>p \<in> set (after fs). rank k < rank (fst p)))"

lemma apart_Nil [simp]: "apart rank k []"
  by (simp add: apart_def)

lemma apart_left:
  "apart rank k fs \<Longrightarrow> rank k < rank k' \<Longrightarrow> ranked rank (inorder (Br n c k' v a b)) \<Longrightarrow>
    apart rank k (FL n c k' v b # fs)"
  by (auto simp: apart_def dest: order.strict_trans)

lemma apart_right:
  "apart rank k fs \<Longrightarrow> rank k' < rank k \<Longrightarrow> ranked rank (inorder (Br n c k' v a b)) \<Longrightarrow>
    apart rank k (FR n c k' v a # fs)"
  by (auto simp: apart_def dest: order.strict_trans)

section \<open>The search loops\<close>

text \<open>The children of the node at the focus, as foci of their own.\<close>

lemma focus_children:
  assumes "rep m (plug fs (Br n c k v a b))"
  shows "rep m (plug (FL n c k v b # fs) a)" "rep m (plug (FR n c k v a # fs) b)"
  using assms by simp_all

text \<open>The next reference of the allocator is not in use.\<close>

lemma rep_fresh:
  assumes "rep m (plug fs t)"
  shows "fresh m \<notin> set (addrs t)" "fresh m \<notin> set (caddrs fs)"
  using assms by (auto simp: rep_plug)

context comparator_order begin

text \<open>
  \<open>lookup\<close> stops at a node with the key's rank, or answers nil, and then there is none.
\<close>

lemma lookup_loop_focus:
  assumes "Comparator m = cmp" and "key \<in> K"
    and "rep m (plug fs t)" and "ranked rank (inorder t)" and "fst ` set (inorder t) \<subseteq> K"
    and "apart rank key fs"
  shows "(\<exists>gs n c k v a b. lookup_loop m key (rootp t) = Some (Some n)
        \<and> plug fs t = plug gs (Br n c k v a b) \<and> rank k = rank key \<and> apart rank key gs)
    \<or> lookup_loop m key (rootp t) = Some None \<and> (\<forall>p \<in> set (inorder t). rank (fst p) \<noteq> rank key)"
  using assms
proof (induction t arbitrary: fs)
  case Leaf
  then show ?case by (simp add: lookup_loop.simps)
next
  case (Br n c k v a b)
  have k: "k \<in> K" using Br.prems(5) by simp
  have step: "lookup_loop m key (Some n) = do {
      compare \<leftarrow> cmp key k;
      if compare = 0 then Some (Some n)
      else if compare < 0 then lookup_loop m key (rootp a) else lookup_loop m key (rootp b) }"
    using deref_node [OF Br.prems(3)] Br.prems(1) by (subst lookup_loop.simps) (simp cong del: bind_weak_cong if_weak_cong)
  from \<open>key \<in> K\<close> k show ?case
  proof (cases rule: cmp_cases)
    case (EQ d)
    then show ?thesis using step Br.prems(6) by (intro disjI1) (auto intro!: exI)
  next
    case (LT d)
    have "apart rank key (FL n c k v b # fs)"
      by (rule apart_left [OF Br.prems(6) LT(3) Br.prems(4)])
    moreover have "\<forall>p \<in> set (inorder b). rank (fst p) \<noteq> rank key"
      using Br.prems(4) LT by force
    ultimately show ?thesis
      using Br.IH(1) [of "FL n c k v b # fs"] Br.prems LT step by auto
  next
    case (GT d)
    have "apart rank key (FR n c k v a # fs)"
      by (rule apart_right [OF Br.prems(6) GT(3) Br.prems(4)])
    moreover have "\<forall>p \<in> set (inorder a). rank (fst p) \<noteq> rank key"
      using Br.prems(4) GT by force
    ultimately show ?thesis
      using Br.IH(2) [of "FR n c k v a # fs"] Br.prems GT step by auto
  qed
qed

text \<open>
  The loop of \<open>Put\<close> overwrites the entry of the key's rank, or attaches the new node, whose
  parent pointer \<open>Put\<close> sets next.
\<close>

lemma put_loop_focus:
  assumes "Comparator m = cmp" and "key \<in> K"
    and "rep m (plug fs t)" and "t \<noteq> Leaf"
    and "ranked rank (inorder t)" and "fst ` set (inorder t) \<subseteq> K"
    and "apart rank key fs"
  shows "(\<exists>m' gs n c k v a b. put_loop m key val (rootp t) = Some (m', None)
        \<and> plug fs t = plug gs (Br n c k v a b) \<and> rank k = rank key \<and> apart rank key gs
        \<and> rep m' (plug gs (Br n c key val a b)) \<and> same m m')
    \<or> (\<exists>m' m'' r f gs. put_loop m key val (rootp t) = Some (m', Some (r, Some (faddr f)))
        \<and> plug fs t = plug (f # gs) Leaf \<and> apart rank key (f # gs)
        \<and> setParent m' r (Some (faddr f)) = Some m'' \<and> r = Some (fresh m)
        \<and> rep m'' (plug (f # gs) (Br (fresh m) Red key val Leaf Leaf))
        \<and> msize m'' = msize m \<and> Comparator m'' = Comparator m)"
  using assms
proof (induction t arbitrary: fs)
  case Leaf
  then show ?case by simp
next
  case (Br n c k v a b)
  have k: "k \<in> K" using Br.prems(6) by simp
  let ?attach = "\<lambda>set. do {
      let (m1, r) = new_node m key val;
      m2 \<leftarrow> set m1 (Some n) r;
      Some (m2, Some (r, Some n)) }"
  have step: "put_loop m key val (Some n) = do {
      compare \<leftarrow> cmp key k;
      if compare = 0 then do {
        m1 \<leftarrow> update_node m (Some n) (Key_update (\<lambda>_. key));
        m2 \<leftarrow> update_node m1 (Some n) (Value_update (\<lambda>_. val));
        Some (m2, None) }
      else if compare < 0 then
        (if a = Leaf then ?attach setLeft else put_loop m key val (rootp a))
      else (if b = Leaf then ?attach setRight else put_loop m key val (rootp b)) }"
    using deref_node [OF Br.prems(3)] Br.prems(1) by (subst put_loop.simps) (simp cong del: bind_weak_cong if_weak_cong)
  from \<open>key \<in> K\<close> k show ?case
  proof (cases rule: cmp_cases)
    case (EQ d)
    have "\<exists>m'. put_loop m key val (Some n) = Some (m', None)
        \<and> rep m' (plug fs (Br n c key val a b)) \<and> same m m'"
      using Br.prems(3) EQ unfolding step by (auto simp: rep_plug heap_simps same_def)
    then show ?thesis
      using EQ Br.prems(7) by (intro disjI1) fastforce
  next
    case (LT d)
    note narrow = apart_left [OF Br.prems(7) LT(3) Br.prems(5)]
    show ?thesis
    proof (cases "a = Leaf")
      case True
      let ?f = "FL n c k v b"
      have "\<exists>m' m''. put_loop m key val (Some n) = Some (m', Some (Some (fresh m), Some n))
          \<and> setParent m' (Some (fresh m)) (Some n) = Some m''
          \<and> rep m'' (plug (?f # fs) (Br (fresh m) Red key val Leaf Leaf))
          \<and> msize m'' = msize m \<and> Comparator m'' = Comparator m"
        using Br.prems(3) rep_fresh [OF Br.prems(3)] True LT unfolding step
        by (auto simp: rep_plug heap_simps new_node_def less_SucI simp del: plug.simps)
      then show ?thesis
        using True narrow by (intro disjI2) (fastforce intro: exI [of _ ?f])
    next
      case False
      then show ?thesis
        using Br.IH(1) [of "FL n c k v b # fs"] Br.prems LT step narrow by (simp add: image_Un)
    qed
  next
    case (GT d)
    note narrow = apart_right [OF Br.prems(7) GT(3) Br.prems(5)]
    show ?thesis
    proof (cases "b = Leaf")
      case True
      let ?f = "FR n c k v a"
      have "\<exists>m' m''. put_loop m key val (Some n) = Some (m', Some (Some (fresh m), Some n))
          \<and> setParent m' (Some (fresh m)) (Some n) = Some m''
          \<and> rep m'' (plug (?f # fs) (Br (fresh m) Red key val Leaf Leaf))
          \<and> msize m'' = msize m \<and> Comparator m'' = Comparator m"
        using Br.prems(3) rep_fresh [OF Br.prems(3)] True GT unfolding step
        by (auto simp: rep_plug heap_simps new_node_def less_SucI simp del: plug.simps)
      then show ?thesis
        using True narrow by (intro disjI2) (fastforce intro: exI [of _ ?f])
    next
      case False
      then show ?thesis
        using Br.IH(2) [of "FR n c k v a # fs"] Br.prems GT step narrow by (simp add: image_Un)
    qed
  qed
qed

text \<open>
  \<open>Ceiling\<close> keeps the last node it turned left at: it answers the first entry, in order, whose
  rank is not below the key's, or \<open>acc\<close> when every entry below the focus is.
\<close>

lemma ceiling_loop_focus:
  assumes "Comparator m = cmp" and "key \<in> K"
    and "rep m (plug fs t)" and "ranked rank (inorder t)" and "fst ` set (inorder t) \<subseteq> K"
    and "apart rank key fs"
  shows "(\<exists>gs n c k v a b. ceiling_loop m key (rootp t) acc = Some (Some n)
        \<and> plug fs t = plug gs (Br n c k v a b) \<and> rank key \<le> rank k
        \<and> (\<forall>p \<in> set (before gs @ inorder a). rank (fst p) < rank key))
    \<or> ceiling_loop m key (rootp t) acc = Some acc \<and> (\<forall>p \<in> set (inorder t). rank (fst p) < rank key)"
  using assms
proof (induction t arbitrary: fs acc)
  case Leaf
  then show ?case by (simp add: ceiling_loop.simps)
next
  case (Br n c k v a b)
  have k: "k \<in> K" using Br.prems(5) by simp
  have step: "ceiling_loop m key (Some n) acc = do {
      compare \<leftarrow> cmp key k;
      if compare = 0 then Some (Some n)
      else if compare < 0 then ceiling_loop m key (rootp a) (Some n)
      else ceiling_loop m key (rootp b) acc }"
    using deref_node [OF Br.prems(3)] Br.prems(1)
    by (subst ceiling_loop.simps) (simp cong del: bind_weak_cong if_weak_cong)
  from \<open>key \<in> K\<close> k show ?case
  proof (cases rule: cmp_cases)
    case (EQ d)
    then have "\<forall>p \<in> set (before fs @ inorder a). rank (fst p) < rank key"
      using Br.prems(4,6) by (auto simp: apart_def)
    then show ?thesis using step EQ by (intro disjI1) (auto intro!: exI)
  next
    case (LT d)
    note narrow = apart_left [OF Br.prems(6) LT(3) Br.prems(4)]
    have below: "ranked rank (inorder a)" "fst ` set (inorder a) \<subseteq> K"
      using Br.prems(4,5) by auto
    note IH = Br.IH(1) [OF Br.prems(1,2) focus_children(1) [OF Br.prems(3)] below narrow, of "Some n"]
    consider (here)
      "ceiling_loop m key (rootp a) (Some n) = Some (Some n) \<and> (\<forall>p \<in> set (inorder a). rank (fst p) < rank key)"
      | (deep) "\<exists>gs n' c' k' v' a' b'. ceiling_loop m key (rootp a) (Some n) = Some (Some n')
        \<and> plug (FL n c k v b # fs) a = plug gs (Br n' c' k' v' a' b') \<and> rank key \<le> rank k'
        \<and> (\<forall>p \<in> set (before gs @ inorder a'). rank (fst p) < rank key)"
      using IH by blast
    then show ?thesis
    proof cases
      case here
      then have "\<forall>p \<in> set (before fs @ inorder a). rank (fst p) < rank key"
        using Br.prems(6) by (auto simp: apart_def)
      with here LT step show ?thesis by (intro disjI1) (auto intro!: exI)
    next
      case deep
      with LT step show ?thesis by (intro disjI1) auto
    qed
  next
    case (GT d)
    note narrow = apart_right [OF Br.prems(6) GT(3) Br.prems(4)]
    have "\<forall>p \<in> set (inorder a). rank (fst p) < rank key"
      using Br.prems(4) GT by force
    then show ?thesis
      using Br.IH(2) [of "FR n c k v a # fs" acc] Br.prems GT step narrow by (auto simp: image_Un)
  qed
qed

lemma floor_loop_focus:
  assumes "Comparator m = cmp" and "key \<in> K"
    and "rep m (plug fs t)" and "ranked rank (inorder t)" and "fst ` set (inorder t) \<subseteq> K"
    and "apart rank key fs"
  shows "(\<exists>gs n c k v a b. floor_loop m key (rootp t) acc = Some (Some n)
        \<and> plug fs t = plug gs (Br n c k v a b) \<and> rank k \<le> rank key
        \<and> (\<forall>p \<in> set (inorder b @ after gs). rank key < rank (fst p)))
    \<or> floor_loop m key (rootp t) acc = Some acc \<and> (\<forall>p \<in> set (inorder t). rank key < rank (fst p))"
  using assms
proof (induction t arbitrary: fs acc)
  case Leaf
  then show ?case by (simp add: floor_loop.simps)
next
  case (Br n c k v a b)
  have k: "k \<in> K" using Br.prems(5) by simp
  have step: "floor_loop m key (Some n) acc = do {
      compare \<leftarrow> cmp key k;
      if compare = 0 then Some (Some n)
      else if compare < 0 then floor_loop m key (rootp a) acc
      else floor_loop m key (rootp b) (Some n) }"
    using deref_node [OF Br.prems(3)] Br.prems(1)
    by (subst floor_loop.simps) (simp cong del: bind_weak_cong if_weak_cong)
  from \<open>key \<in> K\<close> k show ?case
  proof (cases rule: cmp_cases)
    case (EQ d)
    then have "\<forall>p \<in> set (inorder b @ after fs). rank key < rank (fst p)"
      using Br.prems(4,6) by (auto simp: apart_def)
    then show ?thesis using step EQ by (intro disjI1) (auto intro!: exI)
  next
    case (LT d)
    note narrow = apart_left [OF Br.prems(6) LT(3) Br.prems(4)]
    have "\<forall>p \<in> set (inorder b). rank key < rank (fst p)"
      using Br.prems(4) LT by force
    then show ?thesis
      using Br.IH(1) [of "FL n c k v b # fs" acc] Br.prems LT step narrow by (auto simp: image_Un)
  next
    case (GT d)
    note narrow = apart_right [OF Br.prems(6) GT(3) Br.prems(4)]
    have below: "ranked rank (inorder b)" "fst ` set (inorder b) \<subseteq> K"
      using Br.prems(4,5) by auto
    note IH = Br.IH(2) [OF Br.prems(1,2) focus_children(2) [OF Br.prems(3)] below narrow, of "Some n"]
    consider (here)
      "floor_loop m key (rootp b) (Some n) = Some (Some n) \<and> (\<forall>p \<in> set (inorder b). rank key < rank (fst p))"
      | (deep) "\<exists>gs n' c' k' v' a' b'. floor_loop m key (rootp b) (Some n) = Some (Some n')
        \<and> plug (FR n c k v a # fs) b = plug gs (Br n' c' k' v' a' b') \<and> rank k' \<le> rank key
        \<and> (\<forall>p \<in> set (inorder b' @ after gs). rank key < rank (fst p))"
      using IH by blast
    then show ?thesis
    proof cases
      case here
      then have "\<forall>p \<in> set (inorder b @ after fs). rank key < rank (fst p)"
        using Br.prems(6) by (auto simp: apart_def)
      with here GT step show ?thesis by (intro disjI1) (auto intro!: exI)
    next
      case deep
      with GT step show ?thesis by (intro disjI1) auto
    qed
  qed
qed

end

section \<open>The ends of a subtree\<close>

text \<open>The loops that walk left or right end at the first or last entry of the subtree.\<close>

lemma maximum_loop_focus:
  assumes "rep m (plug fs t)" and "t \<noteq> Leaf"
  shows "\<exists>hs n c k v a. maximum_loop m (rootp t) = Some (Some n)
    \<and> t = plug hs (Br n c k v a Leaf) \<and> after hs = []"
  using assms
proof (induction t arbitrary: fs)
  case Leaf
  then show ?case by simp
next
  case (Br n c k v a b)
  have step: "maximum_loop m (Some n) = (if b \<noteq> Leaf then maximum_loop m (rootp b) else Some (Some n))"
    using getters_node [OF Br.prems(1)] by (subst maximum_loop.simps) simp
  show ?case
  proof (cases "b = Leaf")
    case True
    with step show ?thesis by (auto intro!: exI [of _ "[]"])
  next
    case False
    from Br.IH(2) [OF focus_children(2) [OF Br.prems(1)] False] obtain hs n' c' k' v' a'
      where "maximum_loop m (rootp b) = Some (Some n')" "b = plug hs (Br n' c' k' v' a' Leaf)" "after hs = []"
      by blast
    then show ?thesis
      using step False by (intro exI [of _ "hs @ [FR n c k v a]"]) (auto simp: after_append)
  qed
qed

lemma left_loop_focus:
  assumes "rep m (plug fs t)"
  shows "left_loop m p (rootp t) = Some p \<and> t = Leaf
    \<or> (\<exists>gs n c k v b. left_loop m p (rootp t) = Some (Some n)
        \<and> plug fs t = plug gs (Br n c k v Leaf b) \<and> before gs = before fs)"
  using assms
proof (induction t arbitrary: fs p)
  case Leaf
  then show ?case by (simp add: left_loop.simps)
next
  case (Br n c k v a b)
  have step: "left_loop m p (Some n) = left_loop m (Some n) (rootp a)"
    using getters_node [OF Br.prems] by (subst left_loop.simps) simp
  consider "left_loop m (Some n) (rootp a) = Some (Some n) \<and> a = Leaf"
    | "\<exists>gs n' c' k' v' b'. left_loop m (Some n) (rootp a) = Some (Some n')
        \<and> plug (FL n c k v b # fs) a = plug gs (Br n' c' k' v' Leaf b') \<and> before gs = before (FL n c k v b # fs)"
    using Br.IH(1) [OF focus_children(1) [OF Br.prems], of "Some n"] by blast
  then show ?case
    using step by cases (auto intro!: exI)
qed

lemma right_loop_focus:
  assumes "rep m (plug fs t)"
  shows "right_loop m p (rootp t) = Some p \<and> t = Leaf
    \<or> (\<exists>gs n c k v a. right_loop m p (rootp t) = Some (Some n)
        \<and> plug fs t = plug gs (Br n c k v a Leaf) \<and> after gs = after fs)"
  using assms
proof (induction t arbitrary: fs p)
  case Leaf
  then show ?case by (simp add: right_loop.simps)
next
  case (Br n c k v a b)
  have step: "right_loop m p (Some n) = right_loop m (Some n) (rootp b)"
    using getters_node [OF Br.prems] by (subst right_loop.simps) simp
  consider "right_loop m (Some n) (rootp b) = Some (Some n) \<and> b = Leaf"
    | "\<exists>gs n' c' k' v' a'. right_loop m (Some n) (rootp b) = Some (Some n')
        \<and> plug (FR n c k v a # fs) b = plug gs (Br n' c' k' v' a' Leaf) \<and> after gs = after (FR n c k v a # fs)"
    using Br.IH(2) [OF focus_children(2) [OF Br.prems], of "Some n"] by blast
  then show ?case
    using step by cases (auto intro!: exI)
qed
section \<open>The methods\<close>

subsection \<open>Entries of the list and places of the tree\<close>

lemma upd_list_hole:
  assumes "\<forall>p \<in> set xs. rank (fst p) < rank key" and "\<forall>p \<in> set ys. rank key < rank (fst p)"
  shows "upd_list rank key val (xs @ ys) = xs @ (key, val) # ys"
  using assms upd_list_right [of xs rank key val ys] by (cases ys) auto

lemma upd_list_here:
  assumes "\<forall>p \<in> set xs. rank (fst p) < rank key" and "rank k = rank key"
  shows "upd_list rank key val (xs @ (k, v) # ys) = xs @ (key, val) # ys"
  using assms by (simp add: upd_list_right)

lemma del_list_here:
  assumes "ranked rank (xs @ (k, v) # ys)" and "rank k = rank key"
  shows "del_list rank key (xs @ (k, v) # ys) = xs @ ys"
proof -
  have "filter (\<lambda>p. rank (fst p) \<noteq> rank key) xs = xs" "filter (\<lambda>p. rank (fst p) \<noteq> rank key) ys = ys"
    using assms by (auto intro!: filter_True)
  then show ?thesis using assms(2) by (simp add: del_list_def)
qed

lemma del_list_absent: "\<forall>p \<in> set xs. rank (fst p) \<noteq> rank key \<Longrightarrow> del_list rank key xs = xs"
  by (simp add: del_list_def)

lemma find_list_here:
  assumes "ranked rank (xs @ (k, v) # ys)" and "rank k = rank key"
  shows "find_list rank key (xs @ (k, v) # ys) = Some (k, v)"
proof -
  have "find_list rank key xs = None" using assms by (intro find_list_none) auto
  then show ?thesis using assms(2) by (simp add: find_list_append) (simp add: find_list_def)
qed

text \<open>A red-black tree split at a hole or at a node.\<close>

lemma rbt_hole:
  assumes "rbt (plug fs Leaf)"
  shows "cinvh fs 0" "cinvc fs Black" "fs \<noteq> [] \<Longrightarrow> ctop fs Black = Black"
  using assms by (auto simp: rbt_def plug_invs)

lemma rbt_node:
  assumes "rbt (plug fs (Br n c k v a b))"
  shows "cinvh fs (bheight (Br n c k v a b))" "cinvc fs c" "ctop fs c = Black"
    "invc (Br n c k v a b)" "invh (Br n c k v a b)"
    "rbt (plug fs (Br n c k' v' a b))"
  using assms by (auto simp: rbt_def plug_invs)

subsection \<open>The structural part of \<open>Remove\<close>\<close>

text \<open>Painting a black root keeps a red-black tree one.\<close>

lemma rbt_unlink_root:
  assumes "rep m x" and "invc x" and "invh x" and "p = None"
  shows "\<exists>m'. (if p = None \<and> rootp x \<noteq> None then setColor m (rootp x) Black else Some m) = Some m'
    \<and> rep m' (paint Black x) \<and> same m m' \<and> rbt (paint Black x)"
  using assms setColor_focus [of m "[]" x Black] by (cases "x = Leaf") (auto simp: rbt_def)

lemma remove_at_focus:
  assumes "rep m (plug fs (Br n c k v a b))" and "rbt (plug fs (Br n c k v a b))"
    and "a = Leaf \<or> b = Leaf"
  shows "\<exists>m' t'. remove_at m (Some n) = Some m' \<and> rep m' t' \<and> rbt t' \<and> same m m'
    \<and> inorder t' = before fs @ inorder a @ inorder b @ after fs"
proof -
  define x where "x = (if b = Leaf then a else b)"
  have x: "inorder x = inorder a @ inorder b" "bheight x = 0" "invc x" "invh x"
    using assms(3) rbt_node(4,5) [OF assms(2)] by (auto simp: x_def)
  note inv = rbt_node [OF assms(2)]
  let ?finish = "\<lambda>m1. do {
      m2 \<leftarrow> replaceNode m1 (Some n) (rootp x);
      p \<leftarrow> getParent m2 (Some n);
      if p = None \<and> rootp x \<noteq> None then setColor m2 (rootp x) Black else Some m2 }"
  have start: "remove_at m (Some n) = do {
      m1 \<leftarrow> (if c = Black then do {
               d \<leftarrow> nodeColor m (rootp x);
               e \<leftarrow> setColor m (Some n) d;
               deleteCase1 e (Some n) }
             else Some m);
      ?finish m1 }"
    using deref_node [OF assms(1)] assms(3)
    by (cases "b = Leaf")
      (simp_all add: remove_at_def Let_def x_def del: not_None_eq cong del: bind_weak_cong if_weak_cong)
  show ?thesis
  proof (cases c)
    case Red
    then have "x = Leaf" and fs: "fs \<noteq> []"
      using inv(3,4,5) assms(3) by (auto simp: x_def) (cases a; cases b; auto)+
    obtain m2 where m2: "replaceNode m (Some n) (rootp x) = Some m2" "rep m2 (plug fs x)" "same m m2"
      "getParent m2 (Some n) = Some (cparent fs)"
      using replaceNode_focus [OF assms(1,3) x_def] by blast
    have "rbt (plug fs x)"
      using inv(1,2,3) Red \<open>x = Leaf\<close> fs x(2) assms(3) inv(5)
      by (auto simp: rbt_def plug_invs intro: cinvc_mono ctop_Black)
    then show ?thesis
      using start Red m2 \<open>x = Leaf\<close> x(1) by (auto simp: inorder_plug)
  next
    case Black
    have "x = a \<or> x = b" by (simp add: x_def)
    then have col: "nodeColor m (rootp x) = Some (colorOf x)"
      using nodeColor_focus [OF focus_children(1) [OF assms(1)]]
        nodeColor_focus [OF focus_children(2) [OF assms(1)]] by blast
    obtain e where e: "setColor m (Some n) (colorOf x) = Some e" "same m e"
      and re: "rep e (plug fs (Br n (colorOf x) k v a b))"
      using setColor_focus [OF assms(1), of "colorOf x"] by auto
    have ctx: "cinvh fs (Suc 0)" "cinvc fs Black"
      using inv(1,2,5) Black assms(3) by auto
    from deleteCase1_focus [OF re _ ctx] obtain m1 where m1: "deleteCase1 e (Some n) = Some m1"
      "same e m1" and r1: "rep m1 (plug (dfix fs) (Br n (colorOf x) k v a b))"
      by (auto simp: deleteCase1_def)
    obtain m2 where m2: "replaceNode m1 (Some n) (rootp x) = Some m2" "same m1 m2"
      "getParent m2 (Some n) = Some (cparent (dfix fs))" and r2: "rep m2 (plug (dfix fs) x)"
      using replaceNode_focus [OF r1 assms(3) x_def] by blast
    have low: "lowers fs (dfix fs) 0" by (rule lowers_dfix [OF ctx])
    have prefix: "remove_at m (Some n) =
        (if cparent (dfix fs) = None \<and> rootp x \<noteq> None then setColor m2 (rootp x) Black else Some m2)"
      using start Black col e m1 m2 by simp
    have s2: "same m m2" using e m1 m2 by (blast intro: same_trans)
    show ?thesis
    proof (cases "dfix fs = []")
      case True
      then obtain m3 where "remove_at m (Some n) = Some m3" "rep m3 (paint Black x)" "same m2 m3"
        "rbt (paint Black x)"
        using rbt_unlink_root [of m2 x None] r2 x(3,4) prefix by auto
      then show ?thesis
        using low True x(1) s2 by (auto simp: lowers_def intro!: exI intro: same_trans)
    next
      case False
      then have "remove_at m (Some n) = Some m2"
        using prefix by (cases "dfix fs") auto
      moreover have "fs \<noteq> []" using False by auto
      then have "ctop fs Red = Black" using inv(3) Black ctop_cong by metis
      then have "rbt (plug (dfix fs) x)"
        using low x(2,3,4) by (auto simp: rbt_def plug_invs lowers_def intro: cinvc_mono ctop_Black)
      ultimately show ?thesis
        using low r2 s2 x(1) by (auto simp: lowers_def inorder_plug)
    qed
  qed
qed

text \<open>Overwriting the key and the value of a node, one field after the other.\<close>

lemma overwrite_focus:
  assumes "rep m (plug fs (Br n c k v a b))"
  shows "\<exists>m1 m2. update_node m (Some n) (Key_update (\<lambda>_. k')) = Some m1
    \<and> update_node m1 (Some n) (Value_update (\<lambda>_. v')) = Some m2
    \<and> rep m2 (plug fs (Br n c k' v' a b)) \<and> same m m2
    \<and> (\<forall>r. r \<noteq> n \<longrightarrow> deref m1 (Some r) = deref m (Some r))"
  using assms by (auto simp: rep_plug heap_simps same_def)

text \<open>
  Moving the predecessor's entry into the node first: the entry of the node is gone, the
  predecessor occurs twice, and the node to unlink has no right child.
\<close>

lemma remove_target_focus:
  assumes "rep m (plug fs (Br n c k v a b))" and "rbt (plug fs (Br n c k v a b))"
  shows "\<exists>m' gs n' c' k' v' a' b'. remove_target m (Some n) = Some (m', Some n')
    \<and> rep m' (plug gs (Br n' c' k' v' a' b')) \<and> rbt (plug gs (Br n' c' k' v' a' b')) \<and> same m m'
    \<and> (a' = Leaf \<or> b' = Leaf)
    \<and> before gs @ inorder a' @ inorder b' @ after gs = before fs @ inorder a @ inorder b @ after fs"
proof (cases "a = Leaf \<or> b = Leaf")
  case True
  then show ?thesis
    using deref_node [OF assms(1)] assms
    by (intro exI [of _ m] exI [of _ fs] exI [of _ n] exI [of _ c] exI [of _ k] exI [of _ v]
        exI [of _ a] exI [of _ b]) (auto simp: remove_target_def)
next
  case False
  then have "a \<noteq> Leaf" by simp
  obtain hs n' c' k' v' a' where max: "maximum_loop m (rootp a) = Some (Some n')"
    and a: "a = plug hs (Br n' c' k' v' a' Leaf)" and hs: "after hs = []"
    using maximum_loop_focus [OF focus_children(1) [OF assms(1)] \<open>a \<noteq> Leaf\<close>] by blast
  have pred: "rep m (plug (hs @ FL n c k v b # fs) (Br n' c' k' v' a' Leaf))"
    using assms(1) a by simp
  have "n' \<noteq> n"
    using pred by (auto simp: rep_plug caddrs_append simp del: plug.simps plug_append)
  obtain m1 m2 where m: "update_node m (Some n) (Key_update (\<lambda>_. k')) = Some m1"
      "update_node m1 (Some n) (Value_update (\<lambda>_. v')) = Some m2" "same m m2"
      "\<And>r. r \<noteq> n \<Longrightarrow> deref m1 (Some r) = deref m (Some r)"
    and r2: "rep m2 (plug fs (Br n c k' v' a b))"
    using overwrite_focus [OF assms(1)] by blast
  let ?gs = "hs @ FL n c k' v' b # fs"
  have "remove_target m (Some n) = Some (m2, Some n')"
    using deref_node [OF assms(1)] False max deref_node [OF pred] m \<open>n' \<noteq> n\<close>
    by (simp add: remove_target_def maximumNode_def)
  moreover have "rep m2 (plug ?gs (Br n' c' k' v' a' Leaf))" "rbt (plug ?gs (Br n' c' k' v' a' Leaf))"
    using r2 rbt_node(6) [OF assms(2)] a by simp_all
  moreover have "before ?gs @ inorder a' @ after ?gs = before fs @ inorder a @ inorder b @ after fs"
    using hs by (simp add: a inorder_plug before_append after_append)
  ultimately show ?thesis
    using m(3) by (intro exI [of _ m2] exI [of _ ?gs] exI [of _ n'] exI [of _ c'] exI [of _ k']
        exI [of _ v'] exI [of _ a'] exI [of _ Leaf]) simp
qed
subsection \<open>The methods on a well-formed map\<close>

text \<open>What a method that returns \<open>(node, found)\<close> tells its caller: nil, or the entry of the node.\<close>

definition entry :: "('k, 'v) Map \<Rightarrow> ptr \<Rightarrow> ('k \<times> 'v) option option" where
  "entry m p = (if p = None then Some None else do { n \<leftarrow> deref m p; Some (Some (Key n, Value n)) })"

lemma entry_None [simp]: "entry m None = Some None"
  by (simp add: entry_def)

lemma entry_focus: "rep m (plug gs (Br n c k v a b)) \<Longrightarrow> entry m (Some n) = Some (Some (k, v))"
  using deref_node by (fastforce simp: entry_def)

lemma find_first: "\<forall>p \<in> set xs. \<not> P p \<Longrightarrow> P y \<Longrightarrow> List.find P (xs @ y # ys) = Some y"
  by (induction xs) auto

lemma is_map_sorted: "is_map K rank m xs \<Longrightarrow> ranked rank xs"
  by (simp add: is_map_def)

context comparator_order begin

lemma New_is_map: "is_map K rank (NewWith cmp) []"
  using comparator_order_axioms
  by (auto simp: is_map_def NewWith_def rep_def rbt_def intro!: exI [of _ Leaf])

text \<open>What the search finds in a well-formed map.\<close>

lemma lookup_is_map:
  assumes "is_map K rank m xs" and "Comparator m = cmp" and "key \<in> K"
  obtains (found) gs n c k v a b where "lookup m key = Some (Some n)"
      "rep m (plug gs (Br n c k v a b))" "rbt (plug gs (Br n c k v a b))"
      "xs = before gs @ inorder a @ (k, v) # inorder b @ after gs" "rank k = rank key"
    | (absent) "lookup m key = Some None" "\<forall>p \<in> set xs. rank (fst p) \<noteq> rank key"
proof -
  from assms(1) obtain t where t: "rep m t" "rbt t" "inorder t = xs" "ranked rank xs" "fst ` set xs \<subseteq> K"
    and root: "Root m = rootp t"
    by (auto simp: is_map_def rep_def)
  consider (1) gs n c k v a b where "lookup_loop m key (rootp t) = Some (Some n)"
      "t = plug gs (Br n c k v a b)" "rank k = rank key"
    | (2) "lookup_loop m key (rootp t) = Some None" "\<forall>p \<in> set (inorder t). rank (fst p) \<noteq> rank key"
    using lookup_loop_focus [OF assms(2,3), of "[]" t] t by auto
  then show thesis
    using that t root by cases (auto simp: lookup_def inorder_plug)
qed

lemma Get_is_map:
  assumes "is_map K rank m xs" and "Comparator m = cmp" and "key \<in> K"
  shows "Get m key = Some (map_option snd (find_list rank key xs))"
  using assms
proof (cases rule: lookup_is_map)
  case (found gs n c k v a b)
  then have "find_list rank key xs = Some (k, v)"
    using find_list_here [of rank "before gs @ inorder a" k v "inorder b @ after gs" key]
      is_map_sorted [OF assms(1)] by simp
  then show ?thesis
    using found(1) deref_node [OF found(2)] by (simp add: Get_def)
next
  case absent
  then show ?thesis by (simp add: Get_def find_list_none)
qed

lemma Remove_is_map:
  assumes "is_map K rank m xs" and "Comparator m = cmp" and "key \<in> K"
  shows "\<exists>m'. Remove m key = Some m' \<and> is_map K rank m' (del_list rank key xs) \<and> Comparator m' = cmp"
  using assms
proof (cases rule: lookup_is_map)
  case (found gs n c k v a b)
  obtain m1 hs n' c' k' v' a' b' where m1: "remove_target m (Some n) = Some (m1, Some n')" "same m m1"
      "a' = Leaf \<or> b' = Leaf"
    and r1: "rep m1 (plug hs (Br n' c' k' v' a' b'))" "rbt (plug hs (Br n' c' k' v' a' b'))"
    and e1: "before hs @ inorder a' @ inorder b' @ after hs = before gs @ inorder a @ inorder b @ after gs"
    using remove_target_focus [OF found(2,3)] by blast
  obtain m2 t where m2: "remove_at m1 (Some n') = Some m2" "rep m2 t" "rbt t" "same m1 m2"
    "inorder t = before hs @ inorder a' @ inorder b' @ after hs"
    using remove_at_focus [OF r1 m1(3)] by blast
  have del: "del_list rank key xs = inorder t"
    using del_list_here [of rank "before gs @ inorder a" k v "inorder b @ after gs" key]
      is_map_sorted [OF assms(1)] found(4,5) m2(5) e1 by simp
  have run: "Remove m key = Some (m2\<lparr>msize := msize m2 - 1\<rparr>)"
    using found(1) m1 m2 by (simp add: Remove_def)
  have same: "same m m2" using m1(2) m2(4) by (rule same_trans)
  have "rep (m2\<lparr>msize := msize m2 - 1\<rparr>) t" using m2(2) by (simp add: rep_def)
  moreover have "ranked rank (inorder t)" "fst ` set (inorder t) \<subseteq> K"
    using ranked_del_list [OF is_map_sorted [OF assms(1)], of key] assms(1)
    by (auto simp: del [symmetric] is_map_def) (auto simp: del_list_def)
  moreover have "length xs = Suc (length (inorder t))"
    using m2(5) e1 found(4) by simp
  then have "msize m2 - 1 = int (length (inorder t))"
    using same assms(1) by (simp add: same_def is_map_def)
  ultimately show ?thesis
    using run m2(3) same assms by (auto simp: is_map_def same_def del)
next
  case absent
  then show ?thesis using assms by (simp add: Remove_def del_list_absent)
qed

text \<open>The root case of \<open>Put\<close>, and the two outcomes of its loop.\<close>

lemma Put_empty:
  assumes "is_map K rank m xs" and "Comparator m = cmp" and "key \<in> K" and "Root m = None"
  shows "\<exists>m'. Put m key val = Some m' \<and> is_map K rank m' (upd_list rank key val xs) \<and> Comparator m' = cmp"
proof -
  let ?cell = "\<lparr>Key = key, Value = val, color = Red, Left = None, Right = None, Parent = None\<rparr>"
  let ?t = "Br (fresh m) Red key val Leaf Leaf"
  let ?m = "m\<lparr>store := (store m)(fresh m \<mapsto> ?cell), fresh := Suc (fresh m), Root := Some (fresh m)\<rparr>"
  have "xs = []" using assms(1,4) by (auto simp: is_map_def rep_def)
  have "rep ?m (plug [] ?t)" by (simp add: rep_def)
  from insertCase1_focus [OF this] obtain m' where m': "insertCase1 ?m (Some (fresh m)) = Some m'"
    "rep m' (paint Black ?t)" "same ?m m'"
    by (auto simp: insertCase1_def)
  have "Put m key val = Some (m'\<lparr>msize := msize m' + 1\<rparr>)"
    using assms cmp_refl [of key] m' by (simp add: Put_def new_node_def)
  then show ?thesis
    using assms m' \<open>xs = []\<close>
    by (auto simp: is_map_def same_def rbt_def rep_def intro!: exI [of _ "paint Black ?t"])
qed

lemma Put_is_map:
  assumes "is_map K rank m xs" and "Comparator m = cmp" and "key \<in> K"
  shows "\<exists>m'. Put m key val = Some m' \<and> is_map K rank m' (upd_list rank key val xs) \<and> Comparator m' = cmp"
proof (cases "Root m = None")
  case True
  with assms show ?thesis by (rule Put_empty)
next
  case False
  from assms(1) obtain t where t: "rep m t" "rbt t" "inorder t = xs" "ranked rank xs" "fst ` set xs \<subseteq> K"
    and root: "Root m = rootp t"
    by (auto simp: is_map_def rep_def)
  have "t \<noteq> Leaf" using False root by auto
  have new: "ranked rank (upd_list rank key val xs)" "fst ` set (upd_list rank key val xs) \<subseteq> K"
    using ranked_upd_list [OF t(4)] set_upd_list [OF t(4), of key val] t(5) assms(3) by auto
  have "rep m (plug [] t)" "ranked rank (inorder t)" "fst ` set (inorder t) \<subseteq> K"
    using t by simp_all
  from put_loop_focus [OF assms(2,3) this(1) \<open>t \<noteq> Leaf\<close> this(2,3) apart_Nil, of val]
  show ?thesis
  proof (elim disjE exE conjE, goal_cases over hole)
    case (over m1 gs n c k v a b)
    have xs: "xs = (before gs @ inorder a) @ (k, v) # inorder b @ after gs"
      using t(3) over(2) by (simp add: inorder_plug)
    have below: "\<forall>p \<in> set (before gs @ inorder a). rank (fst p) < rank k"
      using t(4) unfolding xs by auto
    have "upd_list rank key val xs = (before gs @ inorder a) @ (key, val) # inorder b @ after gs"
      unfolding xs using below over(3) by (intro upd_list_here) simp_all
    then have upd: "upd_list rank key val xs = inorder (plug gs (Br n c key val a b))"
      by (simp add: inorder_plug)
    have "length (inorder (plug gs (Br n c key val a b))) = length xs"
      unfolding xs inorder_plug by simp
    then have "length (upd_list rank key val xs) = length xs"
      by (simp only: upd)
    moreover have "rbt (plug gs (Br n c key val a b))"
      using t(2) over(2) by (auto intro: rbt_node(6))
    moreover have "Put m key val = Some m1"
      using False root over(1) by (simp add: Put_def)
    ultimately show ?thesis
      using over new assms upd by (auto simp: is_map_def same_def)
  next
    case (hole m1 m2 r f gs)
    have shape: "rbt (plug (f # gs) Leaf)" "inorder (plug (f # gs) Leaf) = xs"
      using t(2,3) hole(2) by (simp_all del: plug.simps(2))
    have xs: "xs = before (f # gs) @ after (f # gs)"
      using shape(2) unfolding inorder_plug by simp
    have upd: "upd_list rank key val xs = before (f # gs) @ (key, val) # after (f # gs)"
      unfolding xs using hole(3) unfolding apart_def by (elim conjE) (rule upd_list_hole)
    let ?t = "Br (fresh m) Red key val Leaf Leaf"
    note shape = rbt_hole [OF shape(1)]
    obtain m3 where m3: "insertCase InsertCase1 m2 (Some (fresh m)) = Some m3" "same m2 m3"
        and r3: "rep m3 (ifix (f # gs) ?t)"
      using insertCase1_focus [OF hole(6) _ _ shape(2,3)] by auto
    have "rbt (ifix (f # gs) ?t)"
      using rbt_ifix [of ?t "f # gs"] shape by simp
    moreover have "inorder (ifix (f # gs) ?t) = upd_list rank key val xs"
      by (simp only: inorder_ifix upd) simp
    moreover have "length (before (f # gs) @ (key, val) # after (f # gs)) = Suc (length xs)"
      unfolding xs by simp
    then have "length (upd_list rank key val xs) = Suc (length xs)"
      by (simp only: upd)
    moreover have "Put m key val = Some (m3\<lparr>msize := msize m3 + 1\<rparr>)"
      using False root hole(1,4,5) m3 by (simp add: Put_def insertCase1_def)
    moreover have "rep (m3\<lparr>msize := msize m3 + 1\<rparr>) (ifix (f # gs) ?t)"
      using r3 by (simp add: rep_def)
    ultimately show ?thesis
      using hole(7,8) m3(2) new assms by (auto simp: is_map_def same_def)
  qed
qed

text \<open>\<open>Ceiling\<close> finds the first entry that is not below the key, \<open>Floor\<close> the last that is not above.\<close>

lemma Ceiling_is_map:
  assumes "is_map K rank m xs" and "Comparator m = cmp" and "key \<in> K"
  shows "\<exists>r. Ceiling m key = Some r \<and> entry m r = Some (List.find (\<lambda>p. rank key \<le> rank (fst p)) xs)"
proof -
  from assms(1) obtain t where t: "rep m t" "inorder t = xs" "ranked rank xs" "fst ` set xs \<subseteq> K"
    and root: "Root m = rootp t"
    by (auto simp: is_map_def rep_def)
  consider (1) gs n c k v a b where "ceiling_loop m key (rootp t) None = Some (Some n)"
      "t = plug gs (Br n c k v a b)" "rank key \<le> rank k"
      "\<forall>p \<in> set (before gs @ inorder a). rank (fst p) < rank key"
    | (2) "ceiling_loop m key (rootp t) None = Some None" "\<forall>p \<in> set (inorder t). rank (fst p) < rank key"
    using ceiling_loop_focus [OF assms(2,3), of "[]" t None] t by auto
  then show ?thesis
  proof cases
    case 1
    have xs: "xs = (before gs @ inorder a) @ (k, v) # inorder b @ after gs"
      using t(2) 1(2) by (simp add: inorder_plug)
    have "List.find (\<lambda>p. rank key \<le> rank (fst p)) xs = Some (k, v)"
      unfolding xs using 1(3,4) by (intro find_first) (auto simp: not_le)
    then show ?thesis
      using 1 root t(1) entry_focus [of m gs n c k v a b] by (auto simp: Ceiling_def)
  next
    case 2
    then have "List.find (\<lambda>p. rank key \<le> rank (fst p)) xs = None"
      using t(2) by (auto simp: find_None_iff not_le)
    with 2 root show ?thesis by (simp add: Ceiling_def)
  qed
qed

lemma Floor_is_map:
  assumes "is_map K rank m xs" and "Comparator m = cmp" and "key \<in> K"
  shows "\<exists>r. Floor m key = Some r \<and> entry m r = Some (List.find (\<lambda>p. rank (fst p) \<le> rank key) (rev xs))"
proof -
  from assms(1) obtain t where t: "rep m t" "inorder t = xs" "ranked rank xs" "fst ` set xs \<subseteq> K"
    and root: "Root m = rootp t"
    by (auto simp: is_map_def rep_def)
  consider (1) gs n c k v a b where "floor_loop m key (rootp t) None = Some (Some n)"
      "t = plug gs (Br n c k v a b)" "rank k \<le> rank key"
      "\<forall>p \<in> set (inorder b @ after gs). rank key < rank (fst p)"
    | (2) "floor_loop m key (rootp t) None = Some None" "\<forall>p \<in> set (inorder t). rank key < rank (fst p)"
    using floor_loop_focus [OF assms(2,3), of "[]" t None] t by auto
  then show ?thesis
  proof cases
    case 1
    have xs: "rev xs = rev (inorder b @ after gs) @ (k, v) # rev (before gs @ inorder a)"
      using t(2) 1(2) by (auto simp: inorder_plug)
    have "List.find (\<lambda>p. rank (fst p) \<le> rank key) (rev xs) = Some (k, v)"
      unfolding xs using 1(3,4) by (intro find_first) (auto simp: not_le)
    then show ?thesis
      using 1 root t(1) entry_focus [of m gs n c k v a b] by (auto simp: Floor_def)
  next
    case 2
    then have "List.find (\<lambda>p. rank (fst p) \<le> rank key) (rev xs) = None"
      using t(2) by (auto simp: find_None_iff not_le)
    with 2 root show ?thesis by (simp add: Floor_def)
  qed
qed

end

text \<open>The ends of the map, and the constant-time methods.\<close>

lemma Left_is_map:
  assumes "is_map K rank m xs"
  shows "\<exists>r. Map_Left m = Some r \<and> entry m r = Some (if xs = [] then None else Some (hd xs))"
proof -
  from assms obtain t where t: "rep m t" "inorder t = xs" and root: "Root m = rootp t"
    by (auto simp: is_map_def rep_def)
  have "rep m (plug [] t)" using t by simp
  from left_loop_focus [OF this, of None] show ?thesis
  proof (elim disjE exE conjE, goal_cases empty found)
    case (found gs n c k v b)
    then have "t = plug gs (Br n c k v Leaf b)" "xs = (k, v) # inorder b @ after gs"
      using t(2) by (auto simp: inorder_plug)
    then show ?case
      using entry_focus [of m gs n c k v Leaf b] t(1) root found(1) by (simp add: Map_Left_def)
  qed (use t(2) root in \<open>simp add: Map_Left_def\<close>)
qed

lemma Right_is_map:
  assumes "is_map K rank m xs"
  shows "\<exists>r. Map_Right m = Some r \<and> entry m r = Some (if xs = [] then None else Some (last xs))"
proof -
  from assms obtain t where t: "rep m t" "inorder t = xs" and root: "Root m = rootp t"
    by (auto simp: is_map_def rep_def)
  have "rep m (plug [] t)" using t by simp
  from right_loop_focus [OF this, of None] show ?thesis
  proof (elim disjE exE conjE, goal_cases empty found)
    case (found gs n c k v a)
    then have "t = plug gs (Br n c k v a Leaf)" "xs = (before gs @ inorder a) @ [(k, v)]"
      using t(2) by (auto simp: inorder_plug)
    then show ?case
      using entry_focus [of m gs n c k v a Leaf] t(1) root found(1) by (simp add: Map_Right_def)
  qed (use t(2) root in \<open>simp add: Map_Right_def\<close>)
qed

lemma Size_is_map: "is_map K rank m xs \<Longrightarrow> Size m = int (length xs)"
  by (simp add: is_map_def Size_def)

lemma Empty_is_map: "is_map K rank m xs \<Longrightarrow> Empty m \<longleftrightarrow> xs = []"
  by (simp add: is_map_def Empty_def)

text \<open>\<open>Clear\<close> forgets the nodes: the store keeps them as garbage.\<close>

lemma Clear_is_map: "is_map K rank m xs \<Longrightarrow> is_map K rank (Clear m) []"
  by (auto simp: is_map_def Clear_def rep_def rbt_def intro!: exI [of _ Leaf])

end
