(* ===== verification/MapsIter.thy ===== *)
theory MapsIter
  imports MapsCorrect
begin

text \<open>
  \<open>iterator.go\<close> and the methods of \<open>maps.go\<close> that walk over the whole map. An iterator is a
  cursor over the positions before, on and behind the entries; \<open>it_index\<close> numbers them, and
  every method is shown to move that number.
\<close>

section \<open>The iterator\<close>

datatype position = Begin | Between | End

record Iterator =
  it_node :: ptr
  it_position :: position

definition New_Iterator :: Iterator where
  "New_Iterator = \<lparr>it_node = None, it_position = Begin\<rparr>"

text \<open>The labels \<open>end\<close>, \<open>begin\<close> and \<open>between\<close> of the two methods.\<close>

definition at_end :: "Iterator \<times> bool" where
  "at_end = (\<lparr>it_node = None, it_position = End\<rparr>, False)"

definition at_begin :: "Iterator \<times> bool" where
  "at_begin = (\<lparr>it_node = None, it_position = Begin\<rparr>, False)"

definition at_node :: "ptr \<Rightarrow> Iterator \<times> bool" where
  "at_node node = (\<lparr>it_node = node, it_position = Between\<rparr>, True)"

partial_function (option) leftmost_loop :: "('k, 'v) Map \<Rightarrow> ptr \<Rightarrow> ptr option" where
  "leftmost_loop m node = do {
     l \<leftarrow> getLeft m node;
     if l \<noteq> None then leftmost_loop m l else Some node
   }"

text \<open>
  The climbing loops: \<open>key\<close> is the key of the node they start from, \<open>stop\<close> the test on the
  comparison; the result is nil when the root has been passed.
\<close>

partial_function (option) climb_loop :: "(int \<Rightarrow> bool) \<Rightarrow> ('k, 'v) Map \<Rightarrow> 'k \<Rightarrow> ptr \<Rightarrow> ptr option" where
  "climb_loop stop m key node = do {
     p \<leftarrow> getParent m node;
     if p = None then Some None
     else do {
       n \<leftarrow> deref m p;
       compare \<leftarrow> Comparator m key (Key n);
       if stop compare then Some p else climb_loop stop m key p
     }
   }"

definition Next :: "('k, 'v) Map \<Rightarrow> Iterator \<Rightarrow> (Iterator \<times> bool) option" where
  "Next m ite = (case it_position ite of
     End \<Rightarrow> Some at_end
   | Begin \<Rightarrow> do {
       left \<leftarrow> Map_Left m;
       Some (if left = None then at_end else at_node left)
     }
   | Between \<Rightarrow> do {
       n \<leftarrow> deref m (it_node ite);
       if Right n \<noteq> None then do { l \<leftarrow> leftmost_loop m (Right n); Some (at_node l) }
       else if Parent n \<noteq> None then do {
         p \<leftarrow> climb_loop (\<lambda>c. c \<le> 0) m (Key n) (it_node ite);
         Some (if p = None then at_end else at_node p)
       }
       else Some at_end
     })"

definition Prev :: "('k, 'v) Map \<Rightarrow> Iterator \<Rightarrow> (Iterator \<times> bool) option" where
  "Prev m ite = (case it_position ite of
     Begin \<Rightarrow> Some at_begin
   | End \<Rightarrow> do {
       right \<leftarrow> Map_Right m;
       Some (if right = None then at_begin else at_node right)
     }
   | Between \<Rightarrow> do {
       n \<leftarrow> deref m (it_node ite);
       if Left n \<noteq> None then do { r \<leftarrow> maximum_loop m (Left n); Some (at_node r) }
       else if Parent n \<noteq> None then do {
         p \<leftarrow> climb_loop (\<lambda>c. c \<ge> 0) m (Key n) (it_node ite);
         Some (if p = None then at_begin else at_node p)
       }
       else Some at_begin
     })"

definition It_Value :: "('k, 'v) Map \<Rightarrow> Iterator \<Rightarrow> 'v option" where
  "It_Value m ite = map_option Value (deref m (it_node ite))"

definition It_Key :: "('k, 'v) Map \<Rightarrow> Iterator \<Rightarrow> 'k option" where
  "It_Key m ite = map_option Key (deref m (it_node ite))"

definition It_Begin :: "Iterator \<Rightarrow> Iterator" where
  "It_Begin ite = ite\<lparr>it_node := None, it_position := Begin\<rparr>"

definition It_End :: "Iterator \<Rightarrow> Iterator" where
  "It_End ite = ite\<lparr>it_node := None, it_position := End\<rparr>"

definition First :: "('k, 'v) Map \<Rightarrow> Iterator \<Rightarrow> (Iterator \<times> bool) option" where
  "First m ite = Next m (It_Begin ite)"

definition Last :: "('k, 'v) Map \<Rightarrow> Iterator \<Rightarrow> (Iterator \<times> bool) option" where
  "Last m ite = Prev m (It_End ite)"

section \<open>Walks over the map\<close>

text \<open>
  \<open>Keys\<close> and \<open>Values\<close> fill a slice of length \<open>size\<close>; its elements start as nil, and an index
  out of range panics, as \<open>make\<close> does with a negative length.
\<close>

partial_function (option) fill_loop ::
    "(Iterator \<Rightarrow> 'a option) \<Rightarrow> ('k, 'v) Map \<Rightarrow> Iterator \<Rightarrow> nat \<Rightarrow> 'a option list \<Rightarrow> 'a option list option" where
  "fill_loop read m it i out = do {
     (it1, more) \<leftarrow> Next m it;
     if more then do {
       x \<leftarrow> read it1;
       if i < length out then fill_loop read m it1 (Suc i) (out[i := Some x]) else None
     }
     else Some out
   }"

definition Keys :: "('k, 'v) Map \<Rightarrow> 'k option list option" where
  "Keys m = (if msize m < 0 then None
     else fill_loop (It_Key m) m New_Iterator 0 (replicate (nat (msize m)) None))"

definition Values :: "('k, 'v) Map \<Rightarrow> 'v option list option" where
  "Values m = (if msize m < 0 then None
     else fill_loop (It_Value m) m New_Iterator 0 (replicate (nat (msize m)) None))"

text \<open>The drawing of the tree: UTF-8 bytes of the box characters, \<open>fmt\<close> prints a key.\<close>

definition bar :: string where
  "bar = [CHR 0xE2, CHR 0x94, CHR 0x82] @ ''   ''"

definition tail_branch :: string where
  "tail_branch = [CHR 0xE2, CHR 0x94, CHR 0x94, CHR 0xE2, CHR 0x94, CHR 0x80, CHR 0xE2, CHR 0x94, CHR 0x80] @ '' ''"

definition head_branch :: string where
  "head_branch = [CHR 0xE2, CHR 0x94, CHR 0x8C, CHR 0xE2, CHR 0x94, CHR 0x80, CHR 0xE2, CHR 0x94, CHR 0x80] @ '' ''"

definition newline :: string where
  "newline = [CHR 0x0A]"

partial_function (option) draw ::
    "('k \<Rightarrow> string) \<Rightarrow> ('k, 'v) Map \<Rightarrow> ptr \<Rightarrow> string \<Rightarrow> bool \<Rightarrow> string \<Rightarrow> string option" where
  "draw fmt m node prefix isTail str = do {
     n \<leftarrow> deref m node;
     str1 \<leftarrow> (if Right n \<noteq> None
              then draw fmt m (Right n) (prefix @ (if isTail then bar else ''    '')) False str
              else Some str);
     let str2 = str1 @ prefix @ (if isTail then tail_branch else head_branch) @ fmt (Key n) @ newline;
     if Left n \<noteq> None
     then draw fmt m (Left n) (prefix @ (if isTail then ''    '' else bar)) True str2
     else Some str2
   }"

definition Map_String :: "('k \<Rightarrow> string) \<Rightarrow> ('k, 'v) Map \<Rightarrow> string option" where
  "Map_String fmt m =
     (if Empty m then Some (''RedBlackTree'' @ newline)
      else draw fmt m (Root m) [] True (''RedBlackTree'' @ newline))"

lemmas iterator_code [code] =
  leftmost_loop.simps climb_loop.simps fill_loop.simps draw.simps

lemma bind_Some_map: "Option.bind x (\<lambda>l. Some (f l)) = map_option f x"
  by (cases x) simp_all

section \<open>What the cursor points at\<close>

definition focus_at :: "('k, 'v) Map \<Rightarrow> ('k \<times> 'v) list \<Rightarrow> ptr \<Rightarrow> nat \<Rightarrow> bool" where
  "focus_at m xs p i = (\<exists>gs n c k v a b. p = Some n \<and> rep m (plug gs (Br n c k v a b))
     \<and> xs = (before gs @ inorder a) @ (k, v) # inorder b @ after gs \<and> i = length (before gs @ inorder a))"

text \<open>The position number: 0 before the first entry, \<open>i + 1\<close> on entry \<open>i\<close>, then behind the last.\<close>

definition it_index :: "('k, 'v) Map \<Rightarrow> ('k \<times> 'v) list \<Rightarrow> Iterator \<Rightarrow> nat \<Rightarrow> bool" where
  "it_index m xs ite i = (case it_position ite of
     Begin \<Rightarrow> i = 0
   | Between \<Rightarrow> (\<exists>j. focus_at m xs (it_node ite) j \<and> i = Suc j)
   | End \<Rightarrow> i = Suc (length xs))"

lemma focus_atI:
  "rep m (plug gs (Br n c k v a b)) \<Longrightarrow> inorder (plug gs (Br n c k v a b)) = xs \<Longrightarrow>
    i = length (before gs @ inorder a) \<Longrightarrow> focus_at m xs (Some n) i"
  unfolding focus_at_def
  by (rule exI [of _ gs], rule exI [of _ n], rule exI [of _ c], rule exI [of _ k], rule exI [of _ v],
      rule exI [of _ a], rule exI [of _ b]) (auto simp: inorder_plug)

lemma focus_at_less: "focus_at m xs p i \<Longrightarrow> i < length xs"
  by (auto simp: focus_at_def)

lemma focus_at_read:
  assumes "focus_at m xs p i"
  shows "\<exists>n. deref m p = Some n \<and> (Key n, Value n) = xs ! i"
proof -
  from assms obtain gs n c k v a b where p: "p = Some n" "rep m (plug gs (Br n c k v a b))"
    "xs = (before gs @ inorder a) @ (k, v) # inorder b @ after gs" "i = length (before gs @ inorder a)"
    unfolding focus_at_def by blast
  have "xs ! i = (k, v)" unfolding p(3,4) by (rule nth_append_length)
  then show ?thesis using p(1) deref_node [OF p(2)] by simp
qed

lemma it_index_simps [simp]:
  "it_index m xs (fst at_end) i \<longleftrightarrow> i = Suc (length xs)"
  "it_index m xs (fst at_begin) i \<longleftrightarrow> i = 0"
  "it_index m xs (fst (at_node p)) i \<longleftrightarrow> (\<exists>j. focus_at m xs p j \<and> i = Suc j)"
  "snd at_end = False" "snd at_begin = False" "snd (at_node p) = True"
  "it_index m xs New_Iterator i \<longleftrightarrow> i = 0"
  by (simp_all add: it_index_def at_end_def at_begin_def at_node_def New_Iterator_def)


section \<open>One step of the cursor\<close>

lemma leftmost_loop_focus:
  assumes "rep m (plug fs t)" and "t \<noteq> Leaf"
  shows "\<exists>gs n c k v b. leftmost_loop m (rootp t) = Some (Some n)
    \<and> plug fs t = plug gs (Br n c k v Leaf b) \<and> before gs = before fs"
  using assms
proof (induction t arbitrary: fs)
  case Leaf
  then show ?case by simp
next
  case (Br n c k v a b)
  have step: "leftmost_loop m (Some n) = (if a \<noteq> Leaf then leftmost_loop m (rootp a) else Some (Some n))"
    using getters_node [OF Br.prems(1)] by (subst leftmost_loop.simps) simp
  show ?case
  proof (cases "a = Leaf")
    case True
    with step show ?thesis
      by (intro exI [of _ fs] exI [of _ n] exI [of _ c] exI [of _ k] exI [of _ v] exI [of _ b]) simp
  next
    case False
    from Br.IH(1) [OF focus_children(1) [OF Br.prems(1)] False] step False show ?thesis by auto
  qed
qed

lemma rightmost_loop_focus:
  assumes "rep m (plug fs t)" and "t \<noteq> Leaf"
  shows "\<exists>gs n c k v a. maximum_loop m (rootp t) = Some (Some n)
    \<and> plug fs t = plug gs (Br n c k v a Leaf) \<and> after gs = after fs"
proof -
  from maximum_loop_focus [OF assms] obtain hs n c k v a where
    "maximum_loop m (rootp t) = Some (Some n)" "t = plug hs (Br n c k v a Leaf)" "after hs = []"
    by blast
  then show ?thesis by (intro exI [of _ "hs @ fs"]) (auto simp: after_append)
qed

context comparator_order begin

lemma cmp_less: "a \<in> K \<Longrightarrow> b \<in> K \<Longrightarrow> rank a < rank b \<Longrightarrow> \<exists>c. cmp a b = Some c \<and> c < 0"
  using cmp_answers [of a b] cmp_neg [of a b] by fastforce

lemma cmp_greater: "a \<in> K \<Longrightarrow> b \<in> K \<Longrightarrow> rank b < rank a \<Longrightarrow> \<exists>c. cmp a b = Some c \<and> c > 0"
  using cmp_answers [of a b] cmp_pos [of a b] by fastforce

text \<open>
  Climbing stops at the first ancestor on the other side: the neighbour of the subtree that the
  climb started from.
\<close>

lemma climb_next_focus:
  assumes "Comparator m = cmp" and "key \<in> K" and "rep m (plug fs t)" and "t \<noteq> Leaf"
    and "ranked rank (inorder (plug fs t))" and "fst ` set (inorder (plug fs t)) \<subseteq> K"
    and "key \<in> fst ` set (inorder t)"
  shows "climb_loop (\<lambda>c. c \<le> 0) m key (rootp t) = Some None \<and> after fs = []
    \<or> (\<exists>gs n c k v a b. climb_loop (\<lambda>c. c \<le> 0) m key (rootp t) = Some (Some n)
        \<and> plug fs t = plug gs (Br n c k v a b) \<and> before gs @ inorder a = before fs @ inorder t)"
  using assms
proof (induction fs arbitrary: t)
  case Nil
  then show ?case
    using parent_focus [of m "[]" t] by (subst climb_loop.simps) simp
next
  case (Cons f fs)
  have step: "climb_loop (\<lambda>c. c \<le> 0) m key (rootp t) = do {
      compare \<leftarrow> cmp key (Key (fcell f (rootp t) (cparent fs)));
      if compare \<le> 0 then Some (Some (faddr f)) else climb_loop (\<lambda>c. c \<le> 0) m key (Some (faddr f)) }"
    using parent_focus [OF Cons.prems(3,4)] frame_cell [OF Cons.prems(3)] Cons.prems(1)
    by (subst climb_loop.simps) (simp cong del: bind_weak_cong if_weak_cong del: plug.simps)
  show ?case
  proof (cases f)
    case (FL n c k v s)
    then have "rank key < rank k" "k \<in> K"
      using Cons.prems(5,6,7) by (auto simp: inorder_plug)
    then obtain d where "cmp key k = Some d" "d < 0"
      using cmp_less [OF Cons.prems(2)] by blast
    then show ?thesis
      using step FL by (intro disjI2) (auto intro!: exI)
  next
    case (FR n c k v s)
    then have "rank k < rank key" "k \<in> K"
      using Cons.prems(5,6,7) by (auto simp: inorder_plug)
    then obtain d where "cmp key k = Some d" "d > 0"
      using cmp_greater [OF Cons.prems(2)] by blast
    then show ?thesis
      using step FR Cons.IH [of "Br n c k v s t"] Cons.prems by auto
  qed
qed

lemma climb_prev_focus:
  assumes "Comparator m = cmp" and "key \<in> K" and "rep m (plug fs t)" and "t \<noteq> Leaf"
    and "ranked rank (inorder (plug fs t))" and "fst ` set (inorder (plug fs t)) \<subseteq> K"
    and "key \<in> fst ` set (inorder t)"
  shows "climb_loop (\<lambda>c. c \<ge> 0) m key (rootp t) = Some None \<and> before fs = []
    \<or> (\<exists>gs n c k v a b. climb_loop (\<lambda>c. c \<ge> 0) m key (rootp t) = Some (Some n)
        \<and> plug fs t = plug gs (Br n c k v a b) \<and> before fs = before gs @ inorder a @ [(k, v)])"
  using assms
proof (induction fs arbitrary: t)
  case Nil
  then show ?case
    using parent_focus [of m "[]" t] by (subst climb_loop.simps) simp
next
  case (Cons f fs)
  have step: "climb_loop (\<lambda>c. c \<ge> 0) m key (rootp t) = do {
      compare \<leftarrow> cmp key (Key (fcell f (rootp t) (cparent fs)));
      if compare \<ge> 0 then Some (Some (faddr f)) else climb_loop (\<lambda>c. c \<ge> 0) m key (Some (faddr f)) }"
    using parent_focus [OF Cons.prems(3,4)] frame_cell [OF Cons.prems(3)] Cons.prems(1)
    by (subst climb_loop.simps) (simp cong del: bind_weak_cong if_weak_cong del: plug.simps)
  show ?case
  proof (cases f)
    case (FR n c k v s)
    then have "rank k < rank key" "k \<in> K"
      using Cons.prems(5,6,7) by (auto simp: inorder_plug)
    then obtain d where "cmp key k = Some d" "d > 0"
      using cmp_greater [OF Cons.prems(2)] by blast
    then show ?thesis
      using step FR by (intro disjI2) (auto intro!: exI)
  next
    case (FL n c k v s)
    then have "rank key < rank k" "k \<in> K"
      using Cons.prems(5,6,7) by (auto simp: inorder_plug)
    then obtain d where "cmp key k = Some d" "d < 0"
      using cmp_less [OF Cons.prems(2)] by blast
    then show ?thesis
      using step FL Cons.IH [of "Br n c k v t s"] Cons.prems by auto
  qed
qed

text \<open>The two methods on a well-formed map: the index moves by one, and stays at the ends.\<close>

lemma it_index_Between:
  assumes "is_map K rank m xs" and "it_index m xs ite i" and "it_position ite = Between"
  obtains gs n c k v a b where "it_node ite = Some n" "rep m (plug gs (Br n c k v a b))"
    "inorder (plug gs (Br n c k v a b)) = xs" "i = Suc (length (before gs @ inorder a))"
    "ranked rank (inorder (plug gs (Br n c k v a b)))"
    "fst ` set (inorder (plug gs (Br n c k v a b))) \<subseteq> K" "k \<in> K"
proof -
  from assms(2,3) obtain j where j: "focus_at m xs (it_node ite) j" "i = Suc j"
    by (auto simp: it_index_def)
  then obtain gs n c k v a b where f: "it_node ite = Some n" "rep m (plug gs (Br n c k v a b))"
    "xs = (before gs @ inorder a) @ (k, v) # inorder b @ after gs" "j = length (before gs @ inorder a)"
    unfolding focus_at_def by blast
  have xs: "inorder (plug gs (Br n c k v a b)) = xs" unfolding f(3) by (simp add: inorder_plug)
  have s: "ranked rank xs" "fst ` set xs \<subseteq> K" using assms(1) by (simp_all add: is_map_def)
  from s(2) have "k \<in> K" unfolding f(3) by simp
  with that [OF f(1,2) xs j(2) [unfolded f(4)] s [folded xs]] show thesis .
qed

lemma focus_atI':
  "rep m t \<Longrightarrow> inorder t = xs \<Longrightarrow> t = plug gs (Br n c k v a b) \<Longrightarrow>
    i = length (before gs @ inorder a) \<Longrightarrow> focus_at m xs (Some n) i"
  using focus_atI [of m gs n c k v a b xs i] by simp

lemma Next_is_map:
  assumes "is_map K rank m xs" and "Comparator m = cmp" and "it_index m xs ite i"
  shows "\<exists>r. Next m ite = Some r \<and> snd r = (i < length xs)
    \<and> it_index m xs (fst r) (min (Suc i) (Suc (length xs)))"
proof (cases "it_position ite")
  case Begin
  from assms(1) obtain t where t: "rep m t" "inorder t = xs" and root: "Root m = rootp t"
    by (auto simp: is_map_def rep_def)
  have "rep m (plug [] t)" using t by simp
  from left_loop_focus [OF this, of None] show ?thesis
  proof (elim disjE exE conjE, goal_cases empty found)
    case (found gs n c k v b)
    then have "focus_at m xs (Some n) 0"
      using t by (intro focus_atI' [of m t xs gs n c k v Leaf b]) auto
    then show ?case
      using found(1) root assms(3) Begin focus_at_less [of m xs "Some n" 0]
      by (auto simp: Next_def Map_Left_def it_index_def [of m xs ite])
  qed (use t(2) root assms(3) Begin in \<open>auto simp: Next_def Map_Left_def it_index_def [of m xs ite]\<close>)
next
  case Between
  obtain gs n c k v a b where f: "it_node ite = Some n" "rep m (plug gs (Br n c k v a b))"
    "inorder (plug gs (Br n c k v a b)) = xs" "i = Suc (length (before gs @ inorder a))"
    "ranked rank (inorder (plug gs (Br n c k v a b)))"
    "fst ` set (inorder (plug gs (Br n c k v a b))) \<subseteq> K" "k \<in> K"
    by (rule it_index_Between [OF assms(1,3) Between])
  let ?t = "Br n c k v a b"
  have len: "length xs = i + length (inorder b) + length (after gs)"
    using f(3,4) by (auto simp: inorder_plug)
  have step: "Next m ite = (if b \<noteq> Leaf then map_option at_node (leftmost_loop m (rootp b))
      else if gs \<noteq> [] then map_option (\<lambda>p. if p = None then at_end else at_node p)
        (climb_loop (\<lambda>c. c \<le> 0) m k (rootp ?t))
      else Some at_end)"
    using deref_node [OF f(2)] f(1) Between
    by (cases gs) (simp_all add: Next_def bind_Some_map cong del: bind_weak_cong if_weak_cong)
  consider (down) "b \<noteq> Leaf" | (root) "b = Leaf" "gs = []" | (up) "b = Leaf" "gs \<noteq> []" by blast
  then show ?thesis
  proof cases
    case down
    obtain hs n' c' k' v' b' where d: "leftmost_loop m (rootp b) = Some (Some n')"
      "plug gs ?t = plug hs (Br n' c' k' v' Leaf b')" "before hs = before (FR n c k v a # gs)"
      using leftmost_loop_focus [OF focus_children(2) [OF f(2)] down] by auto
    have "focus_at m xs (Some n') i"
      using d(3) f(4) by (intro focus_atI' [OF f(2,3) d(2)]) simp
    then show ?thesis using step down d(1) focus_at_less by auto
  next
    case root
    then show ?thesis using step f(4) len by simp
  next
    case up
    have t: "?t \<noteq> Leaf" "k \<in> fst ` set (inorder ?t)" by simp_all
    from climb_next_focus [OF assms(2) f(7) f(2) t(1) f(5,6) t(2)]
    show ?thesis
    proof (elim disjE exE conjE, goal_cases last found)
      case last
      then show ?case using step up len by simp
    next
      case (found hs n' c' k' v' a' b')
      have "focus_at m xs (Some n') i"
        using found(3) f(4) up by (intro focus_atI' [OF f(2,3) found(2)]) simp
      then show ?case using step up found(1) focus_at_less by auto
    qed
  qed
next
  case End
  then show ?thesis using assms(3) by (simp add: Next_def it_index_def [of m xs ite])
qed

lemma Prev_is_map:
  assumes "is_map K rank m xs" and "Comparator m = cmp" and "it_index m xs ite i"
  shows "\<exists>r. Prev m ite = Some r \<and> snd r = (1 < i) \<and> it_index m xs (fst r) (i - 1)"
proof (cases "it_position ite")
  case End
  then have idx: "i = Suc (length xs)" using assms(3) by (simp add: it_index_def)
  from assms(1) obtain t where t: "rep m t" "inorder t = xs" and root: "Root m = rootp t"
    by (auto simp: is_map_def rep_def)
  have "rep m (plug [] t)" using t by simp
  from right_loop_focus [OF this, of None] show ?thesis
  proof (elim disjE exE conjE, goal_cases empty found)
    case (found gs n c k v a)
    then have "t = plug gs (Br n c k v a Leaf)" "xs = (before gs @ inorder a) @ [(k, v)]"
      using t(2) by (auto simp: inorder_plug)
    then have "focus_at m xs (Some n) (length xs - 1)" "xs \<noteq> []"
      using focus_atI' [OF t, of gs n c k v a Leaf] by simp_all
    then show ?case
      using found(1) root idx End
      by (auto simp: Prev_def Map_Right_def intro!: exI [of _ "length xs - 1"])
  qed (use t(2) root idx End in \<open>auto simp: Prev_def Map_Right_def\<close>)
next
  case Between
  obtain gs n c k v a b where f: "it_node ite = Some n" "rep m (plug gs (Br n c k v a b))"
    "inorder (plug gs (Br n c k v a b)) = xs" "i = Suc (length (before gs @ inorder a))"
    "ranked rank (inorder (plug gs (Br n c k v a b)))"
    "fst ` set (inorder (plug gs (Br n c k v a b))) \<subseteq> K" "k \<in> K"
    by (rule it_index_Between [OF assms(1,3) Between])
  let ?t = "Br n c k v a b"
  have step: "Prev m ite = (if a \<noteq> Leaf then map_option at_node (maximum_loop m (rootp a))
      else if gs \<noteq> [] then map_option (\<lambda>p. if p = None then at_begin else at_node p)
        (climb_loop (\<lambda>c. c \<ge> 0) m k (rootp ?t))
      else Some at_begin)"
    using deref_node [OF f(2)] f(1) Between
    by (cases gs) (simp_all add: Prev_def bind_Some_map cong del: bind_weak_cong if_weak_cong)
  consider (down) "a \<noteq> Leaf" | (root) "a = Leaf" "gs = []" | (up) "a = Leaf" "gs \<noteq> []" by blast
  then show ?thesis
  proof cases
    case down
    obtain hs n' c' k' v' a' where d: "maximum_loop m (rootp a) = Some (Some n')"
      "plug gs ?t = plug hs (Br n' c' k' v' a' Leaf)" "after hs = after (FL n c k v b # gs)"
      using rightmost_loop_focus [OF focus_children(1) [OF f(2)] down] by auto
    have "length (inorder (plug gs ?t)) = length (inorder (plug hs (Br n' c' k' v' a' Leaf)))"
      using d(2) by (rule arg_cong)
    then have i: "i = Suc (Suc (length (before hs @ inorder a')))"
      using d(3) f(4) by (simp add: inorder_plug)
    then have "focus_at m xs (Some n') (i - 2)"
      by (intro focus_atI' [OF f(2,3) d(2)]) simp
    then show ?thesis
      using step down d(1) i by auto
  next
    case root
    then show ?thesis using step f(4) by simp
  next
    case up
    have t: "?t \<noteq> Leaf" "k \<in> fst ` set (inorder ?t)" by simp_all
    from climb_prev_focus [OF assms(2) f(7) f(2) t(1) f(5,6) t(2)]
    show ?thesis
    proof (elim disjE exE conjE, goal_cases last found)
      case last
      then show ?case using step up f(4) by simp
    next
      case (found hs n' c' k' v' a' b')
      then have i: "i = Suc (Suc (length (before hs @ inorder a')))" using f(4) up by simp
      then have "focus_at m xs (Some n') (i - 2)"
        by (intro focus_atI' [OF f(2,3) found(2)]) simp
      then show ?case using step up found(1) i by auto
    qed
  qed
next
  case Begin
  then show ?thesis using assms(3) by (simp add: Prev_def it_index_def [of m xs ite])
qed

text \<open>What \<open>Key\<close> and \<open>Value\<close> read where \<open>Next\<close> or \<open>Prev\<close> answered true.\<close>

lemma It_read:
  assumes "it_index m xs ite (Suc i)" and "i < length xs"
  shows "It_Key m ite = Some (fst (xs ! i))" "It_Value m ite = Some (snd (xs ! i))"
proof -
  have "focus_at m xs (it_node ite) i"
    using assms by (auto simp: it_index_def split: position.splits)
  then obtain n where "deref m (it_node ite) = Some n" "(Key n, Value n) = xs ! i"
    using focus_at_read by blast
  then show "It_Key m ite = Some (fst (xs ! i))" "It_Value m ite = Some (snd (xs ! i))"
    by (auto simp: It_Key_def It_Value_def prod_eq_iff)
qed

section \<open>The walks\<close>

text \<open>Filling from index \<open>i\<close> on writes the rest of the entries.\<close>

lemma fill_loop_is_map:
  assumes "is_map K rank m xs" and "Comparator m = cmp"
    and "\<And>it j. it_index m xs it (Suc j) \<Longrightarrow> j < length xs \<Longrightarrow> read it = Some (f (xs ! j))"
    and "it_index m xs it i" and "i \<le> length xs" and "length out = length xs"
  shows "fill_loop read m it i out = Some (take i out @ map (Some \<circ> f) (drop i xs))"
  using assms(4-6)
proof (induction "length xs - i" arbitrary: it i out)
  case 0
  then have "i = length xs" by simp
  then show ?case
    using Next_is_map [OF assms(1,2) 0(2)] 0(4) by (subst fill_loop.simps) auto
next
  case (Suc d)
  then have i: "i < length xs" by simp
  then obtain r where r: "Next m it = Some r" "snd r" "it_index m xs (fst r) (Suc i)"
    using Next_is_map [OF assms(1,2) Suc(3)] by auto
  have "fill_loop read m it i out = fill_loop read m (fst r) (Suc i) (out[i := Some (f (xs ! i))])"
    using r assms(3) [OF r(3) i] i Suc.prems(3) by (subst fill_loop.simps) (cases r, simp)
  also have "\<dots> = Some (take (Suc i) (out[i := Some (f (xs ! i))]) @ map (Some \<circ> f) (drop (Suc i) xs))"
    using Suc i r by (intro Suc(1)) auto
  also have "\<dots> = Some (take i out @ map (Some \<circ> f) (drop i xs))"
    using i Suc.prems(3) by (simp add: take_Suc_conv_app_nth Cons_nth_drop_Suc [symmetric])
  finally show ?case .
qed

lemma Keys_is_map:
  assumes "is_map K rank m xs" and "Comparator m = cmp"
  shows "Keys m = Some (map (Some \<circ> fst) xs)"
proof -
  have "msize m = int (length xs)" using assms(1) by (simp add: is_map_def)
  then show ?thesis
    using fill_loop_is_map [OF assms, of "It_Key m" fst New_Iterator 0 "replicate (length xs) None"]
    by (simp add: Keys_def It_read)
qed

lemma Values_is_map:
  assumes "is_map K rank m xs" and "Comparator m = cmp"
  shows "Values m = Some (map (Some \<circ> snd) xs)"
proof -
  have "msize m = int (length xs)" using assms(1) by (simp add: is_map_def)
  then show ?thesis
    using fill_loop_is_map [OF assms, of "It_Value m" snd New_Iterator 0 "replicate (length xs) None"]
    by (simp add: Values_def It_read)
qed

end

text \<open>The drawing: one line per entry, the greatest key first, whatever the indentation.\<close>

definition drawn :: "('k \<Rightarrow> string) \<Rightarrow> string list \<Rightarrow> ('k \<times> 'v) list \<Rightarrow> string" where
  "drawn fmt pres xs = concat (map2 (\<lambda>pre p. pre @ fmt (fst p) @ newline) pres (rev xs))"

lemma drawn_append:
  "length ps = length ys \<Longrightarrow> drawn fmt (ps @ qs) (xs @ ys) = drawn fmt ps ys @ drawn fmt qs xs"
  by (simp add: drawn_def)

lemma draw_focus:
  assumes "rep m (plug fs t)" and "t \<noteq> Leaf"
  shows "\<exists>pres. length pres = length (inorder t)
    \<and> draw fmt m (rootp t) prefix isTail str = Some (str @ drawn fmt pres (inorder t))"
  using assms
proof (induction t arbitrary: fs prefix isTail str)
  case Leaf
  then show ?case by simp
next
  case (Br n c k v a b)
  have up: "\<exists>pres. length pres = length (inorder b)
      \<and> (if b \<noteq> Leaf then draw fmt m (rootp b) pre tl s else Some s) = Some (s @ drawn fmt pres (inorder b))"
    for pre tl s
    using Br.IH(2) [OF focus_children(2) [OF Br.prems(1)]] by (cases "b = Leaf") (auto simp: drawn_def)
  have low: "\<exists>pres. length pres = length (inorder a)
      \<and> (if a \<noteq> Leaf then draw fmt m (rootp a) pre tl s else Some s) = Some (s @ drawn fmt pres (inorder a))"
    for pre tl s
    using Br.IH(1) [OF focus_children(1) [OF Br.prems(1)]] by (cases "a = Leaf") (auto simp: drawn_def)
  let ?here = "prefix @ (if isTail then tail_branch else head_branch)"
  obtain ps where ps: "length ps = length (inorder b)"
    "(if b \<noteq> Leaf then draw fmt m (rootp b) (prefix @ (if isTail then bar else ''    '')) False str else Some str)
      = Some (str @ drawn fmt ps (inorder b))"
    using up by blast
  obtain qs where qs: "length qs = length (inorder a)"
    "(if a \<noteq> Leaf then draw fmt m (rootp a) (prefix @ (if isTail then ''    '' else bar)) True
        ((str @ drawn fmt ps (inorder b)) @ ?here @ fmt k @ newline)
      else Some ((str @ drawn fmt ps (inorder b)) @ ?here @ fmt k @ newline))
      = Some (((str @ drawn fmt ps (inorder b)) @ ?here @ fmt k @ newline) @ drawn fmt qs (inorder a))"
    using low by blast
  have step: "draw fmt m (Some n) prefix isTail str = do {
      str1 \<leftarrow> (if b \<noteq> Leaf then draw fmt m (rootp b) (prefix @ (if isTail then bar else ''    '')) False str
        else Some str);
      (if a \<noteq> Leaf then draw fmt m (rootp a) (prefix @ (if isTail then ''    '' else bar)) True
          (str1 @ ?here @ fmt k @ newline)
        else Some (str1 @ ?here @ fmt k @ newline)) }"
    using deref_node [OF Br.prems(1)]
    by (subst draw.simps) (simp add: Let_def del: not_None_eq cong del: bind_weak_cong if_weak_cong)
  have run: "draw fmt m (Some n) prefix isTail str =
      Some (str @ drawn fmt ps (inorder b) @ (?here @ fmt k @ newline) @ drawn fmt qs (inorder a))"
    unfolding step ps(2) bind.bind_lunit qs(2) by simp
  have "drawn fmt (ps @ ?here # qs) (inorder a @ (k, v) # inorder b)
      = drawn fmt ps (inorder b) @ (?here @ fmt k @ newline) @ drawn fmt qs (inorder a)"
    using ps(1) qs(1) by (simp add: drawn_def)
  then show ?case
    using run ps(1) qs(1) by (intro exI [of _ "ps @ ?here # qs"]) simp
qed

lemma String_is_map:
  assumes "is_map K rank m xs"
  shows "\<exists>pres. length pres = length xs
    \<and> Map_String fmt m = Some (''RedBlackTree'' @ newline @ drawn fmt pres xs)"
proof -
  from assms obtain t where t: "rep m t" "inorder t = xs" and root: "Root m = rootp t"
    by (auto simp: is_map_def rep_def)
  have "rep m (plug [] t)" using t by simp
  then show ?thesis
    using draw_focus [of m "[]" t fmt "[]" True "''RedBlackTree'' @ newline"] Empty_is_map [OF assms] t(2) root
    by (cases "t = Leaf") (auto simp: Map_String_def drawn_def)
qed

end
