(* ===== verification/MapsSpec.thy ===== *)
theory MapsSpec
  imports MapsIter Strings "HOL-Library.AList"
begin

text \<open>
  What the package \<open>maps\<close> promises its callers: a refinement of finite dictionaries, the
  behaviour of each method, and \<open>serialization.go\<close> on top of them.
\<close>

section \<open>Refinement of a dictionary\<close>

datatype ('k, 'v) map_op = PutOp 'k 'v | RemoveOp 'k | ClearOp

fun map_run :: "('k, 'v) Map \<Rightarrow> ('k, 'v) map_op list \<Rightarrow> ('k, 'v) Map option" where
  "map_run m [] = Some m"
| "map_run m (PutOp k v # ops) = do { m1 \<leftarrow> Put m k v; map_run m1 ops }"
| "map_run m (RemoveOp k # ops) = do { m1 \<leftarrow> Remove m k; map_run m1 ops }"
| "map_run m (ClearOp # ops) = map_run (Clear m) ops"

text \<open>The abstract dictionary: a finite map from the ranks of the keys.\<close>

fun dict_run :: "('k \<Rightarrow> 'o) \<Rightarrow> ('o \<rightharpoonup> 'v) \<Rightarrow> ('k, 'v) map_op list \<Rightarrow> ('o \<rightharpoonup> 'v)" where
  "dict_run rank d [] = d"
| "dict_run rank d (PutOp k v # ops) = dict_run rank (d(rank k \<mapsto> v)) ops"
| "dict_run rank d (RemoveOp k # ops) = dict_run rank (d(rank k := None)) ops"
| "dict_run rank d (ClearOp # ops) = dict_run rank Map.empty ops"

fun op_keys :: "('k, 'v) map_op \<Rightarrow> 'k set" where
  "op_keys (PutOp k v) = {k}"
| "op_keys (RemoveOp k) = {k}"
| "op_keys ClearOp = {}"

definition dict_of :: "('k \<Rightarrow> 'o) \<Rightarrow> ('k \<times> 'v) list \<Rightarrow> ('o \<rightharpoonup> 'v)" where
  "dict_of rank xs = map_of (map (\<lambda>p. (rank (fst p), snd p)) xs)"

lemma dict_of_Nil [simp]: "dict_of rank [] = Map.empty"
  by (simp add: dict_of_def)

lemma dict_of_find: "dict_of rank xs (rank k) = map_option snd (find_list rank k xs)"
  by (induction xs) (auto simp: dict_of_def find_list_def)

lemma dict_of_upd:
  "ranked rank xs \<Longrightarrow> dict_of rank (upd_list rank k v xs) = (dict_of rank xs)(rank k \<mapsto> v)"
proof (induction xs)
  case Nil
  then show ?case by (simp add: dict_of_def)
next
  case (Cons p ps)
  then show ?case by (auto simp: dict_of_def fun_eq_iff)
qed

lemma dict_of_del:
  "dict_of rank (del_list rank k xs) = (dict_of rank xs)(rank k := None)"
  by (induction xs) (auto simp: dict_of_def del_list_def fun_eq_iff)

context comparator_order begin

lemma map_run_is_map:
  assumes "is_map K rank m xs" and "Comparator m = cmp" and "\<Union> (op_keys ` set ops) \<subseteq> K"
  shows "\<exists>m' ys. map_run m ops = Some m' \<and> is_map K rank m' ys \<and> Comparator m' = cmp
    \<and> dict_of rank ys = dict_run rank (dict_of rank xs) ops"
  using assms
proof (induction ops arbitrary: m xs)
  case Nil
  then show ?case by auto
next
  case (Cons op ops)
  show ?case
  proof (cases op)
    case (PutOp k v)
    then obtain m1 where "Put m k v = Some m1" "is_map K rank m1 (upd_list rank k v xs)" "Comparator m1 = cmp"
      using Put_is_map [OF Cons.prems(1,2), of k v] Cons.prems(3) by auto
    then show ?thesis
      using Cons.IH [of m1 "upd_list rank k v xs"] Cons.prems PutOp is_map_sorted [OF Cons.prems(1)]
      by (simp add: dict_of_upd fun_upd_def)
  next
    case (RemoveOp k)
    then obtain m1 where "Remove m k = Some m1" "is_map K rank m1 (del_list rank k xs)" "Comparator m1 = cmp"
      using Remove_is_map [OF Cons.prems(1,2), of k] Cons.prems(3) by auto
    then show ?thesis
      using Cons.IH [of m1 "del_list rank k xs"] Cons.prems RemoveOp by (simp add: dict_of_del fun_upd_def)
  next
    case ClearOp
    then show ?thesis
      using Cons.IH [of "Clear m" "[]"] Cons.prems Clear_is_map [OF Cons.prems(1)] by (simp add: Clear_def)
  qed
qed

end

lemma is_map_comparator: "is_map K rank m xs \<Longrightarrow> comparator_order (Comparator m) K rank"
  by (simp add: is_map_def)

section \<open>Serialization\<close>

text \<open>
  \<open>ToString\<close>: integers in decimal (\<open>%+v\<close> prints \<open>int\<close> and \<open>uint\<close> without a sign for
  non-negative values); \<open>fmt_float\<close> is \<open>strconv.FormatFloat(_, 'g', -1, 64)\<close>, \<open>widen\<close> the
  conversion from \<open>float32\<close>, \<open>fmt_time\<close> what \<open>%+v\<close> prints for a \<open>time.Time\<close>.
\<close>

definition FormatBool :: "bool \<Rightarrow> string" where
  "FormatBool b = (if b then ''true'' else ''false'')"

definition ToString ::
    "(u64 \<Rightarrow> string) \<Rightarrow> (u32 \<Rightarrow> u64) \<Rightarrow> (int \<Rightarrow> string) \<Rightarrow> iface \<Rightarrow> string" where
  "ToString fmt_float widen fmt_time value = (case value of
     IString s \<Rightarrow> s
   | IInt8 x \<Rightarrow> Itoa (sint x)
   | IInt16 x \<Rightarrow> Itoa (sint x)
   | IInt32 x \<Rightarrow> Itoa (sint x)
   | IInt64 x \<Rightarrow> Itoa (sint x)
   | IUInt8 x \<Rightarrow> FormatUint (unat x)
   | IUInt16 x \<Rightarrow> FormatUint (unat x)
   | IUInt32 x \<Rightarrow> FormatUint (unat x)
   | IUInt64 x \<Rightarrow> FormatUint (unat x)
   | IFloat32 x \<Rightarrow> fmt_float (widen x)
   | IFloat64 x \<Rightarrow> fmt_float x
   | IBool b \<Rightarrow> FormatBool b
   | IInt x \<Rightarrow> Itoa (sint x)
   | IUInt x \<Rightarrow> FormatUint (unat x)
   | ITime t \<Rightarrow> fmt_time t
   | INil \<Rightarrow> ''<nil>'')"

text \<open>
  \<open>ToJSON\<close> collects the entries in a Go map from printed keys; \<open>marshal\<close> is \<open>json.Marshal\<close>
  of that map, \<open>pr\<close> the function \<open>ToString\<close>. What the library answers is returned, an error (\<open>Inl\<close>) as well.
\<close>

partial_function (option) elements_loop ::
    "('k \<Rightarrow> string) \<Rightarrow> ('k, 'v) Map \<Rightarrow> Iterator \<Rightarrow> (string \<times> 'v) list \<Rightarrow> (string \<times> 'v) list option" where
  "elements_loop pr m it elements = do {
     (it1, more) \<leftarrow> Next m it;
     if more then do {
       v \<leftarrow> It_Value m it1;
       k \<leftarrow> It_Key m it1;
       elements_loop pr m it1 (AList.update (pr k) v elements)
     }
     else Some elements
   }"

lemmas elements_code [code] = elements_loop.simps

definition ToJSON :: "('k \<Rightarrow> string) \<Rightarrow> ((string \<times> 'v) list \<Rightarrow> 'e + 'd) \<Rightarrow> ('k, 'v) Map \<Rightarrow> ('e + 'd) option" where
  "ToJSON pr marshal tree = do {
     elements \<leftarrow> elements_loop pr tree New_Iterator [];
     Some (marshal elements)
   }"

text \<open>
  \<open>FromJSON\<close>: \<open>unmarshal\<close> is \<open>json.Unmarshal\<close> into a Go map, whose iteration order is that of
  the list; \<open>Inl\<close> is its error.
\<close>

fun put_all :: "(iface, 'v) Map \<Rightarrow> (string \<times> 'v) list \<Rightarrow> (iface, 'v) Map option" where
  "put_all m [] = Some m"
| "put_all m ((key, value) # ps) = do { m1 \<leftarrow> Put m (IString key) value; put_all m1 ps }"

definition FromJSON ::
    "('d \<Rightarrow> 'e + (string \<times> 'v) list) \<Rightarrow> (iface, 'v) Map \<Rightarrow> 'd \<Rightarrow> ((iface, 'v) Map \<times> 'e option) option" where
  "FromJSON unmarshal tree data = (case unmarshal data of
     Inl err \<Rightarrow> Some (tree, Some err)
   | Inr elements \<Rightarrow> do { m \<leftarrow> put_all (Clear tree) elements; Some (m, None) })"

lemma put_all_run: "put_all m ps = map_run m (map (\<lambda>(k, v). PutOp (IString k) v) ps)"
  by (induction m ps rule: put_all.induct) (auto cong del: bind_weak_cong cong: Option.bind_cong)

context comparator_order begin

lemma elements_loop_is_map:
  assumes "is_map K rank m xs" and "Comparator m = cmp" and "it_index m xs it i" and "i \<le> length xs"
  shows "elements_loop pr m it es = Some (foldl (\<lambda>es p. AList.update (pr (fst p)) (snd p) es) es (drop i xs))"
  using assms(3,4)
proof (induction "length xs - i" arbitrary: it i es)
  case 0
  then have "i = length xs" by simp
  then show ?case
    using Next_is_map [OF assms(1,2) 0(2)] by (subst elements_loop.simps) auto
next
  case (Suc d)
  then have i: "i < length xs" by simp
  then obtain r where r: "Next m it = Some r" "snd r" "it_index m xs (fst r) (Suc i)"
    using Next_is_map [OF assms(1,2) Suc(3)] by auto
  have "elements_loop pr m it es
      = elements_loop pr m (fst r) (AList.update (pr (fst (xs ! i))) (snd (xs ! i)) es)"
    using r It_read [OF r(3) i] by (subst elements_loop.simps) (cases r, simp)
  also have "\<dots> = Some (foldl (\<lambda>es p. AList.update (pr (fst p)) (snd p) es)
      (AList.update (pr (fst (xs ! i))) (snd (xs ! i)) es) (drop (Suc i) xs))"
    using Suc i r by (intro Suc(1)) auto
  finally show ?case using i by (simp add: Cons_nth_drop_Suc [symmetric])
qed

end

text \<open>A sorted list of entries is determined by its dictionary, when ranks identify keys.\<close>

lemma dict_of_Cons: "dict_of rank (p # ps) = (dict_of rank ps)(rank (fst p) \<mapsto> snd p)"
  by (simp add: dict_of_def)

lemma dict_of_below: "\<forall>q \<in> set ps. r < rank (fst q) \<Longrightarrow> dict_of rank ps (r :: 'o :: linorder) = None"
  by (induction ps) (auto simp: dict_of_Cons)

lemma dict_of_inject:
  assumes "ranked rank xs" and "ranked rank ys" and "inj_on rank K"
    and "fst ` set xs \<subseteq> K" and "fst ` set ys \<subseteq> K" and "dict_of rank xs = dict_of rank ys"
  shows "xs = ys"
  using assms(1,2,4-)
proof (induction xs arbitrary: ys)
  case Nil
  show ?case
  proof (cases ys)
    case (Cons q qs)
    then have "dict_of rank ys (rank (fst q)) \<noteq> None" by (simp add: dict_of_Cons)
    with Nil.prems(5) show ?thesis by (metis dict_of_Nil)
  qed simp
next
  case (Cons p ps)
  have "dict_of rank (p # ps) (rank (fst p)) \<noteq> None" by (simp add: dict_of_Cons)
  then have "ys \<noteq> []" using Cons.prems(5) by auto
  then obtain q qs where ys: "ys = q # qs" by (cases ys) auto
  have eq: "(dict_of rank ps)(rank (fst p) \<mapsto> snd p) = (dict_of rank qs)(rank (fst q) \<mapsto> snd q)"
    using Cons.prems(5) unfolding ys dict_of_Cons .
  have low: "dict_of rank ps r = None" if "r \<le> rank (fst p)" for r
    using Cons.prems(1) that by (intro dict_of_below) auto
  have low': "dict_of rank qs r = None" if "r \<le> rank (fst q)" for r
    using Cons.prems(2) that ys by (intro dict_of_below) auto
  have r: "rank (fst p) = rank (fst q)"
  proof (rule ccontr)
    assume ne: "rank (fst p) \<noteq> rank (fst q)"
    then have "rank (fst p) < rank (fst q) \<or> rank (fst q) < rank (fst p)" by auto
    then show False
      using fun_cong [OF eq, of "rank (fst p)"] fun_cong [OF eq, of "rank (fst q)"]
        low [of "rank (fst q)"] low' [of "rank (fst p)"] ne
      by (elim disjE) simp_all
  qed
  moreover have "fst p \<in> K" "fst q \<in> K" using Cons.prems(3,4) ys by auto
  ultimately have "fst p = fst q" using inj_onD [OF assms(3)] by blast
  moreover have "snd p = snd q" using fun_cong [OF eq, of "rank (fst p)"] r by simp
  moreover have "dict_of rank ps = dict_of rank qs"
  proof
    fix x
    show "dict_of rank ps x = dict_of rank qs x"
      using fun_cong [OF eq, of x] r low [of x] low' [of x] by (auto split: if_splits)
  qed
  then have "ps = qs" using Cons.IH [of qs] Cons.prems ys by simp
  ultimately show ?case using ys by (simp add: prod_eq_iff)
qed

lemma inj_str_rank: "inj_on str_rank (range IString)"
  by (auto simp: inj_on_def)

text \<open>What \<open>ToJSON\<close> collects and \<open>FromJSON\<close> puts back, as dictionaries.\<close>

lemma collected:
  "distinct (map fst es) \<Longrightarrow>
    distinct (map fst (foldl (\<lambda>es p. AList.update (pr (fst p)) (snd p) es) es xs))
    \<and> map_of (foldl (\<lambda>es p. AList.update (pr (fst p)) (snd p) es) es xs)
      = foldl (\<lambda>d p. d(pr (fst p) \<mapsto> snd p)) (map_of es) xs"
  by (induction xs arbitrary: es) (simp_all add: distinct_update update_conv')

lemma collected_dict:
  "ranked str_rank xs \<Longrightarrow> fst ` set xs \<subseteq> range IString \<Longrightarrow> \<forall>s. pr (IString s) = s \<Longrightarrow>
    foldl (\<lambda>d p. d(pr (fst p) \<mapsto> snd p)) d xs = d ++ dict_of str_rank xs"
proof (induction xs arbitrary: d)
  case Nil
  then show ?case by simp
next
  case (Cons p ps)
  then obtain s where p: "fst p = IString s" by auto
  have "dict_of str_rank ps s = None"
    using Cons.prems(1) p by (intro dict_of_below) auto
  then show ?case
    using Cons p by (auto simp: dict_of_Cons map_add_def fun_eq_iff split: option.splits)
qed

lemma dict_run_puts:
  "distinct (map fst fs) \<Longrightarrow> dict_run str_rank d (map (\<lambda>(k, v). PutOp (IString k) v) fs) = d ++ map_of fs"
proof (induction fs arbitrary: d)
  case Nil
  then show ?case by simp
next
  case (Cons p fs)
  have "map_of fs (fst p) = None" using Cons.prems by (auto simp: map_of_eq_None_iff)
  then show ?case
    using Cons by (auto simp: map_add_def fun_eq_iff split: prod.splits option.splits)
qed

section \<open>Properties\<close>

text \<open>A map with two entries, for the instances below.\<close>

lemma example_map:
  obtains m where "is_map (range IInt) num_rank m [(IInt 3, ''c''), (IInt 7, ''g'')]"
    "Comparator m = IntComparator"
    "map_run NewWithIntComparator [PutOp (IInt 7) ''g'', PutOp (IInt 3) ''c''] = Some m"
proof -
  have 0: "is_map (range IInt) num_rank (NewWithIntComparator :: (iface, string) Map) []"
    "Comparator (NewWithIntComparator :: (iface, string) Map) = IntComparator"
    using int_cmp.New_is_map by (auto simp: NewWithIntComparator_def NewWith_def)
  obtain m1 where 1: "Put NewWithIntComparator (IInt 7) ''g'' = Some m1"
    "is_map (range IInt) num_rank m1 [(IInt 7, ''g'')]" "Comparator m1 = IntComparator"
    using int_cmp.Put_is_map [OF 0, of "IInt 7" "''g''"] by auto
  obtain m where 2: "Put m1 (IInt 3) ''c'' = Some m"
    "is_map (range IInt) num_rank m [(IInt 3, ''c''), (IInt 7, ''g'')]" "Comparator m = IntComparator"
    using int_cmp.Put_is_map [OF 1(2,3), of "IInt 3" "''c''"] by auto
  show thesis using 1(1) 2(1) by (intro that [OF 2(2,3)]) simp
qed

text \<open>
  C1. Refinement: under a comparator that is a total order on the keys, any sequence of \<open>Put\<close>,
  \<open>Remove\<close> and \<open>Clear\<close> on a new map returns, keeps the red-black tree well-formed, and leaves
  \<open>Get\<close> answering what a dictionary answers after the same operations.
\<close>

theorem Map_refines_dictionary:
  assumes "comparator_order cmp K rank" and "\<Union> (op_keys ` set ops) \<subseteq> K"
  shows "\<exists>m xs. map_run (NewWith cmp) ops = Some m \<and> is_map K rank m xs
    \<and> (\<forall>k \<in> K. Get m k = Some (dict_run rank Map.empty ops (rank k)))"
proof -
  note New = comparator_order.New_is_map [OF assms(1)]
  have cmp: "Comparator (NewWith cmp) = cmp" by (simp add: NewWith_def)
  from comparator_order.map_run_is_map [OF assms(1) New cmp assms(2)] obtain m ys where
    m: "map_run (NewWith cmp) ops = Some m" "is_map K rank m ys" "Comparator m = cmp"
      "dict_of rank ys = dict_run rank Map.empty ops"
    by auto
  have "Get m k = Some (dict_run rank Map.empty ops (rank k))" if "k \<in> K" for k
    using comparator_order.Get_is_map [OF assms(1) m(2,3) that]
    by (simp add: m(4) [symmetric] dict_of_find)
  then show ?thesis using m by blast
qed

theorem Map_refines_dictionary_witness:
  "\<exists>m. map_run (NewWith UInt32Comparator) [PutOp (IUInt32 5) ''a'', PutOp (IUInt32 2) ''b'', RemoveOp (IUInt32 5)]
      = Some m
    \<and> Get m (IUInt32 2) = Some (Some ''b'') \<and> Get m (IUInt32 5) = Some None"
  using Map_refines_dictionary [OF uint32_cmp.comparator_order_axioms,
      of "[PutOp (IUInt32 5) ''a'', PutOp (IUInt32 2) ''b'', RemoveOp (IUInt32 5)]"]
  by fastforce

text \<open>
  \<open>Put\<close> returns a well-formed map whose entries are the old ones with the key's entry
  inserted in order, or overwritten, key included, when its rank is there.
\<close>

theorem Put_updates_entries:
  assumes "is_map K rank m xs" and "key \<in> K"
  shows "\<exists>m'. Put m key value = Some m' \<and> is_map K rank m' (upd_list rank key value xs)"
  using comparator_order.Put_is_map [OF is_map_comparator [OF assms(1)] assms(1) refl assms(2)] by blast

theorem Put_updates_entries_witness:
  "\<exists>m m'. map_run NewWithIntComparator [PutOp (IInt 7) ''g'', PutOp (IInt 3) ''c''] = Some m
    \<and> Put m (IInt 5) ''e'' = Some m'
    \<and> is_map (range IInt) num_rank m' [(IInt 3, ''c''), (IInt 5, ''e''), (IInt 7, ''g'')]"
proof -
  obtain m where m: "is_map (range IInt) num_rank m [(IInt 3, ''c''), (IInt 7, ''g'')]"
    "map_run NewWithIntComparator [PutOp (IInt 7) ''g'', PutOp (IInt 3) ''c''] = Some m"
    by (rule example_map)
  from Put_updates_entries [OF m(1), of "IInt 5" "''e''"] m(2) show ?thesis by auto
qed

text \<open>
  C24. \<open>Remove\<close> returns a well-formed map without the entry of the key's rank and with all others;
  removing an absent key changes nothing.
\<close>

theorem Remove_deletes_entry:
  assumes "is_map K rank m xs" and "key \<in> K"
  shows "\<exists>m'. Remove m key = Some m' \<and> is_map K rank m' (del_list rank key xs)
    \<and> (find_list rank key xs = None \<longrightarrow> m' = m)"
proof -
  note cmp = is_map_comparator [OF assms(1)]
  obtain m' where m': "Remove m key = Some m'" "is_map K rank m' (del_list rank key xs)"
    using comparator_order.Remove_is_map [OF cmp assms(1) refl assms(2)] by blast
  have "m' = m" if "find_list rank key xs = None"
  proof -
    have "Get m key = Some None"
      using comparator_order.Get_is_map [OF cmp assms(1) refl assms(2)] that by simp
    then have "lookup m key = Some None" by (auto simp: Get_def split: bind_splits if_splits)
    then show ?thesis using m'(1) by (simp add: Remove_def)
  qed
  with m' show ?thesis by (intro exI [of _ m']) simp
qed

theorem Remove_deletes_entry_witness:
  "\<exists>m m'. map_run NewWithIntComparator [PutOp (IInt 7) ''g'', PutOp (IInt 3) ''c''] = Some m
    \<and> Remove m (IInt 7) = Some m' \<and> is_map (range IInt) num_rank m' [(IInt 3, ''c'')]"
proof -
  obtain m where m: "is_map (range IInt) num_rank m [(IInt 3, ''c''), (IInt 7, ''g'')]"
    "map_run NewWithIntComparator [PutOp (IInt 7) ''g'', PutOp (IInt 3) ''c''] = Some m"
    by (rule example_map)
  from Remove_deletes_entry [OF m(1), of "IInt 7"] m(2) show ?thesis by (auto simp: del_list_def)
qed

text \<open>
  C26. \<open>Ceiling\<close> finds the first entry, in key order, that is not below the key, and \<open>Floor\<close> the last
  that is not above it; they report not found exactly when there is none.
\<close>

theorem Ceiling_Floor_find_neighbours:
  assumes "is_map K rank m xs" and "key \<in> K"
  shows "\<exists>c f. Ceiling m key = Some c \<and> entry m c = Some (List.find (\<lambda>p. rank key \<le> rank (fst p)) xs)
    \<and> Floor m key = Some f \<and> entry m f = Some (List.find (\<lambda>p. rank (fst p) \<le> rank key) (rev xs))"
proof -
  note cmp = is_map_comparator [OF assms(1)]
  show ?thesis
    using comparator_order.Ceiling_is_map [OF cmp assms(1) refl assms(2)]
      comparator_order.Floor_is_map [OF cmp assms(1) refl assms(2)] by blast
qed

theorem Ceiling_Floor_find_neighbours_witness:
  "\<exists>m c f. map_run NewWithIntComparator [PutOp (IInt 7) ''g'', PutOp (IInt 3) ''c''] = Some m
    \<and> Ceiling m (IInt 5) = Some c \<and> entry m c = Some (Some (IInt 7, ''g''))
    \<and> Floor m (IInt 5) = Some f \<and> entry m f = Some (Some (IInt 3, ''c''))"
proof -
  obtain m where m: "is_map (range IInt) num_rank m [(IInt 3, ''c''), (IInt 7, ''g'')]"
    "map_run NewWithIntComparator [PutOp (IInt 7) ''g'', PutOp (IInt 3) ''c''] = Some m"
    by (rule example_map)
  from Ceiling_Floor_find_neighbours [OF m(1), of "IInt 5"] m(2) show ?thesis by auto
qed

text \<open>
  C27. The iterator: \<open>Next\<close> moves the cursor one entry forward and answers whether it is on an entry,
  \<open>Prev\<close> one entry back; at the ends both stay. Neither panics or loops.
\<close>

theorem Iterator_moves_by_one:
  assumes "is_map K rank m xs" and "it_index m xs ite i"
  shows "\<exists>n p. Next m ite = Some n \<and> snd n = (i < length xs)
    \<and> it_index m xs (fst n) (min (Suc i) (Suc (length xs)))
    \<and> Prev m ite = Some p \<and> snd p = (1 < i) \<and> it_index m xs (fst p) (i - 1)"
proof -
  note cmp = is_map_comparator [OF assms(1)]
  show ?thesis
    using comparator_order.Next_is_map [OF cmp assms(1) refl assms(2)]
      comparator_order.Prev_is_map [OF cmp assms(1) refl assms(2)] by blast
qed

theorem Iterator_moves_by_one_witness:
  "\<exists>m n. map_run NewWithIntComparator [PutOp (IInt 7) ''g'', PutOp (IInt 3) ''c''] = Some m
    \<and> Next m New_Iterator = Some n \<and> snd n \<and> it_index m [(IInt 3, ''c''), (IInt 7, ''g'')] (fst n) 1"
proof -
  obtain m where m: "is_map (range IInt) num_rank m [(IInt 3, ''c''), (IInt 7, ''g'')]"
    "map_run NewWithIntComparator [PutOp (IInt 7) ''g'', PutOp (IInt 3) ''c''] = Some m"
    by (rule example_map)
  from Iterator_moves_by_one [OF m(1), of New_Iterator 0] m(2) show ?thesis by auto
qed

text \<open>
  \<open>Keys\<close> and \<open>Values\<close> list all entries in ascending order of the keys, \<open>Left\<close> and \<open>Right\<close> are the
  first and the last, and the drawing of \<open>String\<close> has one line per entry, the greatest first.
\<close>

theorem Keys_Values_in_order:
  assumes "is_map K rank m xs"
  shows "Keys m = Some (map (Some \<circ> fst) xs) \<and> Values m = Some (map (Some \<circ> snd) xs)
    \<and> sorted_wrt (<) (map (rank \<circ> fst) xs)
    \<and> (\<exists>l r. Map_Left m = Some l \<and> entry m l = Some (if xs = [] then None else Some (hd xs))
         \<and> Map_Right m = Some r \<and> entry m r = Some (if xs = [] then None else Some (last xs)))
    \<and> (\<exists>pres. length pres = length xs \<and> Map_String fmt m = Some (''RedBlackTree'' @ newline @ drawn fmt pres xs))"
proof -
  note cmp = is_map_comparator [OF assms]
  have "sorted_wrt (<) (map (rank \<circ> fst) xs)"
    using is_map_sorted [OF assms] by (simp add: ranked_def comp_def)
  then show ?thesis
    using comparator_order.Keys_is_map [OF cmp assms refl] comparator_order.Values_is_map [OF cmp assms refl]
      Left_is_map [OF assms] Right_is_map [OF assms] String_is_map [OF assms, of fmt] by blast
qed

theorem Keys_Values_in_order_witness:
  "\<exists>m. map_run NewWithIntComparator [PutOp (IInt 7) ''g'', PutOp (IInt 3) ''c''] = Some m
    \<and> Keys m = Some [Some (IInt 3), Some (IInt 7)] \<and> Values m = Some [Some ''c'', Some ''g'']"
proof -
  obtain m where m: "is_map (range IInt) num_rank m [(IInt 3, ''c''), (IInt 7, ''g'')]"
    "map_run NewWithIntComparator [PutOp (IInt 7) ''g'', PutOp (IInt 3) ''c''] = Some m"
    by (rule example_map)
  from Keys_Values_in_order [OF m(1), of "\<lambda>_. []"] m(2) show ?thesis by auto
qed

text \<open>Strings that are valid UTF-8 byte by byte, which the JSON library reads back as they are.\<close>

definition ascii :: "string \<Rightarrow> bool" where
  "ascii s \<longleftrightarrow> (\<forall>c \<in> set s. of_char c < (128 :: nat))"

lemma ascii_simps [simp]: "ascii []" "ascii (c # s) \<longleftrightarrow> of_char c < (128 :: nat) \<and> ascii s"
  by (simp_all add: ascii_def)

lemma dict_of_SomeD: "dict_of rank xs r = Some v \<Longrightarrow> \<exists>k. (k, v) \<in> set xs \<and> rank k = r"
  by (induction xs) (auto simp: dict_of_Cons split: if_splits)

text \<open>
  C28. \<open>FromJSON\<close> after \<open>ToJSON\<close>, between maps with ASCII strings as keys and \<open>plain\<close> values: those that the
  JSON library reads back from what it wrote (nil, booleans, finite float64 numbers, valid strings, and slices and
  maps of these). Whatever order the Go map iterates in, the entries read back are those written. What
  \<open>ToJSON\<close> answers is what the library answers for the entries, an error as well; data that the library
  rejects leaves the map as it was, with the library's error.
\<close>

theorem JSON_roundtrip:
  assumes "is_map (range IString) str_rank m xs" and "is_map (range IString) str_rank m0 ys"
    and "\<forall>(k, v) \<in> set xs. ascii (str_rank k) \<and> plain v"
    and "\<And>es :: (string \<times> 'v) list. distinct (map fst es) \<Longrightarrow> \<forall>(k, v) \<in> set es. ascii k \<and> plain v \<Longrightarrow>
      \<exists>data fs. (marshal :: _ \<Rightarrow> 'e + 'd) es = Inr data \<and> unmarshal data = Inr fs \<and> distinct (map fst fs) \<and> map_of fs = map_of es"
  shows "(\<exists>data m'. ToJSON (ToString ff fw ft) marshal m = Some (Inr data)
      \<and> FromJSON unmarshal m0 data = Some (m', None)
      \<and> is_map (range IString) str_rank m' (xs :: (iface \<times> 'v) list))
    \<and> (\<exists>es. distinct (map fst es) \<and> map_of es = dict_of str_rank xs
      \<and> (\<forall>answer. ToJSON (ToString ff fw ft) (answer :: _ \<Rightarrow> 'e + 'd) m = Some (answer es)))
    \<and> (\<forall>data err. unmarshal data = Inl err \<longrightarrow> FromJSON unmarshal m0 data = Some (m0, Some (err :: 'e)))"
proof -
  note cmp = is_map_comparator [OF assms(1)] and cmp0 = is_map_comparator [OF assms(2)]
  let ?pr = "ToString ff fw ft"
  let ?es = "foldl (\<lambda>es p. AList.update (?pr (fst p)) (snd p) es) [] xs"
  have xs: "ranked str_rank xs" "fst ` set xs \<subseteq> range IString"
    using assms(1) by (simp_all add: is_map_def)
  have data: "ToJSON ?pr answer m = Some (answer ?es)" for answer :: "_ \<Rightarrow> 'e + 'd"
    using comparator_order.elements_loop_is_map [OF cmp assms(1) refl, of New_Iterator 0 ?pr "[]"]
    by (simp add: ToJSON_def)
  have es: "distinct (map fst ?es)" "map_of ?es = dict_of str_rank xs"
    using collected [of "[]" ?pr xs] collected_dict [OF xs, of ?pr Map.empty]
    by (simp_all add: ToString_def)
  have "\<forall>(k, v) \<in> set ?es. ascii k \<and> plain v"
  proof safe
    fix k v assume "(k, v) \<in> set ?es"
    then have "dict_of str_rank xs k = Some v" using es by (metis map_of_eq_Some_iff)
    from dict_of_SomeD [OF this] assms(3) show "ascii k" "plain v" by auto
  qed
  from assms(4) [OF es(1) this] obtain data fs where fs: "marshal ?es = Inr data" "unmarshal data = Inr fs"
    "distinct (map fst fs)" "map_of fs = dict_of str_rank xs"
    unfolding es(2) by (elim exE conjE)
  let ?ops = "map (\<lambda>(k, v). PutOp (IString k) v) fs"
  have keys: "\<Union> (op_keys ` set ?ops) \<subseteq> range IString" by auto
  have "Comparator (Clear m0) = Comparator m0" by (simp add: Clear_def)
  from comparator_order.map_run_is_map [OF cmp0 Clear_is_map [OF assms(2)] this keys]
  obtain m' zs where m': "map_run (Clear m0) ?ops = Some m'" "is_map (range IString) str_rank m' zs"
    "dict_of str_rank zs = dict_of str_rank xs"
    using dict_run_puts [OF fs(3), of Map.empty] fs(4) by auto
  have "zs = xs"
    using m'(2,3) xs by (intro dict_of_inject [OF _ xs(1) inj_str_rank]) (simp_all add: is_map_def)
  then have "FromJSON unmarshal m0 data = Some (m', None)" "is_map (range IString) str_rank m' xs"
    using fs(2) m'(1,2) by (simp_all add: FromJSON_def put_all_run)
  moreover have "\<forall>data err. unmarshal data = Inl err \<longrightarrow> FromJSON unmarshal m0 data = Some (m0, Some (err :: 'e))"
    by (simp add: FromJSON_def)
  moreover have "ToJSON ?pr marshal m = Some (Inr data)" using data [of marshal] fs(1) by simp
  ultimately show ?thesis
    by (intro conjI exI [of _ data] exI [of _ m'] exI [of _ ?es] es allI data) (assumption | simp)+
qed

text \<open>A codec for booleans: every key is ended by a character that is not ASCII, the value follows.\<close>

definition pairs_enc :: "(string \<times> bool) list \<Rightarrow> string" where
  "pairs_enc es = CHR ''{'' # concat (map (\<lambda>(k, b). k @ [CHR 0x80, if b then CHR ''t'' else CHR ''f'']) es)"

fun pairs_dec :: "string \<Rightarrow> string \<Rightarrow> (string \<times> bool) list" where
  "pairs_dec k [] = []"
| "pairs_dec k [c] = []"
| "pairs_dec k (c # b # s) = (if c = CHR 0x80 then (k, b = CHR ''t'') # pairs_dec [] s else pairs_dec (k @ [c]) (b # s))"

definition pairs_read :: "string \<Rightarrow> string + (string \<times> bool) list" where
  "pairs_read s = (if s \<noteq> [] \<and> hd s = CHR ''{'' then Inr (pairs_dec [] (tl s)) else Inl ''invalid character'')"

lemma pairs_dec_key: "ascii k \<Longrightarrow> pairs_dec l (k @ CHR 0x80 # b # s) = (l @ k, b = CHR ''t'') # pairs_dec [] s"
proof (induction k arbitrary: l)
  case (Cons c k)
  then have "c \<noteq> CHR 0x80" by auto
  with Cons show ?case by (cases "k @ CHR 0x80 # b # s") auto
qed simp

lemma pairs_roundtrip: "\<forall>(k, b) \<in> set es. ascii k \<Longrightarrow> pairs_read (pairs_enc es) = Inr es"
  unfolding pairs_read_def pairs_enc_def
  by (induction es) (auto simp: pairs_dec_key)

theorem JSON_roundtrip_witness:
  "\<exists>m data m'. Put NewWithStringComparator (IString ''k'') True = Some m
    \<and> ToJSON (ToString (\<lambda>_. []) (\<lambda>_. 0) (\<lambda>_. [])) (\<lambda>es. Inr (pairs_enc es) :: string + string) m = Some (Inr data)
    \<and> FromJSON pairs_read NewWithStringComparator data = Some (m', None)
    \<and> is_map (range IString) str_rank m' [(IString ''k'', True)]
    \<and> FromJSON pairs_read NewWithStringComparator ''?'' = Some (NewWithStringComparator, Some ''invalid character'')"
proof -
  have 0: "is_map (range IString) str_rank (NewWithStringComparator :: (iface, bool) Map) []"
    using string_cmp.New_is_map by (auto simp: NewWithStringComparator_def NewWith_def)
  obtain m where m: "Put NewWithStringComparator (IString ''k'') True = Some m"
    "is_map (range IString) str_rank m [(IString ''k'', True)]"
    using string_cmp.Put_is_map [OF 0, of "IString ''k''" True]
    by (auto simp: NewWithStringComparator_def NewWith_def)
  have keys: "\<forall>(k, v :: bool) \<in> set [(IString ''k'', True)]. ascii (str_rank k) \<and> True" by simp
  have codec: "\<exists>data fs. (Inr (pairs_enc es) :: string + string) = Inr data \<and> pairs_read data = Inr fs
      \<and> distinct (map fst fs) \<and> map_of fs = map_of es"
    if "distinct (map fst es)" "\<forall>(k, v) \<in> set es. ascii k \<and> True" for es
    using pairs_roundtrip [of es] that by auto
  have "pairs_read ''?'' = Inl ''invalid character''" by (simp add: pairs_read_def)
  then show ?thesis
    using JSON_roundtrip [where plain = "\<lambda>_. True" and ff = "\<lambda>_. []" and fw = "\<lambda>_. 0" and ft = "\<lambda>_. []", OF m(2) 0 keys codec] m(1)
    by blast
qed

text \<open>
  \<open>FromJSON\<close> puts string keys only: reading a non-empty object into a map of
  \<open>NewWithIntComparator\<close> or \<open>NewWithUInt32Comparator\<close> panics, even when \<open>ToJSON\<close> of such a map
  wrote the object.
\<close>

theorem FromJSON_panics_on_numeric_maps:
  assumes "Comparator tree \<in> {IntComparator, UInt32Comparator}"
    and "unmarshal data = Inr ((key, value) # elements)"
  shows "FromJSON unmarshal tree data = None"
  using assms by (auto simp: FromJSON_def Put_def Clear_def IntComparator_def UInt32Comparator_def)

theorem FromJSON_panics_on_numeric_maps_witness:
  "\<exists>m data. map_run NewWithIntComparator [PutOp (IInt 7) ''g'', PutOp (IInt 3) ''c''] = Some m
    \<and> ToJSON (ToString (\<lambda>_. []) (\<lambda>_. 0) (\<lambda>_. [])) (\<lambda>es. Inr ''{}'' :: unit + string) m = Some (Inr data)
    \<and> FromJSON (\<lambda>_. Inr [(''3'', ''c''), (''7'', ''g'')] :: unit + (string \<times> string) list) m data = None"
proof -
  obtain m where m: "is_map (range IInt) num_rank m [(IInt 3, ''c''), (IInt 7, ''g'')]" "Comparator m = IntComparator"
    "map_run NewWithIntComparator [PutOp (IInt 7) ''g'', PutOp (IInt 3) ''c''] = Some m"
    by (rule example_map)
  have "it_index m [(IInt 3, ''c''), (IInt 7, ''g'')] New_Iterator 0" by simp
  from int_cmp.elements_loop_is_map [OF m(1,2) this, of "ToString (\<lambda>_. []) (\<lambda>_. 0) (\<lambda>_. [])" "[]"]
  have "ToJSON (ToString (\<lambda>_. []) (\<lambda>_. 0) (\<lambda>_. [])) (\<lambda>es. Inr ''{}'' :: unit + string) m = Some (Inr ''{}'')"
    by (simp add: ToJSON_def)
  then show ?thesis
    using m FromJSON_panics_on_numeric_maps [of m "\<lambda>_ :: string. Inr [(''3'', ''c''), (''7'', ''g'')] :: unit + (string \<times> string) list"
      "''{}''" "''3''" "''c''" "[(''7'', ''g'')]"]
    by auto
qed

end
