(* ===== verification/MapsPaths.thy ===== *)
theory MapsPaths
  imports MapsSpec
begin

text \<open>
  How long searches take: every path of child pointers from the root of a well-formed map to a node is
  short, so that the search loops of \<open>maps.go\<close>, which follow one such path, make few iterations.
\<close>

section \<open>The height of a red-black tree\<close>

fun rheight :: "('k, 'v) rtree \<Rightarrow> nat" where
  "rheight Leaf = 0"
| "rheight (Br r c k v a b) = Suc (max (rheight a) (rheight b))"

lemma size_bheight: "invh t \<Longrightarrow> 2 ^ bheight t \<le> length (inorder t) + 1"
proof (induction t)
  case (Br r c k v a b)
  then have "2 ^ bheight a \<le> length (inorder a) + 1" "2 ^ bheight a \<le> length (inorder b) + 1" by simp_all
  then show ?case by (cases c) simp_all
qed simp

lemma height_bheight:
  "invc t \<Longrightarrow> invh t \<Longrightarrow> rheight t \<le> 2 * bheight t + (if colorOf t = Red then 1 else 0)"
proof (induction t)
  case (Br r c k v a b)
  then show ?case by (cases c) (auto split: if_splits)
qed simp

lemma rbt_height:
  assumes "rbt t"
  shows "2 ^ rheight t \<le> (length (inorder t) + 1) ^ 2"
proof -
  have "rheight t \<le> 2 * bheight t" using height_bheight [of t] assms by (auto simp: rbt_def)
  then have "(2 :: nat) ^ rheight t \<le> 2 ^ (2 * bheight t)" by simp
  also have "\<dots> = (2 ^ bheight t) ^ 2" by (simp add: power_mult mult.commute)
  also have "\<dots> \<le> (length (inorder t) + 1) ^ 2"
    using size_bheight [of t] assms by (intro power_mono) (auto simp: rbt_def)
  finally show ?thesis .
qed

section \<open>Paths of child pointers\<close>

inductive links :: "('k, 'v) Map \<Rightarrow> ptr \<Rightarrow> nat \<Rightarrow> ptr \<Rightarrow> bool" for m :: "('k, 'v) Map" where
  here: "links m p 0 p"
| left: "deref m p = Some n \<Longrightarrow> links m (Left n) k q \<Longrightarrow> links m p (Suc k) q"
| right: "deref m p = Some n \<Longrightarrow> links m (Right n) k q \<Longrightarrow> links m p (Suc k) q"

inductive_cases linksE: "links m p k q"

lemma links_height:
  "links m (rootp t) k (Some q) \<Longrightarrow> is_tree (store m) p t \<Longrightarrow> k < rheight t"
proof (induction t arbitrary: p k)
  case Leaf
  then show ?case by (auto simp: deref_def elim: linksE)
next
  case (Br r c key v a b)
  from Br.prems(1) show ?case
  proof cases
    case here
    then show ?thesis by simp
  next
    case (left n k')
    then have "k' < rheight a" using Br by (auto simp: deref_def)
    with left show ?thesis by simp
  next
    case (right n k')
    then have "k' < rheight b" using Br by (auto simp: deref_def)
    with right show ?thesis by simp
  qed
qed

text \<open>
  The path from the root of a well-formed map to any of its nodes has a length logarithmic in the
  number of entries: with \<open>k\<close> links and \<open>n\<close> entries, \<open>2 ^ (k + 1)\<close> is at most the square of \<open>n + 1\<close>.
\<close>

theorem Search_paths_are_short:
  assumes "is_map K rank m xs" and "links m (Root m) k (Some q)"
  shows "2 ^ (k + 1) \<le> (Size m + 1) ^ 2"
proof -
  from assms(1) obtain t where t: "rep m t" "rbt t" "inorder t = xs" "msize m = int (length xs)"
    by (auto simp: is_map_def)
  then have "k < rheight t" using assms(2) links_height by (auto simp: rep_def)
  then have "(2 :: nat) ^ (k + 1) \<le> 2 ^ rheight t" by (intro power_increasing) simp_all
  also have "\<dots> \<le> (length xs + 1) ^ 2" using rbt_height [OF t(2)] t(3) by simp
  finally have "(2 :: nat) ^ (k + 1) \<le> (length xs + 1) ^ 2" .
  then have "int (2 ^ (k + 1)) \<le> int ((length xs + 1) ^ 2)" unfolding of_nat_le_iff .
  then show ?thesis using t(4) by (simp add: Size_def add.commute)
qed

theorem Search_paths_are_short_witness:
  "\<exists>m k q. map_run NewWithIntComparator [PutOp (IInt 7) ''g'', PutOp (IInt 3) ''c''] = Some m
    \<and> links m (Root m) k (Some q) \<and> 2 ^ (k + 1) \<le> (Size m + 1) ^ 2"
proof -
  obtain m where m: "is_map (range IInt) num_rank m [(IInt 3, ''c''), (IInt 7, ''g'')]"
    "map_run NewWithIntComparator [PutOp (IInt 7) ''g'', PutOp (IInt 3) ''c''] = Some m"
    by (rule example_map)
  from m(1) obtain t where "rep m t" "inorder t = [(IInt 3, ''c''), (IInt 7, ''g'')]" by (auto simp: is_map_def)
  then obtain q where "Root m = Some q" by (cases t) (auto simp: rep_def)
  then have "links m (Root m) 0 (Some q)" by (simp add: links.here)
  with Search_paths_are_short [OF m(1) this] m(2) show ?thesis by blast
qed

end
