(* ===== verification/HashRing.thy ===== *)
theory HashRing
  imports MapsIter Strings "HOL-Library.AList"
begin

text \<open>
  \<open>dispatcher/hash/hash_ring.go\<close>: consistent hashing. The ring maps the identifiers of virtual
  nodes to members and keeps the identifiers in the ordered map of \<open>maps.go\<close>. The methods hold
  the lock of the ring while they run, so each is one atomic step.
\<close>

unbundle bit_operations_syntax

section \<open>The checksum\<close>

text \<open>\<open>crc32.ChecksumIEEE\<close>: the reflected polynomial, bit by bit.\<close>

definition crc_bit :: "u32 \<Rightarrow> u32" where
  "crc_bit c = (if bit c 0 then drop_bit 1 c XOR 0xEDB88320 else drop_bit 1 c)"

definition crc_byte :: "u32 \<Rightarrow> char \<Rightarrow> u32" where
  "crc_byte c b = (crc_bit ^^ 8) (c XOR of_nat (of_char b))"

definition ChecksumIEEE :: "string \<Rightarrow> u32" where
  "ChecksumIEEE s = NOT (foldl crc_byte 0xFFFFFFFF s)"

text \<open>\<open>hashKey\<close> copies a short key into an array of 64 bytes on the stack.\<close>

definition copy :: "'a list \<Rightarrow> 'a list \<Rightarrow> 'a list" where
  "copy dst src = take (length dst) src @ drop (length src) dst"

definition hashKey :: "string \<Rightarrow> u32" where
  "hashKey key =
     (if length key < 64
      then let scratch = copy (replicate 64 (CHR 0x00)) key in ChecksumIEEE (take (length key) scratch)
      else ChecksumIEEE key)"

section \<open>The ring\<close>

text \<open>
  The Go maps are association lists without duplicate keys; the order of their entries stands
  for the unspecified order of iteration.
\<close>

record HashRing =
  m_RingMap :: "(u32 \<times> string) list"
  m_MemberMap :: "(string \<times> bool) list"
  m_SortedKeys :: "(iface, bool) Map"
  rRep :: u32
  rLen :: u32

datatype ring_error = ErrEmptyRing

definition NewHashRing :: "u32 \<Rightarrow> u32 \<Rightarrow> HashRing" where
  "NewHashRing repeat len = \<lparr>m_RingMap = [], m_MemberMap = [], m_SortedKeys = NewWithUInt32Comparator,
     rRep = repeat, rLen = len\<rparr>"

text \<open>Reading a Go map gives the zero value for an absent key.\<close>

definition ring_at :: "HashRing \<Rightarrow> u32 \<Rightarrow> string" where
  "ring_at hr vid = (case map_of (m_RingMap hr) vid of None \<Rightarrow> [] | Some elt \<Rightarrow> elt)"

definition addInt :: "HashRing \<Rightarrow> u32 \<Rightarrow> string \<Rightarrow> HashRing option" where
  "addInt hr vid elt = do {
     m \<leftarrow> Put (m_SortedKeys hr) (IUInt32 vid) True;
     Some (hr\<lparr>m_RingMap := AList.update vid elt (m_RingMap hr), m_SortedKeys := m,
       m_MemberMap := AList.update elt True (m_MemberMap hr)\<rparr>)
   }"

definition removeInt :: "HashRing \<Rightarrow> u32 \<Rightarrow> HashRing option" where
  "removeInt hr vid = (let elt = ring_at hr vid in do {
     m \<leftarrow> Remove (m_SortedKeys hr) (IUInt32 vid);
     Some (hr\<lparr>m_RingMap := AList.delete vid (m_RingMap hr), m_SortedKeys := m,
       m_MemberMap := AList.delete elt (m_MemberMap hr)\<rparr>)
   })"

definition eltKey :: "string \<Rightarrow> nat \<Rightarrow> string" where
  "eltKey elt idx = Itoa (int idx) @ elt"

text \<open>The loops of \<open>add\<close> and \<open>remove\<close>, over the indices that are left.\<close>

fun add_loop :: "HashRing \<Rightarrow> string \<Rightarrow> nat list \<Rightarrow> u32 list \<Rightarrow> (HashRing \<times> u32 list) option" where
  "add_loop hr elt [] rst = Some (hr, rst)"
| "add_loop hr elt (i # is) rst = (let vid = hashKey (eltKey elt i) in do {
     m \<leftarrow> Put (m_SortedKeys hr) (IUInt32 vid) True;
     add_loop (hr\<lparr>m_RingMap := AList.update vid elt (m_RingMap hr), m_SortedKeys := m\<rparr>) elt is (rst @ [vid])
   })"

definition add :: "HashRing \<Rightarrow> string \<Rightarrow> (HashRing \<times> u32 list) option" where
  "add hr elt = do {
     (hr1, rst) \<leftarrow> add_loop hr elt [0..<unat (rRep hr)] [];
     Some (hr1\<lparr>m_MemberMap := AList.update elt True (m_MemberMap hr1)\<rparr>, rst)
   }"

fun remove_loop :: "HashRing \<Rightarrow> string \<Rightarrow> nat list \<Rightarrow> HashRing option" where
  "remove_loop hr elt [] = Some hr"
| "remove_loop hr elt (i # is) = (let vid = hashKey (eltKey elt i) in do {
     m \<leftarrow> Remove (m_SortedKeys hr) (IUInt32 vid);
     remove_loop (hr\<lparr>m_RingMap := AList.delete vid (m_RingMap hr), m_SortedKeys := m\<rparr>) elt is
   })"

definition remove :: "HashRing \<Rightarrow> string \<Rightarrow> HashRing option" where
  "remove hr elt = do {
     hr1 \<leftarrow> remove_loop hr elt [0..<unat (rRep hr)];
     Some (hr1\<lparr>m_MemberMap := AList.delete elt (m_MemberMap hr1)\<rparr>)
   }"

definition HasMember :: "HashRing \<Rightarrow> string \<Rightarrow> bool" where
  "HasMember hr elt = (map_of (m_MemberMap hr) elt \<noteq> None)"

definition Members :: "HashRing \<Rightarrow> string list" where
  "Members hr = map fst (m_MemberMap hr)"

text \<open>The type assertion \<open>.(uint32)\<close>.\<close>

definition as_uint32 :: "iface \<Rightarrow> u32 option" where
  "as_uint32 v = (case v of IUInt32 x \<Rightarrow> Some x | _ \<Rightarrow> None)"

definition Ring_Get :: "HashRing \<Rightarrow> string \<Rightarrow> (ring_error option \<times> string) option" where
  "Ring_Get hr name =
     (if length (m_RingMap hr) = 0 then Some (Some ErrEmptyRing, [])
      else do {
        let key = hashKey name;
        node \<leftarrow> Ceiling (m_SortedKeys hr) (IUInt32 key);
        if node = None then do {
          (itr, found) \<leftarrow> First (m_SortedKeys hr) New_Iterator;
          if found then do {
            k \<leftarrow> It_Key (m_SortedKeys hr) itr;
            vid \<leftarrow> as_uint32 k;
            Some (None, ring_at hr vid)
          }
          else Some (Some ErrEmptyRing, [])
        }
        else do {
          n \<leftarrow> deref (m_SortedKeys hr) node;
          vid \<leftarrow> as_uint32 (Key n);
          Some (None, ring_at hr vid)
        }
      })"

definition Ring_Get64 :: "HashRing \<Rightarrow> i64 \<Rightarrow> (ring_error option \<times> u32) option" where
  "Ring_Get64 hr val =
     (if length (m_RingMap hr) = 0 then Some (Some ErrEmptyRing, 0)
      else do {
        let key = hashKey (Itoa (sint val));
        node \<leftarrow> Ceiling (m_SortedKeys hr) (IUInt32 key);
        if node = None then do {
          (itr, found) \<leftarrow> First (m_SortedKeys hr) New_Iterator;
          if found then do {
            k \<leftarrow> It_Key (m_SortedKeys hr) itr;
            vid \<leftarrow> as_uint32 k;
            Some (None, hashKey (ring_at hr vid))
          }
          else Some (Some ErrEmptyRing, 0)
        }
        else do {
          n \<leftarrow> deref (m_SortedKeys hr) node;
          vid \<leftarrow> as_uint32 (Key n);
          Some (None, hashKey (ring_at hr vid))
        }
      })"

text \<open>Evaluation: one step at a time, on numerals.\<close>

lemma funpow8: "(f ^^ 8) x = f (f (f (f (f (f (f (f x)))))))"
  by (simp add: numeral_eq_Suc)

lemma crc_bit_eval:
  "crc_bit (numeral n) =
    (if bit (numeral n :: u32) 0 then drop_bit 1 (numeral n) XOR 0xEDB88320 else drop_bit 1 (numeral n))"
  "crc_bit 0 = 0" "crc_bit 1 = 0xEDB88320"
  by (simp_all add: crc_bit_def)

lemmas crc_eval = ChecksumIEEE_def crc_byte_def funpow8 crc_bit_eval

text \<open>The check value of the algorithm's specification.\<close>

lemma ChecksumIEEE_check: "ChecksumIEEE ''123456789'' = 0xCBF43926"
  by (simp add: crc_eval)

lemma hashKey_is_checksum: "hashKey key = ChecksumIEEE key"
  by (simp add: hashKey_def copy_def)

section \<open>What the ring asks of the ordered map\<close>

text \<open>
  The first identifier at or after a position, going around: the specification of the search.
\<close>

definition at_or_after :: "u32 set \<Rightarrow> u32 \<Rightarrow> u32 set" where
  "at_or_after S k = {x \<in> S. k \<le> x}"

definition succ_on :: "u32 set \<Rightarrow> u32 \<Rightarrow> u32" where
  "succ_on S k = (if at_or_after S k = {} then Min S else Min (at_or_after S k))"

text \<open>
  The operations the ring calls, over a representation \<open>holds\<close> of sets of identifiers: each
  answers, and \<open>ceiling\<close> and \<open>least\<close> find what they are named after.
\<close>

locale key_set =
  fixes holds :: "'m \<Rightarrow> u32 set \<Rightarrow> bool"
    and empty :: 'm
    and put :: "'m \<Rightarrow> u32 \<Rightarrow> 'm option"
    and del :: "'m \<Rightarrow> u32 \<Rightarrow> 'm option"
    and ceiling :: "'m \<Rightarrow> u32 \<Rightarrow> u32 option option"
    and least :: "'m \<Rightarrow> u32 option option"
  assumes holds_empty: "holds empty {}"
    and holds_put: "holds m S \<Longrightarrow> \<exists>m'. put m k = Some m' \<and> holds m' (insert k S)"
    and holds_del: "holds m S \<Longrightarrow> \<exists>m'. del m k = Some m' \<and> holds m' (S - {k})"
    and ceiling_min: "holds m S \<Longrightarrow>
      ceiling m k = Some (if at_or_after S k = {} then None else Some (Min (at_or_after S k)))"
    and least_min: "holds m S \<Longrightarrow> least m = Some (if S = {} then None else Some (Min S))"
begin

text \<open>The ceiling, else the least key: the successor on the ring.\<close>

lemma search_succ:
  assumes "holds m S" and "S \<noteq> {}"
  shows "do { c \<leftarrow> ceiling m k; if c = None then least m else Some c } = Some (Some (succ_on S k))"
  using ceiling_min [OF assms(1), of k] least_min [OF assms(1)] assms(2)
  by (cases "at_or_after S k = {}") (simp_all add: succ_on_def)

end

text \<open>The ordered map under \<open>UInt32Comparator\<close> provides them.\<close>

definition holds_keys :: "(iface, bool) Map \<Rightarrow> u32 set \<Rightarrow> bool" where
  "holds_keys m S = (\<exists>xs. is_map (range IUInt32) num_rank m xs \<and> Comparator m = UInt32Comparator
     \<and> fst ` set xs = IUInt32 ` S)"

definition ceiling_id :: "(iface, bool) Map \<Rightarrow> u32 \<Rightarrow> u32 option option" where
  "ceiling_id m k = do {
     node \<leftarrow> Ceiling m (IUInt32 k);
     if node = None then Some None
     else do { n \<leftarrow> deref m node; vid \<leftarrow> as_uint32 (Key n); Some (Some vid) }
   }"

definition least_id :: "(iface, bool) Map \<Rightarrow> u32 option option" where
  "least_id m = do {
     (itr, found) \<leftarrow> First m New_Iterator;
     if found then do { k \<leftarrow> It_Key m itr; vid \<leftarrow> as_uint32 k; Some (Some vid) } else Some None
   }"

lemma num_rank_IUInt32 [simp]: "num_rank (IUInt32 x) \<le> num_rank (IUInt32 y) \<longleftrightarrow> x \<le> y"
  "num_rank (IUInt32 x) < num_rank (IUInt32 y) \<longleftrightarrow> x < y"
  "num_rank (IUInt32 x) = num_rank (IUInt32 y) \<longleftrightarrow> x = y"
  by (simp_all add: word_le_def word_less_def) (metis word_of_int_uint)

declare num_rank.simps(9) [simp del]

lemma find_ranked_min:
  assumes "ranked num_rank xs" and "fst ` set xs = IUInt32 ` S"
  shows "map_option (\<lambda>p. as_uint32 (fst p)) (List.find (\<lambda>p. num_rank (IUInt32 k) \<le> num_rank (fst p)) xs)
    = (if at_or_after S k = {} then None else Some (Some (Min (at_or_after S k))))"
  using assms
proof (induction xs arbitrary: S)
  case Nil
  then show ?case by (simp add: at_or_after_def)
next
  case (Cons p ps)
  have "fst p \<in> IUInt32 ` S" unfolding Cons.prems(2) [symmetric] by simp
  then obtain x where x: "fst p = IUInt32 x" "x \<in> S" by blast
  have rest: "fst ` set ps = IUInt32 ` (S - {x})"
  proof -
    have "fst p \<notin> fst ` set ps" using Cons.prems(1) by force
    then have "fst ` set ps = fst ` set (p # ps) - {fst p}" by auto
    also have "\<dots> = IUInt32 ` (S - {x})" unfolding Cons.prems(2) x(1) by auto
    finally show ?thesis .
  qed
  have below: "x < y" if "y \<in> S - {x}" for y
  proof -
    have "IUInt32 y \<in> fst ` set ps" using that rest by blast
    then obtain q where q: "q \<in> set ps" "IUInt32 y = fst q" by blast
    then have "num_rank (fst p) < num_rank (fst q)" using Cons.prems(1) by simp
    then show ?thesis unfolding x(1) q(2) [symmetric] by simp
  qed
  show ?case
  proof (cases "k \<le> x")
    case True
    have "x \<le> y" if "y \<in> at_or_after S k" for y
      using below [of y] that by (cases "y = x") (auto simp: at_or_after_def)
    moreover have here: "x \<in> at_or_after S k" using True x(2) by (simp add: at_or_after_def)
    ultimately have "Min (at_or_after S k) = x" by (intro Min_eqI) auto
    moreover have "num_rank (IUInt32 k) \<le> num_rank (fst p)" using True x(1) by simp
    ultimately show ?thesis using x(1) here by (auto simp: as_uint32_def)
  next
    case False
    then have "at_or_after (S - {x}) k = at_or_after S k" by (auto simp: at_or_after_def)
    then show ?thesis using Cons.IH [OF _ rest] Cons.prems(1) False x(1) by simp
  qed
qed

lemma keys_filter: "fst ` {p \<in> A. P (fst p)} = {y \<in> fst ` A. P y}"
  by force

lemmas keys_differ = keys_filter [of _ "\<lambda>y. num_rank y \<noteq> num_rank (IUInt32 k)" for k]

lemma rank_differs: "{y \<in> IUInt32 ` S. num_rank y \<noteq> num_rank (IUInt32 k)} = IUInt32 ` (S - {k})"
  by auto

lemma keys_upd:
  assumes "ranked num_rank xs" and "fst ` set xs = IUInt32 ` S"
  shows "fst ` set (upd_list num_rank (IUInt32 k) v xs) = IUInt32 ` insert k S"
  unfolding set_upd_list [OF assms(1)] image_insert keys_differ assms(2) rank_differs by auto

lemma keys_del:
  assumes "fst ` set xs = IUInt32 ` S"
  shows "fst ` set (del_list num_rank (IUInt32 k) xs) = IUInt32 ` (S - {k})"
  unfolding del_list_def set_filter keys_differ assms rank_differs ..

lemma holds_keysE:
  assumes "holds_keys m S"
  obtains xs where "is_map (range IUInt32) num_rank m xs" "Comparator m = UInt32Comparator"
    "fst ` set xs = IUInt32 ` S" "ranked num_rank xs"
proof -
  from assms obtain xs where xs: "is_map (range IUInt32) num_rank m xs" "Comparator m = UInt32Comparator"
    "fst ` set xs = IUInt32 ` S"
    by (auto simp: holds_keys_def)
  show thesis by (rule that [OF xs is_map_sorted [OF xs(1)]])
qed

lemma Put_holds_keys:
  assumes "holds_keys m S"
  shows "\<exists>m'. Put m (IUInt32 k) v = Some m' \<and> holds_keys m' (insert k S)"
proof -
  from assms obtain xs where xs: "is_map (range IUInt32) num_rank m xs" "Comparator m = UInt32Comparator"
    "fst ` set xs = IUInt32 ` S" "ranked num_rank xs"
    by (rule holds_keysE)
  from uint32_cmp.Put_is_map [OF xs(1,2) rangeI] obtain m' where
    "Put m (IUInt32 k) v = Some m'" "is_map (range IUInt32) num_rank m' (upd_list num_rank (IUInt32 k) v xs)"
    "Comparator m' = UInt32Comparator"
    by metis
  then show ?thesis
    unfolding holds_keys_def by (intro exI conjI) (assumption | rule keys_upd [OF xs(4,3)])+
qed

lemma Remove_holds_keys:
  assumes "holds_keys m S"
  shows "\<exists>m'. Remove m (IUInt32 k) = Some m' \<and> holds_keys m' (S - {k})"
proof -
  from assms obtain xs where xs: "is_map (range IUInt32) num_rank m xs" "Comparator m = UInt32Comparator"
    "fst ` set xs = IUInt32 ` S" "ranked num_rank xs"
    by (rule holds_keysE)
  from uint32_cmp.Remove_is_map [OF xs(1,2) rangeI] obtain m' where
    "Remove m (IUInt32 k) = Some m'" "is_map (range IUInt32) num_rank m' (del_list num_rank (IUInt32 k) xs)"
    "Comparator m' = UInt32Comparator"
    by metis
  then show ?thesis
    unfolding holds_keys_def by (intro exI conjI) (assumption | rule keys_del [OF xs(3)])+
qed

lemma Ceiling_holds_keys:
  assumes "holds_keys m S"
  shows "ceiling_id m k = Some (if at_or_after S k = {} then None else Some (Min (at_or_after S k)))"
proof -
  from assms obtain xs where xs: "is_map (range IUInt32) num_rank m xs" "Comparator m = UInt32Comparator"
    "fst ` set xs = IUInt32 ` S" "ranked num_rank xs"
    by (rule holds_keysE)
  let ?find = "List.find (\<lambda>p. num_rank (IUInt32 k) \<le> num_rank (fst p)) xs"
  obtain r where r: "Ceiling m (IUInt32 k) = Some r" "entry m r = Some ?find"
    using uint32_cmp.Ceiling_is_map [OF xs(1,2) rangeI] by blast
  have "map_option (\<lambda>p. as_uint32 (fst p)) ?find
      = (if at_or_after S k = {} then None else Some (Some (Min (at_or_after S k))))"
    by (rule find_ranked_min [OF xs(4,3)])
  moreover have "ceiling_id m k = (case ?find of None \<Rightarrow> Some None | Some p \<Rightarrow> map_option Some (as_uint32 (fst p)))"
    using r(1) r(2) [symmetric]
    by (cases r) (auto simp: ceiling_id_def entry_def bind_Some_map split: bind_splits)
  ultimately show ?thesis
    by (auto split: option.splits if_splits)
qed

lemma First_holds_keys:
  assumes "holds_keys m S"
  shows "least_id m = Some (if S = {} then None else Some (Min S))"
proof -
  from assms obtain xs where xs: "is_map (range IUInt32) num_rank m xs" "Comparator m = UInt32Comparator"
    "fst ` set xs = IUInt32 ` S" "ranked num_rank xs"
    by (rule holds_keysE)
  have "It_Begin New_Iterator = New_Iterator" by (simp add: It_Begin_def New_Iterator_def)
  then obtain it more where first: "First m New_Iterator = Some (it, more)" "more = (0 < length xs)"
    "it_index m xs it (min (Suc 0) (Suc (length xs)))"
    using uint32_cmp.Next_is_map [OF xs(1,2), of New_Iterator 0] by (auto simp: First_def)
  show ?thesis
  proof (cases "S = {}")
    case True
    then show ?thesis using first xs(3) by (simp add: least_id_def)
  next
    case False
    then have "xs \<noteq> []" using xs(3) by auto
    have "map_option (\<lambda>p. as_uint32 (fst p)) (List.find (\<lambda>p. num_rank (IUInt32 0) \<le> num_rank (fst p)) xs)
      = Some (Some (Min S))"
      using find_ranked_min [OF xs(4,3), of 0] False by (simp add: at_or_after_def)
    moreover obtain x where x: "fst (hd xs) = IUInt32 x"
      using xs(3) \<open>xs \<noteq> []\<close> by (metis image_iff list.set_sel(1))
    ultimately have "as_uint32 (fst (hd xs)) = Some (Min S)"
      using \<open>xs \<noteq> []\<close> by (cases xs) auto
    moreover have "It_Key m it = Some (fst (hd xs))"
      using uint32_cmp.It_read(1) [of m xs it 0] first(3) \<open>xs \<noteq> []\<close> by (simp add: hd_conv_nth)
    ultimately show ?thesis
      using first \<open>xs \<noteq> []\<close> False by (simp add: least_id_def)
  qed
qed

lemma New_holds_keys: "holds_keys NewWithUInt32Comparator {}"
  using uint32_cmp.New_is_map
  by (auto simp: holds_keys_def NewWithUInt32Comparator_def NewWith_def intro!: exI [of _ "[]"])

interpretation sorted_keys: key_set holds_keys NewWithUInt32Comparator
    "\<lambda>m k. Put m (IUInt32 k) True" "\<lambda>m k. Remove m (IUInt32 k)" ceiling_id least_id
  by unfold_locales
    (rule New_holds_keys Put_holds_keys Remove_holds_keys Ceiling_holds_keys First_holds_keys; assumption?)+

section \<open>The invariant of the ring\<close>

text \<open>
  The ordered map holds exactly the identifiers of the ring map; an identifier belongs to a
  member, and is one of that member's virtual nodes. No Go map has a key twice.
\<close>

definition ids :: "HashRing \<Rightarrow> string \<Rightarrow> u32 set" where
  "ids hr elt = (\<lambda>i. hashKey (eltKey elt i)) ` {0..<unat (rRep hr)}"

definition ring_ok :: "HashRing \<Rightarrow> bool" where
  "ring_ok hr = (holds_keys (m_SortedKeys hr) (dom (map_of (m_RingMap hr)))
     \<and> distinct (map fst (m_RingMap hr)) \<and> distinct (map fst (m_MemberMap hr))
     \<and> (\<forall>vid elt. map_of (m_RingMap hr) vid = Some elt \<longrightarrow> HasMember hr elt \<and> vid \<in> ids hr elt))"

lemma ring_okD:
  assumes "ring_ok hr"
  shows "holds_keys (m_SortedKeys hr) (dom (map_of (m_RingMap hr)))"
    "distinct (map fst (m_RingMap hr))" "distinct (map fst (m_MemberMap hr))"
    "map_of (m_RingMap hr) vid = Some elt \<Longrightarrow> HasMember hr elt"
    "map_of (m_RingMap hr) vid = Some elt \<Longrightarrow> vid \<in> ids hr elt"
  using assms by (auto simp: ring_ok_def)

text \<open>The loops: the ring map is overridden on the identifiers visited, or restricted to the others.\<close>

lemma add_loop_holds:
  assumes "holds_keys (m_SortedKeys hr) (dom (map_of (m_RingMap hr)))"
    and "distinct (map fst (m_RingMap hr))"
  shows "\<exists>hr'. add_loop hr elt js rst = Some (hr', rst @ map (\<lambda>i. hashKey (eltKey elt i)) js)
    \<and> map_of (m_RingMap hr') = (\<lambda>vid. if vid \<in> (\<lambda>i. hashKey (eltKey elt i)) ` set js then Some elt
         else map_of (m_RingMap hr) vid)
    \<and> holds_keys (m_SortedKeys hr') (dom (map_of (m_RingMap hr')))
    \<and> distinct (map fst (m_RingMap hr'))
    \<and> m_MemberMap hr' = m_MemberMap hr \<and> rRep hr' = rRep hr \<and> rLen hr' = rLen hr"
  using assms
proof (induction js arbitrary: hr rst)
  case Nil
  then show ?case by simp
next
  case (Cons i js)
  let ?vid = "hashKey (eltKey elt i)"
  obtain m where m: "Put (m_SortedKeys hr) (IUInt32 ?vid) True = Some m"
    "holds_keys m (insert ?vid (dom (map_of (m_RingMap hr))))"
    using sorted_keys.holds_put [OF Cons.prems(1), of ?vid] by blast
  let ?hr = "hr\<lparr>m_RingMap := AList.update ?vid elt (m_RingMap hr), m_SortedKeys := m\<rparr>"
  have "holds_keys (m_SortedKeys ?hr) (dom (map_of (m_RingMap ?hr)))" "distinct (map fst (m_RingMap ?hr))"
    using m(2) Cons.prems(2) by (simp_all add: update_conv' distinct_update)
  from Cons.IH [OF this, of "rst @ [?vid]"] m(1) show ?case
    by (auto simp: Let_def update_conv' fun_eq_iff)
qed

lemma remove_loop_holds:
  assumes "holds_keys (m_SortedKeys hr) (dom (map_of (m_RingMap hr)))"
    and "distinct (map fst (m_RingMap hr))"
  shows "\<exists>hr'. remove_loop hr elt js = Some hr'
    \<and> map_of (m_RingMap hr') = (\<lambda>vid. if vid \<in> (\<lambda>i. hashKey (eltKey elt i)) ` set js then None
         else map_of (m_RingMap hr) vid)
    \<and> holds_keys (m_SortedKeys hr') (dom (map_of (m_RingMap hr')))
    \<and> distinct (map fst (m_RingMap hr'))
    \<and> m_MemberMap hr' = m_MemberMap hr \<and> rRep hr' = rRep hr \<and> rLen hr' = rLen hr"
  using assms
proof (induction js arbitrary: hr)
  case Nil
  then show ?case by simp
next
  case (Cons i js)
  let ?vid = "hashKey (eltKey elt i)"
  obtain m where m: "Remove (m_SortedKeys hr) (IUInt32 ?vid) = Some m"
    "holds_keys m (dom (map_of (m_RingMap hr)) - {?vid})"
    using sorted_keys.holds_del [OF Cons.prems(1), of ?vid] by blast
  let ?hr = "hr\<lparr>m_RingMap := AList.delete ?vid (m_RingMap hr), m_SortedKeys := m\<rparr>"
  have "holds_keys (m_SortedKeys ?hr) (dom (map_of (m_RingMap ?hr)))" "distinct (map fst (m_RingMap ?hr))"
    using m(2) Cons.prems(2) by (simp_all add: delete_conv' distinct_delete)
  from Cons.IH [OF this] m(1) show ?case
    by (auto simp: Let_def delete_conv' fun_eq_iff)
qed

text \<open>\<open>Add\<close> and \<open>Remove\<close>: they answer, keep the invariant, and change the ring map as meant.\<close>

lemma New_fields [simp]:
  "m_RingMap (NewHashRing r l) = []" "m_MemberMap (NewHashRing r l) = []"
  "rRep (NewHashRing r l) = r" "rLen (NewHashRing r l) = l"
  by (simp_all add: NewHashRing_def)

lemma New_ring_ok: "ring_ok (NewHashRing repeat len)"
  using New_holds_keys by (simp add: ring_ok_def NewHashRing_def)

lemma add_ring_ok:
  assumes "ring_ok hr"
  shows "\<exists>hr'. add hr elt = Some (hr', map (\<lambda>i. hashKey (eltKey elt i)) [0..<unat (rRep hr)])
    \<and> ring_ok hr' \<and> rRep hr' = rRep hr \<and> rLen hr' = rLen hr
    \<and> (\<forall>e. HasMember hr' e \<longleftrightarrow> e = elt \<or> HasMember hr e)
    \<and> map_of (m_RingMap hr') = (\<lambda>vid. if vid \<in> ids hr elt then Some elt else map_of (m_RingMap hr) vid)"
proof -
  from add_loop_holds [OF ring_okD(1,2) [OF assms], of elt "[0..<unat (rRep hr)]" "[]"]
  obtain hr1 where 1: "add_loop hr elt [0..<unat (rRep hr)] [] = Some (hr1, map (\<lambda>i. hashKey (eltKey elt i)) [0..<unat (rRep hr)])"
    "map_of (m_RingMap hr1) = (\<lambda>vid. if vid \<in> ids hr elt then Some elt else map_of (m_RingMap hr) vid)"
    "holds_keys (m_SortedKeys hr1) (dom (map_of (m_RingMap hr1)))" "distinct (map fst (m_RingMap hr1))"
    "m_MemberMap hr1 = m_MemberMap hr" "rRep hr1 = rRep hr" "rLen hr1 = rLen hr"
    by (auto simp: ids_def)
  let ?hr = "hr1\<lparr>m_MemberMap := AList.update elt True (m_MemberMap hr1)\<rparr>"
  have has: "HasMember ?hr e \<longleftrightarrow> e = elt \<or> HasMember hr e" for e
    using 1(5) by (auto simp: HasMember_def update_conv')
  have "ring_ok ?hr"
    unfolding ring_ok_def has
    using 1 ring_okD(3,4,5) [OF assms]
    by (auto simp: ids_def distinct_update split: if_splits)
  then show ?thesis
    using 1 has by (auto simp: add_def)
qed

lemma remove_ring_ok:
  assumes "ring_ok hr"
  shows "\<exists>hr'. remove hr elt = Some hr' \<and> ring_ok hr' \<and> rRep hr' = rRep hr \<and> rLen hr' = rLen hr
    \<and> (\<forall>e. HasMember hr' e \<longleftrightarrow> e \<noteq> elt \<and> HasMember hr e)
    \<and> map_of (m_RingMap hr') = (\<lambda>vid. if vid \<in> ids hr elt then None else map_of (m_RingMap hr) vid)"
proof -
  from remove_loop_holds [OF ring_okD(1,2) [OF assms], of elt "[0..<unat (rRep hr)]"]
  obtain hr1 where 1: "remove_loop hr elt [0..<unat (rRep hr)] = Some hr1"
    "map_of (m_RingMap hr1) = (\<lambda>vid. if vid \<in> ids hr elt then None else map_of (m_RingMap hr) vid)"
    "holds_keys (m_SortedKeys hr1) (dom (map_of (m_RingMap hr1)))" "distinct (map fst (m_RingMap hr1))"
    "m_MemberMap hr1 = m_MemberMap hr" "rRep hr1 = rRep hr" "rLen hr1 = rLen hr"
    by (auto simp: ids_def)
  let ?hr = "hr1\<lparr>m_MemberMap := AList.delete elt (m_MemberMap hr1)\<rparr>"
  have has: "HasMember ?hr e \<longleftrightarrow> e \<noteq> elt \<and> HasMember hr e" for e
    using 1(5) by (simp add: HasMember_def delete_conv')
  have "ring_ok ?hr"
    unfolding ring_ok_def has
    using 1 ring_okD(3,4,5) [OF assms]
    by (auto simp: ids_def distinct_delete split: if_splits)
  then show ?thesis
    using 1 has by (auto simp: remove_def)
qed

text \<open>The search, through the contract of the ordered map.\<close>

abbreviation points :: "HashRing \<Rightarrow> u32 set" where
  "points hr \<equiv> dom (map_of (m_RingMap hr))"

lemma search_id:
  assumes "ring_ok hr" and "m_RingMap hr \<noteq> []"
  shows "do { c \<leftarrow> ceiling_id (m_SortedKeys hr) k; if c = None then least_id (m_SortedKeys hr) else Some c }
    = Some (Some (succ_on (points hr) k))"
  using sorted_keys.search_succ [OF ring_okD(1) [OF assms(1)], of k] assms(2) by (cases "m_RingMap hr") auto

lemma Ring_Get_search:
  "Ring_Get hr name = (if m_RingMap hr = [] then Some (Some ErrEmptyRing, []) else do {
     r \<leftarrow> do { c \<leftarrow> ceiling_id (m_SortedKeys hr) (hashKey name);
               if c = None then least_id (m_SortedKeys hr) else Some c };
     Some (case r of None \<Rightarrow> (Some ErrEmptyRing, []) | Some vid \<Rightarrow> (None, ring_at hr vid)) })"
  by (simp add: Ring_Get_def ceiling_id_def least_id_def Let_def cong del: bind_weak_cong if_weak_cong
      split: bind_splits prod.splits)

definition owner :: "HashRing \<Rightarrow> string \<Rightarrow> string" where
  "owner hr name = ring_at hr (succ_on (points hr) (hashKey name))"

lemma succ_on_in: "S \<noteq> {} \<Longrightarrow> succ_on S k \<in> S"
proof -
  assume "S \<noteq> {}"
  moreover have "Min (at_or_after S k) \<in> S" if "at_or_after S k \<noteq> {}"
    using Min_in [OF _ that] by (auto simp: at_or_after_def)
  ultimately show ?thesis by (simp add: succ_on_def)
qed

text \<open>A successor that survives in a smaller set is the successor there.\<close>

lemma succ_on_subset:
  assumes "S \<subseteq> T" and "succ_on T k \<in> S"
  shows "succ_on S k = succ_on T k"
proof (cases "at_or_after T k = {}")
  case True
  moreover have "at_or_after S k = {}" using True assms(1) by (auto simp: at_or_after_def)
  moreover have "Min S = Min T"
    using assms True by (intro Min_eqI) (auto simp: succ_on_def intro: Min_le)
  ultimately show ?thesis by (simp add: succ_on_def)
next
  case False
  let ?m = "Min (at_or_after T k)"
  have "?m \<in> at_or_after T k" using False by (intro Min_in) auto
  moreover have "?m \<in> S" using assms(2) False by (simp add: succ_on_def)
  ultimately have m: "?m \<in> at_or_after S k" by (simp add: at_or_after_def)
  have "?m \<le> x" if "x \<in> at_or_after S k" for x
    using that assms(1) by (intro Min_le) (auto simp: at_or_after_def)
  then have "Min (at_or_after S k) = ?m"
    using m by (intro Min_eqI) auto
  then show ?thesis
    using m False by (auto simp: succ_on_def)
qed

lemma Ring_Get_owner:
  assumes "ring_ok hr"
  shows "Ring_Get hr name =
    Some (if m_RingMap hr = [] then (Some ErrEmptyRing, []) else (None, owner hr name))"
  unfolding Ring_Get_search
  using search_id [OF assms, of "hashKey name"]
  by (cases "m_RingMap hr = []") (simp_all add: owner_def)

lemma owner_point:
  assumes "m_RingMap hr \<noteq> []"
  obtains elt where "map_of (m_RingMap hr) (succ_on (points hr) (hashKey name)) = Some elt"
    "owner hr name = elt"
proof -
  have "points hr \<noteq> {}" using assms by (cases "m_RingMap hr") auto
  from succ_on_in [OF this, of "hashKey name"] show thesis
    using that by (auto simp: owner_def ring_at_def)
qed

lemma no_entries: "m_RingMap hr = [] \<longleftrightarrow> points hr = {}"
  by (cases "m_RingMap hr") auto

section \<open>Sequences of operations\<close>

datatype ring_op = AddOp string | RemoveOp string

fun ring_run :: "HashRing \<Rightarrow> ring_op list \<Rightarrow> HashRing option" where
  "ring_run hr [] = Some hr"
| "ring_run hr (AddOp elt # ops) = do { (hr1, _) \<leftarrow> add hr elt; ring_run hr1 ops }"
| "ring_run hr (RemoveOp elt # ops) = do { hr1 \<leftarrow> remove hr elt; ring_run hr1 ops }"

fun member_run :: "string set \<Rightarrow> ring_op list \<Rightarrow> string set" where
  "member_run M [] = M"
| "member_run M (AddOp elt # ops) = member_run (insert elt M) ops"
| "member_run M (RemoveOp elt # ops) = member_run (M - {elt}) ops"

lemma ring_run_ok:
  assumes "ring_ok hr"
  shows "\<exists>hr'. ring_run hr ops = Some hr' \<and> ring_ok hr' \<and> rRep hr' = rRep hr
    \<and> {e. HasMember hr' e} = member_run {e. HasMember hr e} ops"
  using assms
proof (induction ops arbitrary: hr)
  case Nil
  then show ?case by simp
next
  case (Cons op ops)
  show ?case
  proof (cases op)
    case (AddOp elt)
    obtain hr1 rst where 1: "add hr elt = Some (hr1, rst)" "ring_ok hr1" "rRep hr1 = rRep hr"
      "{e. HasMember hr1 e} = insert elt {e. HasMember hr e}"
      using add_ring_ok [OF Cons.prems, of elt] by auto
    from Cons.IH [OF 1(2)] 1 AddOp show ?thesis by auto
  next
    case (RemoveOp elt)
    obtain hr1 where 1: "remove hr elt = Some hr1" "ring_ok hr1" "rRep hr1 = rRep hr"
      "{e. HasMember hr1 e} = {e. HasMember hr e} - {elt}"
      using remove_ring_ok [OF Cons.prems, of elt] by auto
    from Cons.IH [OF 1(2)] 1 RemoveOp show ?thesis by auto
  qed
qed

section \<open>Properties\<close>

text \<open>
  C11. Every sequence of \<open>Add\<close> and \<open>Remove\<close> on a new ring returns, leaves the ring map and the
  sorted identifiers in agreement with only members' own virtual nodes in them, and the members
  are those added and not removed since.
\<close>

theorem ring_runs_keep_invariant:
  "\<exists>hr. ring_run (NewHashRing repeat len) ops = Some hr \<and> ring_ok hr
    \<and> {e. HasMember hr e} = member_run {} ops \<and> set (Members hr) = member_run {} ops"
proof -
  from ring_run_ok [OF New_ring_ok, of repeat len ops] obtain hr where
    hr: "ring_run (NewHashRing repeat len) ops = Some hr" "ring_ok hr"
      "{e. HasMember hr e} = member_run {e. HasMember (NewHashRing repeat len) e} ops"
    by blast
  moreover have "{e. HasMember (NewHashRing repeat len) e} = {}"
    by (simp add: HasMember_def NewHashRing_def)
  moreover have "set (Members hr) = {e. HasMember hr e}"
    by (auto simp: Members_def HasMember_def map_of_eq_None_iff image_iff)
  ultimately show ?thesis by simp
qed

text \<open>
  C10. \<open>Get\<close> never panics: on a ring without virtual nodes it reports \<open>ErrEmptyRing\<close>; otherwise it
  answers the member that owns the first virtual node at or after the hash of the name, going
  around the ring.
\<close>

theorem Get_finds_successor:
  assumes "ring_ok hr"
  shows "(if m_RingMap hr = [] then Ring_Get hr name = Some (Some ErrEmptyRing, [])
    else \<exists>elt. Ring_Get hr name = Some (None, elt) \<and> HasMember hr elt
      \<and> map_of (m_RingMap hr) (succ_on (points hr) (ChecksumIEEE name)) = Some elt)"
proof (cases "m_RingMap hr = []")
  case False
  then obtain elt where "map_of (m_RingMap hr) (succ_on (points hr) (hashKey name)) = Some elt"
    "owner hr name = elt"
    by (rule owner_point)
  then show ?thesis
    using Ring_Get_owner [OF assms, of name] ring_okD(4) [OF assms] False by (simp add: hashKey_is_checksum)
qed (simp add: Ring_Get_owner [OF assms])

lemma Add_to_new:
  "0 < unat repeat \<Longrightarrow> \<exists>hr rst. add (NewHashRing repeat len) elt = Some (hr, rst) \<and> ring_ok hr \<and> rRep hr = repeat
    \<and> m_RingMap hr \<noteq> [] \<and> (\<forall>vid. map_of (m_RingMap hr) vid = (if vid \<in> ids hr elt then Some elt else None))"
proof -
  assume "0 < unat repeat"
  obtain hr rst where hr: "add (NewHashRing repeat len) elt = Some (hr, rst)" "ring_ok hr" "rRep hr = repeat"
    "map_of (m_RingMap hr) = (\<lambda>vid. if vid \<in> ids (NewHashRing repeat len) elt then Some elt else None)"
    using add_ring_ok [OF New_ring_ok, of repeat len elt] by (auto cong: if_cong)
  moreover have "ids (NewHashRing repeat len) elt = ids hr elt"
    using hr(3) by (simp add: ids_def)
  moreover have "hashKey (eltKey elt 0) \<in> ids hr elt"
    using \<open>0 < unat repeat\<close> hr(3) by (auto simp: ids_def)
  ultimately have "map_of (m_RingMap hr) (hashKey (eltKey elt 0)) = Some elt" by simp
  then have "m_RingMap hr \<noteq> []" by auto
  then show ?thesis
    using hr \<open>ids (NewHashRing repeat len) elt = ids hr elt\<close> by simp
qed

theorem Get_finds_successor_witness:
  "\<exists>hr rst elt. add (NewHashRing 2 20) ''/game/1'' = Some (hr, rst) \<and> Ring_Get hr ''42'' = Some (None, elt)
    \<and> HasMember hr elt"
proof -
  obtain hr rst where "add (NewHashRing 2 20) ''/game/1'' = Some (hr, rst)" "ring_ok hr" "m_RingMap hr \<noteq> []"
    using Add_to_new [of 2 20 "''/game/1''"] by auto
  then show ?thesis using Get_finds_successor [of hr "''42''"] by auto
qed

text \<open>\<open>Get64\<close> answers the hash of the member that \<open>Get\<close> answers for the decimal number.\<close>

theorem Get64_hashes_Get:
  "Ring_Get64 hr val = map_option (\<lambda>(err, elt). (err, if err = None then hashKey elt else 0))
     (Ring_Get hr (Itoa (sint val)))"
  by (simp add: Ring_Get64_def Ring_Get_def Let_def split: bind_splits prod.splits)

text \<open>
  C17. Adding a member moves a name to the new member or leaves it where it was.
\<close>

theorem Add_moves_names_to_new_member:
  assumes "ring_ok hr" and "Ring_Get hr name = Some (None, e)" and "add hr elt = Some (hr', rst)"
  shows "Ring_Get hr' name = Some (None, e) \<or> Ring_Get hr' name = Some (None, elt)"
proof -
  have ne: "m_RingMap hr \<noteq> []" "e = owner hr name"
    using Ring_Get_owner [OF assms(1), of name] assms(2) by (auto split: if_splits)
  from add_ring_ok [OF assms(1), of elt] assms(3) have ok: "ring_ok hr'"
    and ring: "map_of (m_RingMap hr') = (\<lambda>vid. if vid \<in> ids hr elt then Some elt else map_of (m_RingMap hr) vid)"
    by auto
  have sub: "points hr \<subseteq> points hr'" by (auto simp: ring split: if_splits)
  then have ne': "m_RingMap hr' \<noteq> []" using ne(1) unfolding no_entries by blast
  let ?p = "succ_on (points hr') (hashKey name)"
  have "owner hr' name = elt \<or> owner hr' name = e"
  proof (cases "?p \<in> ids hr elt")
    case True
    then show ?thesis by (simp add: owner_def ring_at_def ring)
  next
    case False
    have "?p \<in> points hr'" using ne' unfolding no_entries by (rule succ_on_in)
    then have "?p \<in> points hr" using False by (auto simp: ring split: if_splits)
    from succ_on_subset [OF sub this] False show ?thesis
      using ne(2) by (simp add: owner_def ring_at_def ring)
  qed
  then show ?thesis using Ring_Get_owner [OF ok] ne' by auto
qed

theorem Add_moves_names_to_new_member_witness:
  "\<exists>hr rst hr' rst' e. add (NewHashRing 2 20) ''/game/1'' = Some (hr, rst) \<and> add hr ''/game/2'' = Some (hr', rst')
    \<and> Ring_Get hr ''42'' = Some (None, e)
    \<and> (Ring_Get hr' ''42'' = Some (None, e) \<or> Ring_Get hr' ''42'' = Some (None, ''/game/2''))"
proof -
  obtain hr rst where 1: "add (NewHashRing 2 20) ''/game/1'' = Some (hr, rst)" "ring_ok hr" "m_RingMap hr \<noteq> []"
    using Add_to_new [of 2 20 "''/game/1''"] by auto
  obtain hr' rst' where 2: "add hr ''/game/2'' = Some (hr', rst')"
    using add_ring_ok [OF 1(2)] by blast
  have 3: "Ring_Get hr ''42'' = Some (None, owner hr ''42'')"
    using Ring_Get_owner [OF 1(2)] 1(3) by simp
  from Add_moves_names_to_new_member [OF 1(2) 3 2] show ?thesis using 1 2 3 by blast
qed

text \<open>
  C18. Removing a member leaves every name of the other members where it was, when the virtual nodes
  of the removed member are not shared with another member.
\<close>

theorem Remove_keeps_other_names:
  assumes "ring_ok hr" and "Ring_Get hr name = Some (None, e)" and "e \<noteq> elt"
    and "\<forall>vid \<in> ids hr elt. map_of (m_RingMap hr) vid \<in> {None, Some elt}"
    and "remove hr elt = Some hr'"
  shows "Ring_Get hr' name = Some (None, e)"
proof -
  have ne: "m_RingMap hr \<noteq> []" "e = owner hr name"
    using Ring_Get_owner [OF assms(1), of name] assms(2) by (auto split: if_splits)
  from remove_ring_ok [OF assms(1), of elt] assms(5) have ok: "ring_ok hr'"
    and ring: "map_of (m_RingMap hr') = (\<lambda>vid. if vid \<in> ids hr elt then None else map_of (m_RingMap hr) vid)"
    by auto
  let ?p = "succ_on (points hr) (hashKey name)"
  have p: "map_of (m_RingMap hr) ?p = Some e"
    using owner_point [OF ne(1), of name] ne(2) by metis
  then have "?p \<notin> ids hr elt" using assms(3,4) by force
  then have in': "?p \<in> points hr'" and at': "ring_at hr' ?p = e"
    using p by (auto simp: ring ring_at_def)
  have "points hr' \<subseteq> points hr" by (auto simp: ring split: if_splits)
  from succ_on_subset [OF this in'] have "owner hr' name = e"
    using at' by (simp add: owner_def)
  moreover have "m_RingMap hr' \<noteq> []" using in' unfolding no_entries by blast
  ultimately show ?thesis using Ring_Get_owner [OF ok] by simp
qed

theorem Remove_keeps_other_names_witness:
  "\<exists>hr rst hr'. add (NewHashRing 2 20) ''/game/1'' = Some (hr, rst) \<and> remove hr ''/game/2'' = Some hr'
    \<and> Ring_Get hr' ''42'' = Some (None, ''/game/1'')"
proof -
  obtain hr rst where 1: "add (NewHashRing 2 20) ''/game/1'' = Some (hr, rst)" "ring_ok hr" "rRep hr = 2"
    "m_RingMap hr \<noteq> []"
    "\<And>vid. map_of (m_RingMap hr) vid = (if vid \<in> ids hr ''/game/1'' then Some ''/game/1'' else None)"
    using Add_to_new [of 2 20 "''/game/1''"] by auto
  obtain hr' where 2: "remove hr ''/game/2'' = Some hr'"
    using remove_ring_ok [OF 1(2)] by blast
  obtain e where e: "map_of (m_RingMap hr) (succ_on (points hr) (hashKey ''42'')) = Some e" "owner hr ''42'' = e"
    using owner_point [OF 1(4)] by blast
  then have 3: "Ring_Get hr ''42'' = Some (None, ''/game/1'')"
    using Ring_Get_owner [OF 1(2)] 1(4,5) by (simp split: if_splits)
  have ids2: "ids hr x = {hashKey (eltKey x 0), hashKey (eltKey x 1)}" for x
  proof -
    have "{0..<2::nat} = {0, 1}" by auto
    then show ?thesis using 1(3) by (simp add: ids_def)
  qed
  have "\<forall>vid \<in> ids hr ''/game/2''. map_of (m_RingMap hr) vid \<in> {None, Some ''/game/2''}"
    unfolding 1(5) ids2 by (simp add: hashKey_is_checksum eltKey_def Itoa_def nat_digits.simps crc_eval)
  from Remove_keeps_other_names [OF 1(2) 3 _ this 2] show ?thesis using 1(1) 2 by simp
qed

text \<open>
  C23. Adding a new member whose virtual nodes are all new and removing it again restores the
  placement of every name, errors included.
\<close>

theorem Add_Remove_roundtrip:
  assumes "ring_ok hr" and "ids hr elt \<inter> points hr = {}"
    and "add hr elt = Some (hr1, rst)" and "remove hr1 elt = Some hr2"
  shows "map_of (m_RingMap hr2) = map_of (m_RingMap hr) \<and> Ring_Get hr2 name = Ring_Get hr name"
proof -
  from add_ring_ok [OF assms(1), of elt] assms(3) have 1: "ring_ok hr1" "rRep hr1 = rRep hr"
    "map_of (m_RingMap hr1) = (\<lambda>vid. if vid \<in> ids hr elt then Some elt else map_of (m_RingMap hr) vid)"
    by auto
  from remove_ring_ok [OF 1(1), of elt] assms(4) have 2: "ring_ok hr2"
    "map_of (m_RingMap hr2) = (\<lambda>vid. if vid \<in> ids hr1 elt then None else map_of (m_RingMap hr1) vid)"
    by auto
  have "ids hr1 elt = ids hr elt" using 1(2) by (simp add: ids_def)
  then have ring: "map_of (m_RingMap hr2) = map_of (m_RingMap hr)"
    using assms(2) unfolding 2(2) 1(3) by (auto simp: fun_eq_iff domIff disjoint_iff)
  moreover have "m_RingMap hr2 = [] \<longleftrightarrow> m_RingMap hr = []"
    unfolding no_entries ring ..
  moreover have "owner hr2 name = owner hr name"
    by (simp add: owner_def ring_at_def ring)
  ultimately show ?thesis
    using Ring_Get_owner [OF assms(1)] Ring_Get_owner [OF 2(1)] by simp
qed

theorem Add_Remove_roundtrip_witness:
  "\<exists>hr1 rst hr2. add (NewHashRing 3 20) ''/game/1'' = Some (hr1, rst) \<and> remove hr1 ''/game/1'' = Some hr2
    \<and> Ring_Get hr2 ''42'' = Some (Some ErrEmptyRing, [])"
proof -
  obtain hr1 rst where 1: "add (NewHashRing 3 20) ''/game/1'' = Some (hr1, rst)" "ring_ok hr1"
    using Add_to_new [of 3 20 "''/game/1''"] by auto
  obtain hr2 where 2: "remove hr1 ''/game/1'' = Some hr2"
    using remove_ring_ok [OF 1(2)] by blast
  have "ids (NewHashRing 3 20) ''/game/1'' \<inter> points (NewHashRing 3 20) = {}" by simp
  from Add_Remove_roundtrip [OF New_ring_ok this 1(1) 2, of "''42''"] show ?thesis
    using 1 2 by (simp add: Ring_Get_def)
qed

text \<open>
  Members whose names do not start with a digit, such as the registry keys, never share the key
  of a virtual node.
\<close>

theorem eltKey_inject:
  assumes "a = [] \<or> \<not> is_digit (hd a)" and "b = [] \<or> \<not> is_digit (hd b)"
    and "eltKey a i = eltKey b j"
  shows "a = b \<and> i = j"
  using digits_append_inject [of i a j b] assms by (simp add: eltKey_def Itoa_def)

theorem eltKey_inject_witness:
  "eltKey ''/game/1'' 2 = eltKey ''/game/1'' 2 \<and> ''/game/1'' = ''/game/1'' \<and> (2::nat) = 2"
  using eltKey_inject [of "''/game/1''" "''/game/1''" 2 2] by (simp add: is_digit_def)

text \<open>
  Members with numeric names do share them: the index is put in front of the name without a
  separator, so with at least 12 virtual nodes the members \<open>1\<close> and \<open>11\<close> have the virtual node
  \<open>111\<close> in common, and removing \<open>11\<close> takes it away from the member \<open>1\<close> that stays.
\<close>

theorem numeric_members_share_virtual_nodes:
  assumes "ring_ok hr" and "12 \<le> unat (rRep hr)"
    and "add hr ''1'' = Some (hr1, r1)" and "add hr1 ''11'' = Some (hr2, r2)" and "remove hr2 ''11'' = Some hr3"
  shows "HasMember hr3 ''1'' \<and> (\<exists>vid \<in> set r1. map_of (m_RingMap hr3) vid = None)"
proof -
  from add_ring_ok [OF assms(1), of "''1''"] assms(3) have 1: "ring_ok hr1" "rRep hr1 = rRep hr"
    "HasMember hr1 ''1''" "r1 = map (\<lambda>i. hashKey (eltKey ''1'' i)) [0..<unat (rRep hr)]"
    by auto
  from add_ring_ok [OF 1(1), of "''11''"] assms(4) 1(3) have 2: "ring_ok hr2" "rRep hr2 = rRep hr1"
    "HasMember hr2 ''1''"
    by auto
  from remove_ring_ok [OF 2(1), of "''11''"] assms(5) 2(3) have 3: "HasMember hr3 ''1''"
    "map_of (m_RingMap hr3) = (\<lambda>vid. if vid \<in> ids hr2 ''11'' then None else map_of (m_RingMap hr2) vid)"
    by auto
  have same: "eltKey ''1'' 11 = eltKey ''11'' 1"
    by (simp add: eltKey_def Itoa_def nat_digits.simps)
  have "hashKey (eltKey ''11'' 1) \<in> ids hr2 ''11''"
    unfolding ids_def using assms(2) 1(2) 2(2) by (intro imageI) simp
  then have "map_of (m_RingMap hr3) (hashKey (eltKey ''1'' 11)) = None"
    using same by (simp add: 3(2))
  moreover have "hashKey (eltKey ''1'' 11) \<in> set r1"
    using assms(2) unfolding 1(4) by (auto intro!: imageI)
  ultimately show ?thesis using 3(1) by blast
qed

theorem numeric_members_share_virtual_nodes_witness:
  "\<exists>hr1 r1 hr2 r2 hr3. add (NewHashRing 20 20) ''1'' = Some (hr1, r1) \<and> add hr1 ''11'' = Some (hr2, r2)
    \<and> remove hr2 ''11'' = Some hr3 \<and> (\<exists>vid \<in> set r1. map_of (m_RingMap hr3) vid = None)"
proof -
  obtain hr1 r1 where 1: "add (NewHashRing 20 20) ''1'' = Some (hr1, r1)" "ring_ok hr1"
    using add_ring_ok [OF New_ring_ok] by blast
  obtain hr2 r2 where 2: "add hr1 ''11'' = Some (hr2, r2)" "ring_ok hr2"
    using add_ring_ok [OF 1(2)] by blast
  obtain hr3 where 3: "remove hr2 ''11'' = Some hr3"
    using remove_ring_ok [OF 2(2)] by blast
  have "12 \<le> unat (rRep (NewHashRing 20 20))" by simp
  from numeric_members_share_virtual_nodes [OF New_ring_ok this 1(1) 2(1) 3] show ?thesis
    using 1 2 3 by blast
qed

end
