(* ===== verification/Paths.thy ===== *)
theory Paths
  imports Strings
begin

text \<open>
  The functions of Go's \<open>strings\<close> and \<open>path/filepath\<close> (on Unix) that the dispatcher applies to
  registry keys and configuration entries.
\<close>

section \<open>Splitting and trimming\<close>

text \<open>\<open>strings.Split(s, sep)\<close> for a separator of one byte.\<close>

fun split_on :: "char \<Rightarrow> string \<Rightarrow> string list" where
  "split_on c [] = [[]]"
| "split_on c (x # xs) =
     (if x = c then [] # split_on c xs
      else (case split_on c xs of [] \<Rightarrow> [[x]] | y # ys \<Rightarrow> (x # y) # ys))"

text \<open>\<open>strings.Join\<close>, used to state what splitting means.\<close>

fun join_with :: "char \<Rightarrow> string list \<Rightarrow> string" where
  "join_with c [] = []"
| "join_with c [s] = s"
| "join_with c (s # t # ss) = s @ c # join_with c (t # ss)"

text \<open>The ASCII white space that \<open>strings.TrimSpace\<close> removes.\<close>

definition is_space :: "char \<Rightarrow> bool" where
  "is_space c = ((of_char c :: nat) \<in> {9, 10, 11, 12, 13, 32})"

definition TrimSpace :: "string \<Rightarrow> string" where
  "TrimSpace s = rev (dropWhile is_space (rev (dropWhile is_space s)))"

text \<open>\<open>strings.ReplaceAll\<close> of one byte by another.\<close>

definition ReplaceAll :: "string \<Rightarrow> char \<Rightarrow> char \<Rightarrow> string" where
  "ReplaceAll s old new = map (\<lambda>c. if c = old then new else c) s"

lemma split_on_nonempty [simp]: "split_on c s \<noteq> []"
  by (induction s) (auto split: list.split)

lemma join_split [simp]: "join_with c (split_on c s) = s"
proof (induction s)
  case (Cons x xs)
  obtain y ys where "split_on c xs = y # ys"
    using split_on_nonempty by (metis list.exhaust)
  with Cons show ?case by (cases ys) auto
qed simp

lemma split_on_free: "c \<notin> set s \<Longrightarrow> split_on c s = [s]"
  by (induction s) auto

lemma split_on_append: "c \<notin> set s \<Longrightarrow> split_on c (s @ c # t) = s # split_on c t"
  by (induction s) auto

lemma split_on_parts: "p \<in> set (split_on c s) \<Longrightarrow> c \<notin> set p"
  by (induction s arbitrary: p) (auto split: list.splits if_splits)

lemma ReplaceAll_absent: "old \<notin> set s \<Longrightarrow> ReplaceAll s old new = s"
  unfolding ReplaceAll_def by (rule map_idI) auto

section \<open>Paths\<close>

text \<open>
  \<open>filepath.Clean\<close>, on the components of the path: empty components and \<open>.\<close> disappear, \<open>..\<close>
  takes the component before it away, or stays at the front of a path that is not rooted.
\<close>

fun clean_step :: "bool \<Rightarrow> string list \<Rightarrow> string \<Rightarrow> string list" where
  "clean_step rooted out c =
     (if c = [] \<or> c = ''.'' then out
      else if c = ''..'' then
        (if out \<noteq> [] \<and> last out \<noteq> ''..'' then butlast out
         else if rooted then out else out @ [c])
      else out @ [c])"

definition Clean :: "string \<Rightarrow> string" where
  "Clean path =
     (if path = [] then ''.''
      else let rooted = (hd path = CHR ''/'');
               out = foldl (clean_step rooted) [] (split_on (CHR ''/'') path);
               body = join_with (CHR ''/'') out
           in if rooted then CHR ''/'' # body else if body = [] then ''.'' else body)"

text \<open>\<open>filepath.Dir\<close> cleans what comes before the last separator, separator included.\<close>

definition Dir :: "string \<Rightarrow> string" where
  "Dir path = Clean (rev (dropWhile (\<lambda>c. c \<noteq> CHR ''/'') (rev path)))"

text \<open>\<open>filepath.Base\<close>: the last component, trailing separators removed first.\<close>

definition Base :: "string \<Rightarrow> string" where
  "Base path =
     (if path = [] then ''.''
      else let p = rev (dropWhile (\<lambda>c. c = CHR ''/'') (rev path));
               b = rev (takeWhile (\<lambda>c. c \<noteq> CHR ''/'') (rev p))
           in if b = [] then ''/'' else b)"

lemma Base_nonempty [simp]: "Base path \<noteq> []"
  by (simp add: Base_def Let_def)

text \<open>A plain component: what the registry keys are made of.\<close>

definition plain :: "string \<Rightarrow> bool" where
  "plain c = (c \<noteq> [] \<and> CHR ''/'' \<notin> set c \<and> c \<noteq> ''.'' \<and> c \<noteq> ''..'')"

lemma dropWhile_no_slash: "CHR ''/'' \<notin> set s \<Longrightarrow>
    dropWhile (\<lambda>c. c \<noteq> CHR ''/'') (rev s @ CHR ''/'' # t) = CHR ''/'' # t"
  by (subst dropWhile_append2) auto

lemma Dir_key:
  assumes "plain a" and "plain b" and "CHR ''/'' \<notin> set c"
  shows "Dir (a @ ''/'' @ b @ ''/'' @ c) = a @ ''/'' @ b"
proof -
  have "rev (dropWhile (\<lambda>c. c \<noteq> CHR ''/'') (rev (a @ ''/'' @ b @ ''/'' @ c))) = a @ ''/'' @ b @ ''/''"
    using dropWhile_no_slash [OF assms(3), of "rev b @ ''/'' @ rev a"] by simp
  moreover have "split_on (CHR ''/'') (a @ ''/'' @ b @ ''/'') = [a, b, []]"
    using assms(1,2) by (simp add: plain_def split_on_append)
  moreover have "hd (a @ ''/'' @ b @ ''/'') \<noteq> CHR ''/''"
    using assms(1) by (cases a) (auto simp: plain_def)
  ultimately show ?thesis
    using assms(1,2) by (simp add: Dir_def Clean_def plain_def Let_def)
qed

lemma Base_component:
  assumes "c \<noteq> []" and "CHR ''/'' \<notin> set c"
  shows "Base (p @ ''/'' @ c) = c"
proof -
  obtain x xs where rc: "rev c = x # xs" using assms(1) by (cases "rev c") auto
  then have "x \<noteq> CHR ''/''" using assms(2) by (metis list.set_intros(1) set_rev)
  then have "dropWhile (\<lambda>c. c = CHR ''/'') (rev (p @ ''/'' @ c)) = rev c @ ''/'' @ rev p"
    using rc by simp
  moreover have "takeWhile (\<lambda>c. c \<noteq> CHR ''/'') (rev c @ ''/'' @ rev p) = rev c"
    using assms(2) by (subst takeWhile_append2) auto
  ultimately show ?thesis using assms(1) by (simp add: Base_def Let_def)
qed

end
