(* ===== verification/Options.thy ===== *)
theory Options
  imports Strings
begin

text \<open>
  \<open>module/options.go\<close>, the functional options; \<open>app/options.go\<close>, the options an application
  starts with; and the context value \<open>wait\<close> of \<open>service/context.go\<close>.
\<close>

section \<open>The options\<close>

text \<open>
  An interface value (\<open>Server\<close>, \<open>Processor\<close>, \<open>RPC\<close>) is nil or a reference. A context carries the
  values set with \<open>context.WithValue\<close>, the innermost first; the only values the program stores
  are booleans. A \<open>time.Duration\<close> is a 64-bit integer.
\<close>

type_synonym object = "nat option"

record Options =
  opt_Context :: "(string \<times> bool) list option"
  opt_HostName :: string
  opt_PID :: string
  opt_Metadata :: "(string \<times> string) list"
  opt_Version :: string
  opt_RunMode :: string
  opt_Debug :: bool
  opt_Parse :: bool
  opt_WorkDir :: string
  opt_AppName :: string
  opt_ConfName :: string
  opt_ETCDHosts :: "string list"
  opt_ETCDUser :: string
  opt_ETCDPassword :: string
  opt_ETCDCertFile :: string
  opt_ETCDKeyFile :: string
  opt_NetType :: string
  opt_ServerType :: string
  opt_ServerName :: string
  opt_ServerIP :: string
  opt_ServerIPOut :: string
  opt_ServerPort :: string
  opt_ServerConTypes :: "string list"
  opt_HeartBeatInterval :: i64
  opt_ExitWaitTTL :: i64
  opt_RegisterInterval :: i64
  opt_RegisterTTL :: i64
  opt_RPCExpired :: i64
  opt_RPCMaxCoroutine :: u32
  opt_MaxConn :: i32
  opt_MaxPacketSize :: i64
  opt_ReadDeadline :: i64
  opt_WriteDeadline :: i64
  opt_RpmLimit :: u32
  opt_MaxMsgChanLen :: u32
  opt_NetHeadSize :: u16
  opt_ByteOrder :: bool
  opt_NatsHosts :: "string list"
  opt_Serv :: object
  opt_Process :: object
  opt_Rpc :: object
  opt_DisLen :: u32
  opt_DisRep :: u32
  opt_HBBack :: bool
  opt_QMsgLen :: u32

type_synonym Option = "Options \<Rightarrow> Options"

section \<open>The functional options\<close>

definition Version :: "string \<Rightarrow> Option" where
  "Version v opts = opts\<lparr>opt_Version := v\<rparr>"

definition Debug :: "bool \<Rightarrow> Option" where
  "Debug v opts = opts\<lparr>opt_Debug := v\<rparr>"

definition WorkDir :: "string \<Rightarrow> Option" where
  "WorkDir v opts = opts\<lparr>opt_WorkDir := v\<rparr>"

definition Conf :: "string \<Rightarrow> Option" where
  "Conf v opts = opts\<lparr>opt_ConfName := v\<rparr>"

definition RegisterTTL :: "i64 \<Rightarrow> Option" where
  "RegisterTTL v opts = opts\<lparr>opt_RegisterTTL := v\<rparr>"

definition RegisterInterval :: "i64 \<Rightarrow> Option" where
  "RegisterInterval v opts = opts\<lparr>opt_RegisterInterval := v\<rparr>"

definition ExitWaitTTL :: "i64 \<Rightarrow> Option" where
  "ExitWaitTTL v opts = opts\<lparr>opt_ExitWaitTTL := v\<rparr>"

definition Parse :: "bool \<Rightarrow> Option" where
  "Parse v opts = opts\<lparr>opt_Parse := v\<rparr>"

definition RPCExpired :: "i64 \<Rightarrow> Option" where
  "RPCExpired v opts = opts\<lparr>opt_RPCExpired := v\<rparr>"

definition RPCMaxCoroutine :: "u32 \<Rightarrow> Option" where
  "RPCMaxCoroutine v opts = opts\<lparr>opt_RPCMaxCoroutine := v\<rparr>"

definition Metadata :: "(string \<times> string) list \<Rightarrow> Option" where
  "Metadata v opts = opts\<lparr>opt_Metadata := v\<rparr>"

definition Wait :: "bool \<Rightarrow> Option" where
  "Wait b opts = (let ctx = (case opt_Context opts of None \<Rightarrow> [] | Some vals \<Rightarrow> vals)
     in opts\<lparr>opt_Context := Some ((''wait'', b) # ctx)\<rparr>)"

definition NetType :: "string \<Rightarrow> Option" where
  "NetType v opts = opts\<lparr>opt_NetType := v\<rparr>"

definition Process :: "object \<Rightarrow> Option" where
  "Process v opts = opts\<lparr>opt_Process := v\<rparr>"

definition ReadDeadline :: "i64 \<Rightarrow> Option" where
  "ReadDeadline v opts = opts\<lparr>opt_ReadDeadline := v\<rparr>"

definition WriteDeadline :: "i64 \<Rightarrow> Option" where
  "WriteDeadline v opts = opts\<lparr>opt_WriteDeadline := v\<rparr>"

definition NetHeadSize :: "u16 \<Rightarrow> Option" where
  "NetHeadSize v opts = opts\<lparr>opt_NetHeadSize := v\<rparr>"

definition ByteOrder :: "bool \<Rightarrow> Option" where
  "ByteOrder v opts = opts\<lparr>opt_ByteOrder := v\<rparr>"

definition Serv :: "object \<Rightarrow> Option" where
  "Serv v opts = opts\<lparr>opt_Serv := v\<rparr>"

definition DisLen :: "u32 \<Rightarrow> Option" where
  "DisLen v opts = opts\<lparr>opt_DisLen := v\<rparr>"

definition DisRep :: "u32 \<Rightarrow> Option" where
  "DisRep v opts = opts\<lparr>opt_DisRep := v\<rparr>"

definition HBBack :: "bool \<Rightarrow> Option" where
  "HBBack v opts = opts\<lparr>opt_HBBack := v\<rparr>"

definition MaxConn :: "i32 \<Rightarrow> Option" where
  "MaxConn v opts = opts\<lparr>opt_MaxConn := v\<rparr>"

definition MaxPacketSize :: "i64 \<Rightarrow> Option" where
  "MaxPacketSize v opts = opts\<lparr>opt_MaxPacketSize := v\<rparr>"

definition HeartBeatInterval :: "i64 \<Rightarrow> Option" where
  "HeartBeatInterval v opts = opts\<lparr>opt_HeartBeatInterval := v\<rparr>"

definition RpmLimit :: "u32 \<Rightarrow> Option" where
  "RpmLimit v opts = opts\<lparr>opt_RpmLimit := v\<rparr>"

definition MaxMsgChanLen :: "u32 \<Rightarrow> Option" where
  "MaxMsgChanLen v opts = opts\<lparr>opt_MaxMsgChanLen := v\<rparr>"

definition QMsgLen :: "u32 \<Rightarrow> Option" where
  "QMsgLen v opts = opts\<lparr>opt_QMsgLen := v\<rparr>"

text \<open>Options are applied in the order they are given (\<open>UpdateOptions\<close>, and the loop of \<open>newOptions\<close>).\<close>

definition UpdateOptions :: "Options \<Rightarrow> Option list \<Rightarrow> Options" where
  "UpdateOptions opts os = foldl (\<lambda>acc f. f acc) opts os"

text \<open>\<open>wait\<close> of \<open>service/context.go\<close>.\<close>

definition ctx_wait :: "(string \<times> bool) list option \<Rightarrow> bool" where
  "ctx_wait ctx = (case ctx of None \<Rightarrow> False
     | Some vals \<Rightarrow> (case map_of vals ''wait'' of None \<Rightarrow> False | Some b \<Rightarrow> b))"

text \<open>
  \<open>NewContext\<close> and \<open>FromContext\<close>: a context is a list of values under keys of any type, of which the
  newest counts. The key of a server has a type of its own, so that no other package can use it; a
  nil context panics (\<open>None\<close>), and a value of another type is not a server.
\<close>

datatype ctx_key = ServerKey | OtherKey string
datatype ctx_value = CtxServer nat | CtxOther

definition NewContext :: "(ctx_key \<times> ctx_value) list \<Rightarrow> nat \<Rightarrow> (ctx_key \<times> ctx_value) list" where
  "NewContext ctx s = (ServerKey, CtxServer s) # ctx"

definition FromContext :: "(ctx_key \<times> ctx_value) list option \<Rightarrow> (nat option \<times> bool) option" where
  "FromContext ctx = do {
     vals \<leftarrow> ctx;
     Some (case map_of vals ServerKey of Some (CtxServer s) \<Rightarrow> (Some s, True) | _ \<Rightarrow> (None, False))
   }"

section \<open>The options of an application\<close>

text \<open>
  What \<open>newOptions\<close> reads from outside: the command line, the file system, and the configuration
  file through \<open>viper\<close> (third-party: its answers are functions).
\<close>

record Flags =
  flag_wdir :: string
  flag_conf :: string
  flag_name :: string
  flag_port :: string

record Env =
  env_getwd :: "string option"
  env_exec_dir :: string
  env_open :: "string \<Rightarrow> bool"
  env_mkdir :: "string \<Rightarrow> bool"
  cfg_read :: "string \<Rightarrow> string \<Rightarrow> bool"
  cfg_string :: "string \<Rightarrow> string"
  cfg_slice :: "string \<Rightarrow> string list"
  cfg_uint32 :: "string \<Rightarrow> u32"

definition default_options :: Options where
  "default_options = \<lparr>opt_Context = None, opt_HostName = [], opt_PID = [], opt_Metadata = [], opt_Version = [],
     opt_RunMode = [], opt_Debug = False, opt_Parse = True, opt_WorkDir = [], opt_AppName = [],
     opt_ConfName = ''app'', opt_ETCDHosts = [], opt_ETCDUser = [], opt_ETCDPassword = [],
     opt_ETCDCertFile = [], opt_ETCDKeyFile = [], opt_NetType = ''tcp'', opt_ServerType = [],
     opt_ServerName = [], opt_ServerIP = [], opt_ServerIPOut = [], opt_ServerPort = [],
     opt_ServerConTypes = [], opt_HeartBeatInterval = 10, opt_ExitWaitTTL = 10, opt_RegisterInterval
     = 3, opt_RegisterTTL = 5, opt_RPCExpired = 5, opt_RPCMaxCoroutine = 0, opt_MaxConn = 100000,
     opt_MaxPacketSize = 4096, opt_ReadDeadline = 60, opt_WriteDeadline = 60, opt_RpmLimit = 20,
     opt_MaxMsgChanLen = 128, opt_NetHeadSize = 2, opt_ByteOrder = True, opt_NatsHosts = [],
     opt_Serv = None, opt_Process = Some 0, opt_Rpc = None, opt_DisLen = 10000, opt_DisRep = 5,
     opt_HBBack = False, opt_QMsgLen = 10000\<rparr>"

text \<open>The working directory: the flag, else the current directory, else that of the executable.\<close>

definition work_dir :: "Env \<Rightarrow> string \<Rightarrow> string option" where
  "work_dir env wdPath =
     (if wdPath = [] then Some (case env_getwd env of None \<Rightarrow> env_exec_dir env | Some d \<Rightarrow> d)
      else if env_open env wdPath then Some wdPath else None)"

definition non_empty :: "string \<Rightarrow> string \<Rightarrow> string" where
  "non_empty new old = (if new \<noteq> [] then new else old)"

definition positive :: "u32 \<Rightarrow> u32 \<Rightarrow> u32" where
  "positive new old = (if new > 0 then new else old)"

text \<open>The fields that are read from the configuration file, and the overrides that follow.\<close>

definition read_config :: "Env \<Rightarrow> string \<Rightarrow> Options \<Rightarrow> Options" where
  "read_config env wd opts =
     (let certFile = cfg_string env ''app.etcd.certFile'';
          keyFile = cfg_string env ''app.etcd.keyFile''
      in opts\<lparr>
       opt_ETCDHosts := cfg_slice env ''app.etcd.hosts'',
       opt_NatsHosts := cfg_slice env ''app.nats.hosts'',
       opt_ETCDUser := cfg_string env ''app.etcd.user'',
       opt_ETCDPassword := cfg_string env ''app.etcd.pwd'',
       opt_ETCDCertFile := (if certFile \<noteq> [] then wd @ ''/config/tls/'' @ certFile else opt_ETCDCertFile opts),
       opt_ETCDKeyFile := (if keyFile \<noteq> [] then wd @ ''/config/tls/'' @ keyFile else opt_ETCDKeyFile opts),
       opt_AppName := cfg_string env ''app.name'',
       opt_ServerType := cfg_string env ''app.serverType'',
       opt_ServerName := cfg_string env ''app.serverName'',
       opt_ServerIP := cfg_string env ''app.ip'',
       opt_ServerIPOut := cfg_string env ''app.ipOut'',
       opt_ServerPort := cfg_string env ''app.port'',
       opt_ServerConTypes := cfg_slice env ''app.conTypes'',
       opt_RunMode := cfg_string env ''app.runMode'',
       opt_DisLen := positive (cfg_uint32 env ''app.disLen'') (opt_DisLen opts),
       opt_DisRep := positive (cfg_uint32 env ''app.disRep'') (opt_DisRep opts),
       opt_QMsgLen := positive (cfg_uint32 env ''app.qMsgLen'') (opt_QMsgLen opts)\<rparr>)"

definition override :: "Flags \<Rightarrow> Options \<Rightarrow> Options" where
  "override fl opts = opts\<lparr>
     opt_Debug := (if opt_RunMode opts = ''debug'' then True
       else if opt_RunMode opts = ''release'' \<or> opt_RunMode opts = ''dev'' then False
       else opt_Debug opts),
     opt_ServerPort := non_empty (flag_port fl) (opt_ServerPort opts),
     opt_ServerName := non_empty (flag_name fl) (opt_ServerName opts)\<rparr>"

text \<open>
  \<open>newOptions\<close>; \<open>None\<close> is a panic. The flag variables are nil pointers when \<open>Parse\<close> is off, and
  are dereferenced all the same.
\<close>

definition newOptions :: "Env \<Rightarrow> Flags \<Rightarrow> Option list \<Rightarrow> Options option" where
  "newOptions env flags os = (let opt1 = UpdateOptions default_options os in do {
     fl \<leftarrow> (if opt_Parse opt1 then Some flags else None);
     wd \<leftarrow> work_dir env (flag_wdir fl);
     let opt2 = opt1\<lparr>opt_WorkDir := wd, opt_ConfName := non_empty (flag_conf fl) (opt_ConfName opt1)\<rparr>;
     let confPath = wd @ ''/config'';
     let confFile = confPath @ ''/'' @ opt_ConfName opt2 @ ''.yaml'';
     _ \<leftarrow> (if env_open env confFile then Some () else None);
     _ \<leftarrow> (if cfg_read env confPath (opt_ConfName opt2) then Some () else None);
     let logsPath = (if cfg_string env ''app.logPath'' = [] then wd @ ''/logs/'' else cfg_string env ''app.logPath'');
     _ \<leftarrow> (if env_open env logsPath \<or> env_mkdir env logsPath then Some () else None);
     _ \<leftarrow> (if cfg_slice env ''app.etcd.hosts'' = [] then None else Some ());
     _ \<leftarrow> (if cfg_slice env ''app.nats.hosts'' = [] then None else Some ());
     Some (override fl (read_config env wd opt2))
   })"

section \<open>Properties\<close>

lemmas option_defs = Version_def Debug_def WorkDir_def Conf_def RegisterTTL_def RegisterInterval_def
  ExitWaitTTL_def Parse_def RPCExpired_def RPCMaxCoroutine_def Metadata_def Wait_def NetType_def
  Process_def ReadDeadline_def WriteDeadline_def NetHeadSize_def ByteOrder_def Serv_def DisLen_def
  DisRep_def HBBack_def MaxConn_def MaxPacketSize_def HeartBeatInterval_def RpmLimit_def
  MaxMsgChanLen_def QMsgLen_def

lemma UpdateOptions_append: "UpdateOptions opts (fs @ gs) = UpdateOptions (UpdateOptions opts fs) gs"
  by (simp add: UpdateOptions_def)

lemma FromContext_NewContext:
  "FromContext (Some (NewContext ctx s)) = Some (Some s, True)"
  "FromContext (Some (NewContext ctx s @ ctx')) = Some (Some s, True)"
  "FromContext (Some ((OtherKey k, v) # ctx)) = FromContext (Some ctx)"
  by (simp_all add: FromContext_def NewContext_def)

lemma wait_after_Wait: "ctx_wait (opt_Context (Wait b opts)) = b"
  by (simp add: ctx_wait_def Wait_def Let_def)

text \<open>
  What the configuration decides: when \<open>newOptions\<close> returns, the etcd and NATS hosts are there, the
  command line wins over the configuration file for the port and the name, the number of virtual
  nodes is the configured one when that is positive and that of the program's options otherwise,
  and the run modes of the configuration decide the debug flag.
\<close>

theorem newOptions_sources:
  assumes "newOptions env flags os = Some opts"
  shows "opt_ETCDHosts opts \<noteq> [] \<and> opt_NatsHosts opts \<noteq> []
    \<and> opt_ServerPort opts = (if flag_port flags \<noteq> [] then flag_port flags else cfg_string env ''app.port'')
    \<and> opt_ServerName opts = (if flag_name flags \<noteq> [] then flag_name flags else cfg_string env ''app.serverName'')
    \<and> opt_DisRep opts = (if cfg_uint32 env ''app.disRep'' > 0 then cfg_uint32 env ''app.disRep''
        else opt_DisRep (UpdateOptions default_options os))
    \<and> (opt_RunMode opts = ''debug'' \<longrightarrow> opt_Debug opts)
    \<and> (opt_RunMode opts \<in> {''release'', ''dev''} \<longrightarrow> \<not> opt_Debug opts)"
proof -
  from assms obtain wd where
    hosts: "cfg_slice env ''app.etcd.hosts'' \<noteq> []" "cfg_slice env ''app.nats.hosts'' \<noteq> []"
    and opts: "opts = override flags (read_config env wd (UpdateOptions default_options os\<lparr>opt_WorkDir := wd,
      opt_ConfName := non_empty (flag_conf flags) (opt_ConfName (UpdateOptions default_options os))\<rparr>))"
    unfolding newOptions_def Let_def by (auto split: if_splits bind_splits)
  show ?thesis
    using hosts unfolding opts by (simp add: override_def read_config_def Let_def non_empty_def positive_def)
qed

definition example_env :: Env where
  "example_env = \<lparr>env_getwd = Some ''/srv'', env_exec_dir = [], env_open = (\<lambda>_. True), env_mkdir = (\<lambda>_. True),
     cfg_read = (\<lambda>_ _. True), cfg_string = (\<lambda>k. if k = ''app.port'' then ''8080'' else ''x''),
     cfg_slice = (\<lambda>_. [''h:1'']), cfg_uint32 = (\<lambda>_. 7)\<rparr>"

theorem newOptions_sources_witness:
  "\<exists>opts. newOptions example_env \<lparr>flag_wdir = [], flag_conf = [], flag_name = [], flag_port = ''9000''\<rparr> [DisRep 9]
      = Some opts \<and> opt_ServerPort opts = ''9000'' \<and> opt_DisRep opts = 7"
proof -
  let ?fl = "\<lparr>flag_wdir = [], flag_conf = [], flag_name = [], flag_port = ''9000''\<rparr>"
  have "opt_Parse (UpdateOptions default_options [DisRep 9])"
    by (simp add: UpdateOptions_def DisRep_def default_options_def)
  then obtain opts where opts: "newOptions example_env ?fl [DisRep 9] = Some opts"
    by (simp add: newOptions_def work_dir_def example_env_def Let_def)
  from newOptions_sources [OF opts] show ?thesis
    using opts by (simp add: example_env_def)
qed

text \<open>
  Turning command-line parsing off makes \<open>newOptions\<close> dereference nil flag variables: it panics
  for every configuration.
\<close>

theorem newOptions_without_Parse_panics:
  assumes "\<forall>f \<in> set os. \<forall>o1. opt_Parse (f o1) = opt_Parse o1"
  shows "newOptions env flags (Parse False # os) = None"
proof -
  have "opt_Parse (UpdateOptions opts os) = opt_Parse opts" for opts
    using assms by (induction os arbitrary: opts) (simp_all add: UpdateOptions_def)
  then show ?thesis
    by (simp add: newOptions_def UpdateOptions_def Parse_def Let_def)
qed

theorem newOptions_without_Parse_panics_witness:
  "newOptions example_env \<lparr>flag_wdir = [], flag_conf = [], flag_name = [], flag_port = []\<rparr> [Parse False, DisRep 9] = None"
  using newOptions_without_Parse_panics [of "[DisRep 9]" example_env "\<lparr>flag_wdir = [], flag_conf = [], flag_name = [], flag_port = []\<rparr>"]
  by (simp add: DisRep_def)

end
