(* ===== verification/Common.thy ===== *)
theory Common
  imports Prelude
begin

text \<open>
  \<open>common/define.go\<close>: the reserved message and error codes, the error texts, and the routing
  types; the message of \<open>msg/framepb\<close> that all components pass on.
\<close>

section \<open>Messages\<close>

record Msg =
  Seq :: u32
  ID :: u32
  Body :: string
  MsgKey :: u64
  UID :: u64

section \<open>Constants\<close>

definition BROATCAST :: string where "BROATCAST = ''broatcast''"
definition REQUEST :: string where "REQUEST = ''req''"
definition PUBLISH :: string where "PUBLISH = ''pub''"
definition SEND :: string where "SEND = ''send''"

text \<open>\<open>RouteType\<close> is an \<open>int8\<close>; the conversion from \<open>int\<close> keeps the low eight bits.\<close>

type_synonym RouteType = i8

definition Default :: RouteType where "Default = 0"
definition Hash :: RouteType where "Hash = 1"
definition Direct :: RouteType where "Direct = 2"

definition to_RouteType :: "int \<Rightarrow> RouteType" where
  "to_RouteType i = word_of_int i"

definition Default_Frame_MAX :: u32 where "Default_Frame_MAX = 1000"
definition Error_MAX :: u32 where "Error_MAX = 600"
definition Err_OK :: u32 where "Err_OK = 200"
definition Err_ParameterIllegal :: u32 where "Err_ParameterIllegal = 201"
definition Err_UnauthorizedUserId :: u32 where "Err_UnauthorizedUserId = 202"
definition Err_Unauthorized :: u32 where "Err_Unauthorized = 203"
definition Err_ServerError :: u32 where "Err_ServerError = 204"
definition Err_NotData :: u32 where "Err_NotData = 205"
definition Err_OperationFailure :: u32 where "Err_OperationFailure = 206"
definition Err_RoutingNotExist :: u32 where "Err_RoutingNotExist = 207"
definition Err_HandlerFuncRetErr :: u32 where "Err_HandlerFuncRetErr = 208"
definition Err_HandlerFuncErr :: u32 where "Err_HandlerFuncErr = 209"
definition Err_SeedEncoderErr :: u32 where "Err_SeedEncoderErr = 210"
definition Err_SeedDecoderErr :: u32 where "Err_SeedDecoderErr = 211"
definition Err_RpcRequestErr :: u32 where "Err_RpcRequestErr = 212"

definition Msg_Heartbeat :: u32 where "Msg_Heartbeat = 701"
definition Msg_Verify :: u32 where "Msg_Verify = 702"
definition Msg_Kick :: u32 where "Msg_Kick = 704"
definition Msg_RegBroatCast :: u32 where "Msg_RegBroatCast = 706"
definition Msg_DisregBroatCast :: u32 where "Msg_DisregBroatCast = 707"
definition Msg_ReRoute :: u32 where "Msg_ReRoute = 708"
definition Msg_Heartbeat_Rst :: u32 where "Msg_Heartbeat_Rst = 801"
definition Msg_Verify_Rst_Suc :: u32 where "Msg_Verify_Rst_Suc = 802"
definition Msg_Verify_Rst_Fail :: u32 where "Msg_Verify_Rst_Fail = 803"
definition Msg_Kick_Rst :: u32 where "Msg_Kick_Rst = 804"
definition Msg_BroatCast_Rst :: u32 where "Msg_BroatCast_Rst = 805"

lemmas code_defs = Default_Frame_MAX_def Error_MAX_def Err_OK_def Err_ParameterIllegal_def
  Err_UnauthorizedUserId_def Err_Unauthorized_def Err_ServerError_def Err_NotData_def
  Err_OperationFailure_def Err_RoutingNotExist_def Err_HandlerFuncRetErr_def Err_HandlerFuncErr_def
  Err_SeedEncoderErr_def Err_SeedDecoderErr_def Err_RpcRequestErr_def
  Msg_Heartbeat_def Msg_Verify_def Msg_Kick_def Msg_RegBroatCast_def Msg_DisregBroatCast_def
  Msg_ReRoute_def Msg_Heartbeat_Rst_def Msg_Verify_Rst_Suc_def Msg_Verify_Rst_Fail_def
  Msg_Kick_Rst_def Msg_BroatCast_Rst_def

section \<open>Error texts\<close>

text \<open>The Chinese texts, as UTF-8 bytes.\<close>

definition bytes :: "nat list \<Rightarrow> string" where
  "bytes ns = map char_of ns"

definition text_no_data :: string where
  "text_no_data = bytes [0xE6,0xB2,0xA1,0xE6,0x9C,0x89,0xE6,0x95,0xB0,0xE6,0x8D,0xAE]"

definition text_system_error :: string where
  "text_system_error = bytes [0xE7,0xB3,0xBB,0xE7,0xBB,0x9F,0xE9,0x94,0x99,0xE8,0xAF,0xAF]"

definition errCodeMap :: "(u32 \<times> string) list" where
  "errCodeMap = [
    (Err_OK, ''Success''),
    (Err_ParameterIllegal, bytes [0xE5,0x8F,0x82,0xE6,0x95,0xB0,0xE4,0xB8,0x8D,0xE5,0x90,0x88,0xE6,0xB3,0x95]),
    (Err_UnauthorizedUserId, bytes [0xE9,0x9D,0x9E,0xE6,0xB3,0x95,0xE7,0x9A,0x84,0xE7,0x94,0xA8,0xE6,0x88,0xB7,0x49,
      0x64]),
    (Err_Unauthorized, bytes [0xE6,0x9C,0xAA,0xE6,0x8E,0x88,0xE6,0x9D,0x83]),
    (Err_ServerError, text_no_data),
    (Err_NotData, text_system_error),
    (Err_OperationFailure, bytes [0xE6,0x93,0x8D,0xE4,0xBD,0x9C,0xE5,0xA4,0xB1,0xE8,0xB4,0xA5]),
    (Err_RoutingNotExist, bytes [0xE8,0xB7,0xAF,0xE7,0x94,0xB1,0xE4,0xB8,0x8D,0xE5,0xAD,0x98,0xE5,0x9C,0xA8]),
    (Err_HandlerFuncRetErr, bytes [0xE8,0xB7,0xAF,0xE7,0x94,0xB1,0xE6,0x96,0xB9,0xE6,0xB3,0x95,0xE8,0xBF,0x94,0xE5,
      0x9B,0x9E,0xE9,0x94,0x99,0xE8,0xAF,0xAF]),
    (Err_HandlerFuncErr, bytes [0xE8,0xB7,0xAF,0xE7,0x94,0xB1,0xE6,0x96,0xB9,0xE6,0xB3,0x95,0xE9,0x94,0x99,0xE8,
      0xAF,0xAF])]"

definition text_undefined :: string where
  "text_undefined = bytes [0xE6,0x9C,0xAA,0xE5,0xAE,0x9A,0xE4,0xB9,0x89,0xE9,0x94,0x99,0xE8,0xAF,0xAF,0xE7,
      0xB1,0xBB,0xE5,0x9E,0x8B,0x21]"

definition GetErrorMessage :: "u32 \<Rightarrow> string \<Rightarrow> string" where
  "GetErrorMessage code message =
     (if message = [] then (case map_of errCodeMap code of Some value \<Rightarrow> value | None \<Rightarrow> text_undefined)
      else message)"

section \<open>Properties\<close>

text \<open>
  The text of a code: the message given, else the table's; exactly the codes 200 to 209 have a
  text of their own there.
\<close>

theorem GetErrorMessage_covers:
  "(message \<noteq> [] \<longrightarrow> GetErrorMessage code message = message)
    \<and> (map_of errCodeMap code \<noteq> None \<longleftrightarrow> Err_OK \<le> code \<and> code \<le> Err_HandlerFuncErr)
    \<and> GetErrorMessage Err_SeedEncoderErr [] = text_undefined
    \<and> GetErrorMessage Err_SeedDecoderErr [] = text_undefined
    \<and> GetErrorMessage Err_RpcRequestErr [] = text_undefined"
proof -
  have "map_of errCodeMap code \<noteq> None \<longleftrightarrow> code \<in> {200, 201, 202, 203, 204, 205, 206, 207, 208, 209}"
    by (auto simp: errCodeMap_def code_defs)
  also have "\<dots> \<longleftrightarrow> 200 \<le> code \<and> code \<le> 209"
  proof
    assume "200 \<le> code \<and> code \<le> 209"
    then have "200 \<le> unat code" "unat code \<le> 209" by (simp_all add: word_le_nat_alt)
    then have "unat code \<in> {200, 201, 202, 203, 204, 205, 206, 207, 208, 209}" by simp presburger
    then have "of_nat (unat code) \<in> (of_nat :: nat \<Rightarrow> u32) ` {200, 201, 202, 203, 204, 205, 206, 207, 208, 209}"
      by blast
    then show "code \<in> {200, 201, 202, 203, 204, 205, 206, 207, 208, 209}" by simp
  qed (auto simp: word_le_nat_alt)
  finally show ?thesis
    by (simp add: GetErrorMessage_def errCodeMap_def code_defs)
qed

theorem GetErrorMessage_covers_witness:
  "GetErrorMessage Err_OK ''ok'' = ''ok'' \<and> GetErrorMessage Err_OK [] = ''Success''"
  using GetErrorMessage_covers [of "''ok''" Err_OK] by (simp add: GetErrorMessage_def errCodeMap_def)

text \<open>
  The texts of \<open>Err_ServerError\<close> and \<open>Err_NotData\<close> are exchanged with respect to the comments on
  the two constants: the server error reads "no data", the missing data "system error".
\<close>

theorem error_texts_exchanged:
  "GetErrorMessage Err_ServerError [] = text_no_data \<and> GetErrorMessage Err_NotData [] = text_system_error"
  by (simp add: GetErrorMessage_def errCodeMap_def code_defs)

end
