(* ===== verification/Assoc.thy ===== *)
theory Assoc
  imports Prelude "HOL-Library.AList"
begin

text \<open>
  Go maps whose size or order of visit matters are association lists with distinct keys: the
  lengths after an update and a deletion.
\<close>

lemma length_update:
  "length (AList.update k v al) = (if map_of al k = None then Suc (length al) else length al)"
  by (induction al) auto

lemma delete_absent: "map_of al k = None \<Longrightarrow> AList.delete k al = al"
  by (induction al) (auto split: if_splits)

lemma length_delete:
  "distinct (map fst al) \<Longrightarrow> map_of al k = Some v \<Longrightarrow> Suc (length (AList.delete k al)) = length al"
proof (induction al)
  case (Cons p al)
  then show ?case
    by (cases "fst p = k") (auto simp: delete_absent map_of_eq_None_iff)
qed simp

lemma of_nat_length_delete:
  assumes "distinct (map fst al)" and "map_of al k = Some v"
  shows "of_nat (length (AList.delete k al)) = (of_nat (length al) - 1 :: 'a::len word)"
proof -
  have "(of_nat (length al) :: 'a word) = of_nat (Suc (length (AList.delete k al)))"
    using length_delete [OF assms] by simp
  then show ?thesis by simp
qed

lemmas assoc_simps = update_conv' delete_conv' distinct_update distinct_delete length_update

end
