(* ===== verification/Runs.thy ===== *)
theory Runs
  imports Prelude
begin

text \<open>
  Runs of components that work step by step: a step is a function of the state and of an event, with
  \<open>None\<close> where the event cannot happen, and a run is a list of events. The locales state what a
  component has to show of its steps, and give it the facts about its runs and reachable states.
\<close>

section \<open>Reachable states\<close>

inductive reachable :: "('s \<Rightarrow> 'e \<Rightarrow> 's option) \<Rightarrow> ('e \<Rightarrow> bool) \<Rightarrow> 's \<Rightarrow> 's \<Rightarrow> bool"
  for step :: "'s \<Rightarrow> 'e \<Rightarrow> 's option" and ok :: "'e \<Rightarrow> bool" and s0 :: 's where
  start: "reachable step ok s0 s0"
| move: "reachable step ok s0 s \<Longrightarrow> ok e \<Longrightarrow> step s e = Some s' \<Longrightarrow> reachable step ok s0 s'"

inductive_cases reachableE: "reachable step ok s0 s"

lemma reachable_trans:
  assumes "reachable step ok s1 s2" and "reachable step ok s0 s1"
  shows "reachable step ok s0 s2"
  using assms by (induction rule: reachable.induct) (auto intro: reachable.move)

section \<open>Runs\<close>

locale runs =
  fixes step :: "'s \<Rightarrow> 'e \<Rightarrow> 's option"
    and run :: "'s \<Rightarrow> 'e list \<Rightarrow> 's option"
  assumes run_Nil: "run s [] = Some s"
    and run_Cons: "run s (e # es) = Option.bind (step s e) (\<lambda>s1. run s1 es)"
begin

lemma run_append: "run s (es @ fs) = Option.bind (run s es) (\<lambda>s1. run s1 fs)"
proof (induction es arbitrary: s)
  case (Cons e es)
  then show ?case by (cases "step s e") (simp_all add: run_Cons)
qed (simp add: run_Nil)

lemma run_reachable:
  assumes "run s es = Some s'" and "\<forall>e \<in> set es. ok e"
  shows "reachable step ok s s'"
  using assms
proof (induction es arbitrary: s)
  case Nil
  then show ?case by (simp add: run_Nil reachable.start)
next
  case (Cons e es)
  then obtain s1 where "step s e = Some s1" "run s1 es = Some s'" by (auto simp: run_Cons bind_eq_Some_conv)
  with Cons have "reachable step ok s1 s'" "reachable step ok s s1" by (auto intro: reachable.intros)
  then show ?case by (rule reachable_trans)
qed

lemma reachable_run:
  assumes "reachable step ok s s'"
  shows "\<exists>es. run s es = Some s' \<and> (\<forall>e \<in> set es. ok e)"
  using assms
proof (induction rule: reachable.induct)
  case start
  show ?case by (intro exI [of _ "[]"]) (simp add: run_Nil)
next
  case (move s1 e s2)
  then obtain es where "run s es = Some s1" "\<forall>e \<in> set es. ok e" by blast
  with move show ?case by (intro exI [of _ "es @ [e]"]) (simp add: run_append run_Cons run_Nil)
qed

end

text \<open>An invariant of the steps whose events are \<open>ok\<close>.\<close>

locale run_invariant = runs step run
  for step :: "'s \<Rightarrow> 'e \<Rightarrow> 's option" and run :: "'s \<Rightarrow> 'e list \<Rightarrow> 's option" +
  fixes ok :: "'e \<Rightarrow> bool"
    and inv :: "'s \<Rightarrow> bool"
  assumes step_inv: "inv s \<Longrightarrow> ok e \<Longrightarrow> step s e = Some s' \<Longrightarrow> inv s'"
begin

lemma reachable_inv: "reachable step ok s s' \<Longrightarrow> inv s \<Longrightarrow> inv s'"
  by (induction rule: reachable.induct) (auto intro: step_inv)

lemma run_inv: "inv s \<Longrightarrow> \<forall>e \<in> set es. ok e \<Longrightarrow> run s es = Some s' \<Longrightarrow> inv s'"
  by (rule reachable_inv [OF run_reachable])

end

text \<open>Steps that can always be taken, in the states of the invariant.\<close>

locale total_runs = run_invariant step run ok inv
  for step :: "'s \<Rightarrow> 'e \<Rightarrow> 's option" and run :: "'s \<Rightarrow> 'e list \<Rightarrow> 's option"
    and ok :: "'e \<Rightarrow> bool" and inv :: "'s \<Rightarrow> bool" +
  assumes step_total: "inv s \<Longrightarrow> ok e \<Longrightarrow> step s e \<noteq> None"
begin

lemma run_total: "inv s \<Longrightarrow> \<forall>e \<in> set es. ok e \<Longrightarrow> \<exists>s'. run s es = Some s' \<and> inv s'"
proof (induction es arbitrary: s)
  case (Cons e es)
  then obtain s1 where "step s e = Some s1" "inv s1" using step_total step_inv by fastforce
  with Cons show ?case by (simp add: run_Cons)
qed (simp add: run_Nil)

end

end
