(* ===== verification/Dispatcher.thy ===== *)
theory Dispatcher
  imports HashRing Paths Options Common Assoc Runs
begin

text \<open>
  The service discovery of \<open>dispatcher/\<close>: a proxy per server (\<open>proxy.go\<close>), a service per server
  type with its ring of proxies (\<open>service.go\<close>), and the dispatcher that follows the registry and
  routes messages (\<open>dispatcher.go\<close>). \<open>None\<close> as the result of an operation is a panic; the calls
  to the RPC client are returned as values.
\<close>

section \<open>Proxies\<close>

record proxy =
  p_msgKey :: string
  p_bcKey :: string
  p_reqKey :: string
  p_pubKey :: string
  p_sendKey :: string
  p_key :: string
  p_serType :: string
  p_serName :: string
  p_appName :: string
  p_ver :: string
  p_serStatus :: string

definition proxy_init :: "Options \<Rightarrow> string \<Rightarrow> string \<Rightarrow> string \<Rightarrow> proxy" where
  "proxy_init opts serType key status =
     (let msgKey = opt_AppName opts @ ''.'' @ Base serType @ ''.'' @ Base key in
      \<lparr>p_msgKey = msgKey,
       p_bcKey = msgKey @ ''.'' @ BROATCAST,
       p_reqKey = msgKey @ ''_'' @ REQUEST,
       p_pubKey = msgKey @ ''.'' @ PUBLISH,
       p_sendKey = msgKey @ ''.'' @ SEND,
       p_key = key,
       p_serType = Base serType,
       p_serName = Base key,
       p_appName = opt_AppName opts,
       p_ver = opt_Version opts,
       p_serStatus = status\<rparr>)"

text \<open>The calls a proxy makes to the RPC client, with their keys.\<close>

datatype rpc_call =
    SendMsg string Msg
  | PublishMsg string Msg
  | RequestMsg string Msg

definition proxy_sendMsg :: "proxy \<Rightarrow> Msg \<Rightarrow> rpc_call" where
  "proxy_sendMsg p msg = SendMsg (p_sendKey p) msg"

definition proxy_publish :: "proxy \<Rightarrow> Msg \<Rightarrow> rpc_call" where
  "proxy_publish p msg = PublishMsg (p_pubKey p) msg"

definition proxy_request :: "proxy \<Rightarrow> Msg \<Rightarrow> rpc_call" where
  "proxy_request p msg = RequestMsg (p_reqKey p) msg"

definition proxy_broadcast :: "proxy \<Rightarrow> Msg \<Rightarrow> rpc_call" where
  "proxy_broadcast p msg = PublishMsg (p_bcKey p) msg"

definition proxy_update :: "proxy \<Rightarrow> string \<Rightarrow> proxy" where
  "proxy_update p status = p\<lparr>p_serStatus := status\<rparr>"

section \<open>Services\<close>

datatype disp_error =
    NoProxyErr
  | ProxyNil
  | RingErr ring_error
  | ProxyNotExit string
  | CallbacksNotInit
  | RouteNil
  | MsgIdNotExit
  | MessageNil
  | ServiceNotExist string
  | NotProvided string
  | TypeNil
  | IdNil
  | NoServerProvided

text \<open>A channel: what it buffers, and how much it can.\<close>

type_synonym chan = "string list \<times> nat"

record service =
  s_proxyMap :: "(string \<times> proxy) list"
  s_hashring :: "HashRing option"
  s_Count :: i32
  s_callbacks :: "chan option list option"
  s_serType :: string
  s_routeType :: RouteType

definition service_init :: "Options \<Rightarrow> string \<Rightarrow> RouteType \<Rightarrow> service" where
  "service_init opts serType routeType =
     \<lparr>s_proxyMap = [],
      s_hashring = (if routeType = Hash then Some (NewHashRing (opt_DisRep opts) (opt_DisLen opts)) else None),
      s_Count = 0,
      s_callbacks = Some (replicate 256 None),
      s_serType = serType,
      s_routeType = routeType\<rparr>"

definition GetProxy :: "service \<Rightarrow> string \<Rightarrow> proxy option" where
  "GetProxy s key = map_of (s_proxyMap s) key"

definition AddProxy :: "service \<Rightarrow> proxy \<Rightarrow> service \<times> bool" where
  "AddProxy s cl =
     (let s1 = s\<lparr>s_Count := s_Count s + 1\<rparr>;
          loaded = (map_of (s_proxyMap s1) (p_key cl) \<noteq> None)
      in (if loaded then s1 else s1\<lparr>s_proxyMap := AList.update (p_key cl) cl (s_proxyMap s1)\<rparr>, \<not> loaded))"

definition DelProxy :: "service \<Rightarrow> string \<Rightarrow> service option" where
  "DelProxy s key = do {
     s1 \<leftarrow> (if s_routeType s = Hash
            then do { hr \<leftarrow> s_hashring s; hr1 \<leftarrow> remove hr key; Some (s\<lparr>s_hashring := Some hr1\<rparr>) }
            else Some s);
     Some (s1\<lparr>s_proxyMap := AList.delete key (s_proxyMap s1), s_Count := s_Count s1 - 1\<rparr>)
   }"

text \<open>A send in a \<open>select\<close> with a default: dropped on a nil or full channel.\<close>

definition try_send :: "string \<Rightarrow> chan option \<Rightarrow> chan option" where
  "try_send key ch = (case ch of None \<Rightarrow> None
     | Some (buf, cap) \<Rightarrow> if length buf < cap then Some (buf @ [key], cap) else Some (buf, cap))"

definition CreateProxy :: "service \<Rightarrow> Options \<Rightarrow> string \<Rightarrow> string \<Rightarrow> (service \<times> u32 list option) option" where
  "CreateProxy s opts key status = do {
     let p = proxy_init opts (s_serType s) key status;
     let s1 = fst (AddProxy s p);
     let s2 = s1\<lparr>s_callbacks := map_option (map (try_send key)) (s_callbacks s1)\<rparr>;
     if s_routeType s2 = Hash
     then do {
       hr \<leftarrow> s_hashring s2;
       (hr1, ids) \<leftarrow> add hr (p_key p);
       Some (s2\<lparr>s_hashring := Some hr1\<rparr>, Some ids)
     }
     else Some (s2, None)
   }"

definition UpdateStatus :: "service \<Rightarrow> string \<Rightarrow> string \<Rightarrow> service \<times> disp_error option" where
  "UpdateStatus s key status = (case GetProxy s key of
     None \<Rightarrow> (s, Some (ProxyNotExit key))
   | Some p \<Rightarrow> (s\<lparr>s_proxyMap := AList.update key (proxy_update p status) (s_proxyMap s)\<rparr>, None))"

text \<open>\<open>Destroy\<close> deletes the proxies it ranges over, one by one.\<close>

fun destroy_loop :: "service \<Rightarrow> string list \<Rightarrow> service" where
  "destroy_loop s [] = s"
| "destroy_loop s (k # ks) =
     destroy_loop (s\<lparr>s_Count := s_Count s - 1, s_proxyMap := AList.delete k (s_proxyMap s)\<rparr>) ks"

definition Destroy :: "service \<Rightarrow> service" where
  "Destroy s = destroy_loop s (map fst (s_proxyMap s))"

definition RouteById :: "service \<Rightarrow> u64 \<Rightarrow> (disp_error + proxy) option" where
  "RouteById s uid =
     (if s_Count s = 0 then Some (Inl NoProxyErr)
      else do {
        (err, index) \<leftarrow> (if s_routeType s = Hash
          then do { hr \<leftarrow> s_hashring s; Ring_Get hr (FormatUint (unat uid)) }
          else Some (None, ''route_'' @ FormatUint (unat uid)));
        Some (case err of
          Some e \<Rightarrow> Inl (RingErr e)
        | None \<Rightarrow> (case GetProxy s index of None \<Rightarrow> Inl ProxyNil | Some p \<Rightarrow> Inr p))
      })"

definition Route :: "service \<Rightarrow> Msg \<Rightarrow> (disp_error + proxy) option" where
  "Route s msg = RouteById s (MsgKey msg)"

definition service_Dispatch :: "service \<Rightarrow> Msg \<Rightarrow> (disp_error + rpc_call) option" where
  "service_Dispatch s msg = do { r \<leftarrow> Route s msg; Some (map_sum id (\<lambda>p. proxy_publish p msg) r) }"

definition service_Request :: "service \<Rightarrow> Msg \<Rightarrow> (disp_error + rpc_call) option" where
  "service_Request s msg = do { r \<leftarrow> Route s msg; Some (map_sum id (\<lambda>p. proxy_request p msg) r) }"

definition service_Send :: "service \<Rightarrow> Msg \<Rightarrow> (disp_error + rpc_call) option" where
  "service_Send s msg = do { r \<leftarrow> Route s msg; Some (map_sum id (\<lambda>p. proxy_sendMsg p msg) r) }"

definition service_Broadcast :: "service \<Rightarrow> Msg \<Rightarrow> rpc_call list" where
  "service_Broadcast s msg = map (\<lambda>(k, p). proxy_broadcast p msg) (s_proxyMap s)"

text \<open>
  \<open>register_callback\<close> sends the keys there are; the channel is not kept.
\<close>

definition register_callback :: "service \<Rightarrow> disp_error + string list" where
  "register_callback s = (if s_callbacks s = None then Inl CallbacksNotInit else Inr (map fst (s_proxyMap s)))"

definition service_Status :: "service \<Rightarrow> string \<times> string list" where
  "service_Status s = (s_serType s, map (\<lambda>(k, p). p_serStatus p) (s_proxyMap s))"

section \<open>The dispatcher\<close>

record Dispatcher =
  d_root :: string
  d_names :: "(string \<times> RouteType) list"
  d_services :: "(string \<times> service) list"
  d_names_provided :: bool
  d_route :: "(u32 \<times> string) list option"
  d_opts :: Options
  d_exit :: bool
  d_myName :: string
  d_myType :: string
  d_gKey :: string

text \<open>One entry of the configured connection types: \<open>name\<close>, or \<open>name|routing type\<close>.\<close>

definition init_name :: "string \<Rightarrow> (string \<times> RouteType) list \<Rightarrow> string \<Rightarrow> (string \<times> RouteType) list" where
  "init_name root names v =
     (let values = split_on (CHR ''|'') (TrimSpace v) in
      if length values = 2
      then (case Atoi (values ! 1) of
              None \<Rightarrow> names
            | Some rType \<Rightarrow> AList.update (root @ ''/'' @ values ! 0) (to_RouteType rType) names)
      else AList.update (root @ ''/'' @ TrimSpace v) Hash names)"

definition init :: "Options \<Rightarrow> Dispatcher" where
  "init opts =
     (let root = opt_AppName opts;
          names = opt_ServerConTypes opts;
          provided = (length names > 0)
      in \<lparr>d_root = root,
          d_names = foldl (init_name root) [] names,
          d_services = [],
          d_names_provided = provided,
          d_route = Some [],
          d_opts = opts,
          d_exit = False,
          d_myName = [],
          d_myType = root @ ''/'' @ opt_ServerType opts,
          d_gKey = (if provided then root @ ''/'' @ names ! 0 else [])\<rparr>)"

text \<open>\<open>Stop\<close> closes the exit channel; closing it again panics.\<close>

definition Stop :: "Dispatcher \<Rightarrow> Dispatcher option" where
  "Stop d = (if d_exit d then None else Some (d\<lparr>d_exit := True\<rparr>))"

text \<open>The test \<open>p.names[service_name] <= 0\<close>, where an absent name reads as 0.\<close>

definition route_type :: "Dispatcher \<Rightarrow> string \<Rightarrow> RouteType" where
  "route_type d name = (case map_of (d_names d) name of None \<Rightarrow> 0 | Some r \<Rightarrow> r)"

definition not_provided :: "Dispatcher \<Rightarrow> string \<Rightarrow> bool" where
  "not_provided d name = (d_names_provided d \<and> sint (route_type d name) \<le> 0)"

definition service_name :: "string \<Rightarrow> string" where
  "service_name key = ReplaceAll (Dir key) (CHR 0x5C) (CHR ''/'')"

definition addService :: "Dispatcher \<Rightarrow> string \<Rightarrow> string \<Rightarrow> Dispatcher option" where
  "addService d key status =
     (let name = service_name key in
      if not_provided d name then Some d
      else
        let ser = (case map_of (d_services d) name of
                     Some s \<Rightarrow> s | None \<Rightarrow> service_init (d_opts d) name (route_type d name))
        in (case GetProxy ser key of
              None \<Rightarrow> do {
                (ser1, ids) \<leftarrow> CreateProxy ser (d_opts d) key status;
                Some (d\<lparr>d_services := AList.update name ser1 (d_services d)\<rparr>)
              }
            | Some p \<Rightarrow>
                Some (d\<lparr>d_services := AList.update name
                  (ser\<lparr>s_proxyMap := AList.update key (proxy_update p status) (s_proxyMap ser)\<rparr>) (d_services d)\<rparr>)))"

definition removeService :: "Dispatcher \<Rightarrow> string \<Rightarrow> (Dispatcher \<times> disp_error option) option" where
  "removeService d key =
     (let name = service_name key in
      if not_provided d name then Some (d, Some (NotProvided name))
      else (case map_of (d_services d) name of
              None \<Rightarrow> Some (d, Some (ServiceNotExist name))
            | Some ser \<Rightarrow> do {
                ser1 \<leftarrow> DelProxy ser key;
                Some (d\<lparr>d_services := AList.update name ser1 (d_services d)\<rparr>, None)
              }))"

text \<open>\<open>connectAll\<close> adds the entries of the registry; the watcher follows its events.\<close>

fun connectAll :: "Dispatcher \<Rightarrow> (string \<times> string) list \<Rightarrow> Dispatcher option" where
  "connectAll d [] = Some d"
| "connectAll d ((key, status) # kvs) = do { d1 \<leftarrow> addService d key status; connectAll d1 kvs }"

datatype event = PUT string string | DELETE string

definition watch_event :: "Dispatcher \<Rightarrow> event \<Rightarrow> Dispatcher option" where
  "watch_event d ev = (case ev of
     PUT key status \<Rightarrow> addService d key status
   | DELETE key \<Rightarrow> map_option fst (removeService d key))"

fun watcher :: "Dispatcher \<Rightarrow> event list \<Rightarrow> Dispatcher option" where
  "watcher d [] = Some d"
| "watcher d (ev # evs) = do { d1 \<leftarrow> watch_event d ev; watcher d1 evs }"

definition registerCallback :: "Dispatcher \<Rightarrow> string \<Rightarrow> disp_error + string list" where
  "registerCallback d path = (case map_of (d_services d) path of
     None \<Rightarrow> Inl (ServiceNotExist path)
   | Some s \<Rightarrow> (case register_callback s of Inl _ \<Rightarrow> Inr [] | Inr keys \<Rightarrow> Inr keys))"

definition RegisteSer :: "Dispatcher \<Rightarrow> u32 \<Rightarrow> string \<Rightarrow> Dispatcher \<times> disp_error option" where
  "RegisteSer d mid key = (case d_route d of
     None \<Rightarrow> (d, Some RouteNil)
   | Some r \<Rightarrow> (d\<lparr>d_route := Some (AList.update mid key r)\<rparr>, None))"

definition GetMsgKey :: "Dispatcher \<Rightarrow> u32 \<Rightarrow> disp_error + string" where
  "GetMsgKey d mid = (case d_route d of
     None \<Rightarrow> Inl MsgIdNotExit
   | Some r \<Rightarrow> (case map_of r mid of None \<Rightarrow> Inl MsgIdNotExit | Some key \<Rightarrow> Inr key))"

definition getService :: "Dispatcher \<Rightarrow> Msg option \<Rightarrow> disp_error + service" where
  "getService d msg = (case msg of
     None \<Rightarrow> Inl MessageNil
   | Some m \<Rightarrow> (case GetMsgKey d (ID m) of
       Inl err \<Rightarrow> Inl err
     | Inr key \<Rightarrow> (let path = d_root d @ ''/'' @ key in
         (case map_of (d_services d) path of None \<Rightarrow> Inl (ServiceNotExist path) | Some s \<Rightarrow> Inr s))))"

definition Dispatch :: "Dispatcher \<Rightarrow> Msg \<Rightarrow> (disp_error + rpc_call) option" where
  "Dispatch d msg = (case getService d (Some msg) of
     Inl err \<Rightarrow> Some (Inl err) | Inr s \<Rightarrow> service_Dispatch s msg)"

definition Request :: "Dispatcher \<Rightarrow> Msg \<Rightarrow> (disp_error + rpc_call) option" where
  "Request d msg = (case getService d (Some msg) of
     Inl err \<Rightarrow> Some (Inl err) | Inr s \<Rightarrow> service_Request s msg)"

definition Broadcast :: "Dispatcher \<Rightarrow> Msg \<Rightarrow> disp_error + rpc_call list" where
  "Broadcast d msg = (case getService d (Some msg) of
     Inl err \<Rightarrow> Inl err | Inr s \<Rightarrow> Inr (service_Broadcast s msg))"

definition Dispatcher_SendMsg :: "Dispatcher \<Rightarrow> Msg \<Rightarrow> (disp_error + rpc_call) option" where
  "Dispatcher_SendMsg d msg = (case getService d (Some msg) of
     Inl err \<Rightarrow> Some (Inl err) | Inr s \<Rightarrow> service_Send s msg)"

definition getProxy :: "Dispatcher \<Rightarrow> string \<Rightarrow> u64 \<Rightarrow> (disp_error + proxy) option" where
  "getProxy d sType uid =
     (if sType = [] then Some (Inl TypeNil)
      else if uid = 0 then Some (Inl IdNil)
      else (case map_of (d_services d) sType of
              None \<Rightarrow> Some (Inl (ServiceNotExist sType))
            | Some s \<Rightarrow> RouteById s uid))"

definition GetServer :: "Dispatcher \<Rightarrow> string \<Rightarrow> u64 \<Rightarrow> (disp_error + string) option" where
  "GetServer d sType uid = do { r \<leftarrow> getProxy d sType uid; Some (map_sum id p_serStatus r) }"

definition GetGate :: "Dispatcher \<Rightarrow> u64 \<Rightarrow> (disp_error + string) option" where
  "GetGate d uid = (if d_names_provided d then GetServer d (d_gKey d) uid else Some (Inl NoServerProvided))"

text \<open>\<open>GetStatus\<close> before its result is marshalled.\<close>

definition GetStatus :: "Dispatcher \<Rightarrow> (string \<times> string list) list" where
  "GetStatus d = map (\<lambda>(name, s). service_Status s) (d_services d)"

definition CheckRoute :: "Dispatcher \<Rightarrow> u64 \<Rightarrow> bool option" where
  "CheckRoute d key =
     (if d_names_provided d
      then do {
        r \<leftarrow> getProxy d (d_myType d) key;
        Some (case r of Inl _ \<Rightarrow> False | Inr p \<Rightarrow> d_myName d = p_serName p)
      }
      else Some False)"

section \<open>The invariant\<close>

text \<open>
  A service: its proxies are those of keys under its name, as \<open>proxy_init\<close> made them up to their
  status; with hash routing, the members of its ring are the keys of its proxies.
\<close>

definition service_ok :: "Options \<Rightarrow> string \<Rightarrow> service \<Rightarrow> bool" where
  "service_ok opts name s = (s_serType s = name \<and> distinct (map fst (s_proxyMap s))
     \<and> (\<forall>k p. map_of (s_proxyMap s) k = Some p \<longrightarrow>
          service_name k = name \<and> p = proxy_init opts name k (p_serStatus p))
     \<and> (s_routeType s = Hash \<longrightarrow> (\<exists>hr. s_hashring s = Some hr \<and> ring_ok hr
          \<and> rRep hr = opt_DisRep opts \<and> (\<forall>e. HasMember hr e \<longleftrightarrow> map_of (s_proxyMap s) e \<noteq> None))))"

definition dispatcher_ok :: "Dispatcher \<Rightarrow> bool" where
  "dispatcher_ok d = (\<forall>name s. map_of (d_services d) name = Some s \<longrightarrow>
     service_ok (d_opts d) name s \<and> s_routeType s = route_type d name \<and> \<not> not_provided d name)"

text \<open>The status the dispatcher has for a registry key.\<close>

definition statuses :: "Dispatcher \<Rightarrow> string \<rightharpoonup> string" where
  "statuses d key = (case map_of (d_services d) (service_name key) of
     None \<Rightarrow> None | Some s \<Rightarrow> map_option p_serStatus (map_of (s_proxyMap s) key))"

lemma proxy_init_fields [simp]:
  "p_key (proxy_init opts name key st) = key"
  "p_serStatus (proxy_init opts name key st) = st"
  "p_serName (proxy_init opts name key st) = Base key"
  "proxy_update (proxy_init opts name key st) st' = proxy_init opts name key st'"
  by (simp_all add: proxy_init_def proxy_update_def Let_def)

lemma service_init_ok: "service_ok opts name (service_init opts name rt)"
  using New_ring_ok by (simp add: service_ok_def service_init_def HasMember_def)

lemma service_ok_ring:
  assumes "service_ok opts name s" and "s_routeType s = Hash"
  obtains hr where "s_hashring s = Some hr" "ring_ok hr" "rRep hr = opt_DisRep opts"
    "\<And>e. HasMember hr e \<longleftrightarrow> map_of (s_proxyMap s) e \<noteq> None"
  using assms by (auto simp: service_ok_def)

lemma service_ok_proxy:
  assumes "service_ok opts name s" and "map_of (s_proxyMap s) k = Some p"
  shows "service_name k = name" "p = proxy_init opts name k (p_serStatus p)"
  using assms by (auto simp: service_ok_def)

lemma CreateProxy_ok:
  assumes "service_ok opts name s" and "GetProxy s key = None" and "service_name key = name"
  shows "\<exists>s' rst. CreateProxy s opts key st = Some (s', rst) \<and> service_ok opts name s'
    \<and> map_of (s_proxyMap s') = (map_of (s_proxyMap s))(key \<mapsto> proxy_init opts name key st)
    \<and> s_routeType s' = s_routeType s \<and> s_Count s' = s_Count s + 1
    \<and> length (s_proxyMap s') = Suc (length (s_proxyMap s))"
proof -
  have new: "map_of (s_proxyMap s) key = None" using assms(2) by (simp add: GetProxy_def)
  then have len: "length (AList.update key v (s_proxyMap s)) = Suc (length (s_proxyMap s))" for v
    by (simp add: length_update)
  let ?s = "s\<lparr>s_Count := s_Count s + 1,
    s_proxyMap := AList.update key (proxy_init opts name key st) (s_proxyMap s),
    s_callbacks := map_option (map (try_send key)) (s_callbacks s)\<rparr>"
  have name: "s_serType s = name" using assms(1) by (simp add: service_ok_def)
  show ?thesis
  proof (cases "s_routeType s = Hash")
    case True
    obtain hr where hr: "s_hashring s = Some hr" "ring_ok hr" "rRep hr = opt_DisRep opts"
      "\<And>e. HasMember hr e \<longleftrightarrow> map_of (s_proxyMap s) e \<noteq> None"
      using service_ok_ring [OF assms(1) True] by blast
    obtain hr1 vids where hr1: "add hr key = Some (hr1, vids)" "ring_ok hr1" "rRep hr1 = rRep hr"
      "\<And>e. HasMember hr1 e \<longleftrightarrow> e = key \<or> HasMember hr e"
      using add_ring_ok [OF hr(2), of key] by blast
    have "CreateProxy s opts key st = Some (?s\<lparr>s_hashring := Some hr1\<rparr>, Some vids)"
      using new name True hr(1) hr1(1) by (simp add: CreateProxy_def AddProxy_def Let_def)
    then show ?thesis
      using assms(1,3) hr hr1 True len
      by (auto simp: service_ok_def update_conv' distinct_update)
  next
    case False
    have "CreateProxy s opts key st = Some (?s, None)"
      using new name False by (simp add: CreateProxy_def AddProxy_def Let_def)
    then show ?thesis
      using assms(1,3) False len by (auto simp: service_ok_def update_conv' distinct_update)
  qed
qed

lemma update_proxy_ok:
  assumes "service_ok opts name s" and "map_of (s_proxyMap s) key = Some p"
  shows "service_ok opts name (s\<lparr>s_proxyMap := AList.update key (proxy_update p st) (s_proxyMap s)\<rparr>)"
    "proxy_update p st = proxy_init opts name key st"
    "length (AList.update key v (s_proxyMap s)) = length (s_proxyMap s)"
proof -
  have p: "service_name key = name" "p = proxy_init opts name key (p_serStatus p)"
    by (rule service_ok_proxy [OF assms])+
  then show st: "proxy_update p st = proxy_init opts name key st"
    by (metis proxy_init_fields(4))
  show "length (AList.update key v (s_proxyMap s)) = length (s_proxyMap s)"
    using assms(2) by (simp add: length_update)
  show "service_ok opts name (s\<lparr>s_proxyMap := AList.update key (proxy_update p st) (s_proxyMap s)\<rparr>)"
    unfolding st using assms p(1)
    by (auto simp: service_ok_def update_conv' distinct_update)
qed

lemma DelProxy_ok:
  assumes "service_ok opts name s"
  shows "\<exists>s'. DelProxy s key = Some s' \<and> service_ok opts name s'
    \<and> map_of (s_proxyMap s') = (map_of (s_proxyMap s))(key := None)
    \<and> s_proxyMap s' = AList.delete key (s_proxyMap s)
    \<and> s_routeType s' = s_routeType s \<and> s_Count s' = s_Count s - 1"
proof (cases "s_routeType s = Hash")
  case True
  obtain hr where hr: "s_hashring s = Some hr" "ring_ok hr" "rRep hr = opt_DisRep opts"
    "\<And>e. HasMember hr e \<longleftrightarrow> map_of (s_proxyMap s) e \<noteq> None"
    using service_ok_ring [OF assms True] by blast
  obtain hr1 where hr1: "remove hr key = Some hr1" "ring_ok hr1" "rRep hr1 = rRep hr"
    "\<And>e. HasMember hr1 e \<longleftrightarrow> e \<noteq> key \<and> HasMember hr e"
    using remove_ring_ok [OF hr(2), of key] by blast
  show ?thesis
    using assms hr hr1 True
    by (auto simp: DelProxy_def service_ok_def delete_conv' distinct_delete split: if_splits)
next
  case False
  then show ?thesis
    using assms by (auto simp: DelProxy_def service_ok_def delete_conv' distinct_delete split: if_splits)
qed

text \<open>What an operation on one service means for the dispatcher.\<close>

definition counted :: "Dispatcher \<Rightarrow> bool" where
  "counted d = (\<forall>name s. map_of (d_services d) name = Some s \<longrightarrow> s_Count s = of_nat (length (s_proxyMap s)))"

lemma dispatcher_okD:
  assumes "dispatcher_ok d" and "map_of (d_services d) name = Some s"
  shows "service_ok (d_opts d) name s" "s_routeType s = route_type d name" "\<not> not_provided d name"
  using assms by (auto simp: dispatcher_ok_def)

lemma dispatcher_ok_update:
  assumes "dispatcher_ok d" and "service_ok (d_opts d) name s" and "s_routeType s = route_type d name"
    and "\<not> not_provided d name"
  shows "dispatcher_ok (d\<lparr>d_services := AList.update name s (d_services d)\<rparr>)"
  using assms by (auto simp: dispatcher_ok_def update_conv' not_provided_def route_type_def)

lemma statuses_put:
  assumes "map_of (s_proxyMap s1) = m(key \<mapsto> p)" and "p_serStatus p = st"
    and "m = (case map_of (d_services d) (service_name key) of None \<Rightarrow> Map.empty | Some s \<Rightarrow> map_of (s_proxyMap s))"
  shows "statuses (d\<lparr>d_services := AList.update (service_name key) s1 (d_services d)\<rparr>) = (statuses d)(key \<mapsto> st)"
  using assms by (auto simp: statuses_def update_conv' fun_eq_iff split: option.splits)

lemma statuses_del:
  assumes "map_of (s_proxyMap s1) = (map_of (s_proxyMap s))(key := None)"
    and "map_of (d_services d) (service_name key) = Some s"
  shows "statuses (d\<lparr>d_services := AList.update (service_name key) s1 (d_services d)\<rparr>) = (statuses d)(key := None)"
  using assms by (auto simp: statuses_def update_conv' fun_eq_iff split: option.splits)

lemma counted_update:
  assumes "counted d" and "s_Count s = of_nat (length (s_proxyMap s))"
  shows "counted (d\<lparr>d_services := AList.update name s (d_services d)\<rparr>)"
  using assms by (auto simp: counted_def update_conv')

text \<open>The service \<open>addService\<close> works on: the one there is, or a new one.\<close>

definition service_for :: "Dispatcher \<Rightarrow> string \<Rightarrow> service" where
  "service_for d name = (case map_of (d_services d) name of
     Some s \<Rightarrow> s | None \<Rightarrow> service_init (d_opts d) name (route_type d name))"

lemma service_for_ok:
  assumes "dispatcher_ok d"
  shows "service_ok (d_opts d) name (service_for d name)"
    "s_routeType (service_for d name) = route_type d name"
    "map_of (s_proxyMap (service_for d name)) =
      (case map_of (d_services d) name of None \<Rightarrow> Map.empty | Some s \<Rightarrow> map_of (s_proxyMap s))"
    "counted d \<Longrightarrow> s_Count (service_for d name) = of_nat (length (s_proxyMap (service_for d name)))"
  using dispatcher_okD [OF assms, of name] service_init_ok [of "d_opts d" name "route_type d name"]
  by (auto simp: service_for_def counted_def service_init_def split: option.splits)

lemma addService_ok:
  assumes "dispatcher_ok d"
  shows "\<exists>srvs. addService d key st = Some (d\<lparr>d_services := srvs\<rparr>) \<and> dispatcher_ok (d\<lparr>d_services := srvs\<rparr>)
    \<and> statuses (d\<lparr>d_services := srvs\<rparr>) =
        (if not_provided d (service_name key) then statuses d else (statuses d)(key \<mapsto> st))
    \<and> (counted d \<longrightarrow> counted (d\<lparr>d_services := srvs\<rparr>))"
proof (cases "not_provided d (service_name key)")
  case True
  then show ?thesis
    using assms by (intro exI [of _ "d_services d"]) (simp add: addService_def Let_def)
next
  case False
  let ?name = "service_name key" and ?s = "service_for d (service_name key)"
  note s = service_for_ok [OF assms, of ?name]
  show ?thesis
  proof (cases "GetProxy ?s key")
    case None
    from CreateProxy_ok [OF s(1) None refl, of st] obtain s' rst where s':
      "CreateProxy ?s (d_opts d) key st = Some (s', rst)" "service_ok (d_opts d) ?name s'"
      "map_of (s_proxyMap s') = (map_of (s_proxyMap ?s))(key \<mapsto> proxy_init (d_opts d) ?name key st)"
      "s_routeType s' = s_routeType ?s" "s_Count s' = s_Count ?s + 1"
      "length (s_proxyMap s') = Suc (length (s_proxyMap ?s))"
      by blast
    have run: "addService d key st = Some (d\<lparr>d_services := AList.update ?name s' (d_services d)\<rparr>)"
      using False None s'(1) by (simp add: addService_def service_for_def [symmetric] Let_def)
    show ?thesis
      using run dispatcher_ok_update [OF assms s'(2) _ False] s'(4) s(2)
        statuses_put [OF s'(3) proxy_init_fields(2) s(3)] counted_update [of d s' ?name] s(4) s'(5,6) False
      by (intro exI [of _ "AList.update ?name s' (d_services d)"]) simp
  next
    case (Some p)
    then have p: "map_of (s_proxyMap ?s) key = Some p" by (simp add: GetProxy_def)
    let ?s' = "?s\<lparr>s_proxyMap := AList.update key (proxy_update p st) (s_proxyMap ?s)\<rparr>"
    note u = update_proxy_ok [OF s(1) p]
    have run: "addService d key st = Some (d\<lparr>d_services := AList.update ?name ?s' (d_services d)\<rparr>)"
      using False Some by (simp add: addService_def service_for_def [symmetric] Let_def)
    have "map_of (s_proxyMap ?s') = (map_of (s_proxyMap ?s))(key \<mapsto> proxy_update p st)"
      by (simp add: update_conv')
    from statuses_put [OF this _ s(3)] u(2)
    have stat: "statuses (d\<lparr>d_services := AList.update ?name ?s' (d_services d)\<rparr>) = (statuses d)(key \<mapsto> st)"
      by simp
    have ok: "dispatcher_ok (d\<lparr>d_services := AList.update ?name ?s' (d_services d)\<rparr>)"
      using s(2) by (intro dispatcher_ok_update [OF assms u(1) _ False]) simp
    have "counted d \<longrightarrow> counted (d\<lparr>d_services := AList.update ?name ?s' (d_services d)\<rparr>)"
      using s(4) u(3) by (auto intro: counted_update)
    with run stat ok False show ?thesis
      by (intro exI [of _ "AList.update ?name ?s' (d_services d)"]) simp
  qed
qed

lemma removeService_ok:
  assumes "dispatcher_ok d"
  shows "\<exists>srvs err. removeService d key = Some (d\<lparr>d_services := srvs\<rparr>, err) \<and> dispatcher_ok (d\<lparr>d_services := srvs\<rparr>)
    \<and> statuses (d\<lparr>d_services := srvs\<rparr>) = (statuses d)(key := None)
    \<and> (counted d \<longrightarrow> not_provided d (service_name key) \<or> statuses d key \<noteq> None
         \<longrightarrow> counted (d\<lparr>d_services := srvs\<rparr>))"
proof (cases "map_of (d_services d) (service_name key)")
  case None
  moreover have "(statuses d)(key := None) = statuses d"
    using None by (auto simp: statuses_def fun_eq_iff)
  ultimately show ?thesis
    using assms by (intro exI [of _ "d_services d"]) (simp add: removeService_def Let_def)
next
  case (Some s)
  let ?name = "service_name key"
  note s = dispatcher_okD [OF assms Some]
  from DelProxy_ok [OF s(1), of key] obtain s' where s':
    "DelProxy s key = Some s'" "service_ok (d_opts d) ?name s'"
    "map_of (s_proxyMap s') = (map_of (s_proxyMap s))(key := None)"
    "s_proxyMap s' = AList.delete key (s_proxyMap s)"
    "s_routeType s' = s_routeType s" "s_Count s' = s_Count s - 1"
    by blast
  let ?d = "d\<lparr>d_services := AList.update ?name s' (d_services d)\<rparr>"
  have run: "removeService d key = Some (?d, None)"
    using Some s(3) s'(1) by (simp add: removeService_def Let_def)
  have "counted ?d" if "counted d" "not_provided d ?name \<or> statuses d key \<noteq> None"
  proof -
    have in_map: "key \<in> set (map fst (s_proxyMap s))"
      using that(2) Some s(3) by (auto simp: statuses_def map_of_eq_None_iff)
    have "distinct (map fst (s_proxyMap s))" using s(1) by (simp add: service_ok_def)
    then have "length (map fst (AList.delete key (s_proxyMap s))) = length (s_proxyMap s) - 1"
      using in_map by (simp add: delete_keys distinct_remove1_removeAll [symmetric] removeAll_filter_not_eq [symmetric] length_remove1)
    moreover have "0 < length (s_proxyMap s)" using in_map by (cases "s_proxyMap s") auto
    ultimately have "length (s_proxyMap s) = Suc (length (s_proxyMap s'))" using s'(4) by simp
    moreover have "s_Count s = of_nat (length (s_proxyMap s))" using that(1) Some by (simp add: counted_def)
    ultimately show ?thesis using s'(6) by (intro counted_update [OF that(1)]) simp
  qed
  then show ?thesis
    using run dispatcher_ok_update [OF assms s'(2) _ s(3)] s'(5) s(2) statuses_del [OF s'(3) Some]
    by (intro exI [of _ "AList.update ?name s' (d_services d)"]) simp
qed

section \<open>Following the registry\<close>

text \<open>The registry itself: the last value put under each key that has not been deleted since.\<close>

fun registry :: "(string \<rightharpoonup> string) \<Rightarrow> event list \<Rightarrow> (string \<rightharpoonup> string)" where
  "registry r [] = r"
| "registry r (PUT key st # evs) = registry (r(key \<mapsto> st)) evs"
| "registry r (DELETE key # evs) = registry (r(key := None)) evs"

text \<open>Every key that is deleted is there.\<close>

fun known_deletes :: "(string \<rightharpoonup> string) \<Rightarrow> event list \<Rightarrow> bool" where
  "known_deletes r [] = True"
| "known_deletes r (PUT key st # evs) = known_deletes (r(key \<mapsto> st)) evs"
| "known_deletes r (DELETE key # evs) = (r key \<noteq> None \<and> known_deletes (r(key := None)) evs)"

definition visible :: "Dispatcher \<Rightarrow> (string \<rightharpoonup> string) \<Rightarrow> (string \<rightharpoonup> string)" where
  "visible d r key = (if not_provided d (service_name key) then None else r key)"

lemma not_provided_services [simp]: "not_provided (d\<lparr>d_services := srvs\<rparr>) = not_provided d"
  by (simp add: not_provided_def route_type_def fun_eq_iff)

lemma visible_services [simp]: "visible (d\<lparr>d_services := srvs\<rparr>) = visible d"
  by (simp add: visible_def fun_eq_iff)

lemma watcher_follows:
  assumes "dispatcher_ok d" and "statuses d = visible d r"
  shows "\<exists>srvs. watcher d evs = Some (d\<lparr>d_services := srvs\<rparr>) \<and> dispatcher_ok (d\<lparr>d_services := srvs\<rparr>)
    \<and> statuses (d\<lparr>d_services := srvs\<rparr>) = visible d (registry r evs)
    \<and> (counted d \<longrightarrow> known_deletes r evs \<longrightarrow> counted (d\<lparr>d_services := srvs\<rparr>))"
  using assms
proof (induction evs arbitrary: d r)
  case Nil
  then show ?case by (intro exI [of _ "d_services d"]) simp
next
  case (Cons ev evs)
  show ?case
  proof (cases ev)
    case (PUT key st)
    obtain srvs where 1: "addService d key st = Some (d\<lparr>d_services := srvs\<rparr>)"
      "dispatcher_ok (d\<lparr>d_services := srvs\<rparr>)"
      "statuses (d\<lparr>d_services := srvs\<rparr>) =
        (if not_provided d (service_name key) then statuses d else (statuses d)(key \<mapsto> st))"
      "counted d \<longrightarrow> counted (d\<lparr>d_services := srvs\<rparr>)"
      using addService_ok [OF Cons.prems(1), of key st] by blast
    have "statuses (d\<lparr>d_services := srvs\<rparr>) = visible (d\<lparr>d_services := srvs\<rparr>) (r(key \<mapsto> st))"
      unfolding 1(3) Cons.prems(2) by (auto simp: visible_def fun_eq_iff)
    from Cons.IH [OF 1(2) this] obtain srvs' where
      "watcher (d\<lparr>d_services := srvs\<rparr>) evs = Some (d\<lparr>d_services := srvs'\<rparr>)"
      "dispatcher_ok (d\<lparr>d_services := srvs'\<rparr>)"
      "statuses (d\<lparr>d_services := srvs'\<rparr>) = visible d (registry (r(key \<mapsto> st)) evs)"
      "counted (d\<lparr>d_services := srvs\<rparr>) \<longrightarrow>
        known_deletes (r(key \<mapsto> st)) evs \<longrightarrow> counted (d\<lparr>d_services := srvs'\<rparr>)"
      by (auto simp: fun_upd_def)
    then show ?thesis
      using 1(1,4) PUT by (intro exI [of _ srvs']) (simp add: watch_event_def fun_upd_def)
  next
    case (DELETE key)
    obtain srvs err where 1: "removeService d key = Some (d\<lparr>d_services := srvs\<rparr>, err)"
      "dispatcher_ok (d\<lparr>d_services := srvs\<rparr>)"
      "statuses (d\<lparr>d_services := srvs\<rparr>) = (statuses d)(key := None)"
      "counted d \<longrightarrow> not_provided d (service_name key) \<or> statuses d key \<noteq> None
        \<longrightarrow> counted (d\<lparr>d_services := srvs\<rparr>)"
      using removeService_ok [OF Cons.prems(1), of key] by blast
    have "statuses (d\<lparr>d_services := srvs\<rparr>) = visible (d\<lparr>d_services := srvs\<rparr>) (r(key := None))"
      unfolding 1(3) Cons.prems(2) by (auto simp: visible_def fun_eq_iff)
    from Cons.IH [OF 1(2) this] obtain srvs' where
      "watcher (d\<lparr>d_services := srvs\<rparr>) evs = Some (d\<lparr>d_services := srvs'\<rparr>)"
      "dispatcher_ok (d\<lparr>d_services := srvs'\<rparr>)"
      "statuses (d\<lparr>d_services := srvs'\<rparr>) = visible d (registry (r(key := None)) evs)"
      "counted (d\<lparr>d_services := srvs\<rparr>) \<longrightarrow>
        known_deletes (r(key := None)) evs \<longrightarrow> counted (d\<lparr>d_services := srvs'\<rparr>)"
      by (auto simp: fun_upd_def)
    moreover have "not_provided d (service_name key) \<or> statuses d key \<noteq> None" if "known_deletes r (ev # evs)"
      using that DELETE by (auto simp: Cons.prems(2) visible_def)
    ultimately show ?thesis
      using 1(1,4) DELETE
      by (intro exI [of _ srvs']) (auto simp: watch_event_def fun_upd_def)
  qed
qed

lemma connectAll_watcher: "connectAll d kvs = watcher d (map (\<lambda>(k, v). PUT k v) kvs)"
  by (induction d kvs rule: connectAll.induct)
    (auto simp: watch_event_def cong del: bind_weak_cong cong: Option.bind_cong)

lemma watch_event_ok:
  assumes "dispatcher_ok d"
  shows "\<exists>d'. watch_event d ev = Some d' \<and> dispatcher_ok d'"
proof (cases ev)
  case (PUT key st)
  with addService_ok [OF assms, of key st] show ?thesis by (auto simp: watch_event_def)
next
  case (DELETE key)
  with removeService_ok [OF assms, of key] show ?thesis by (auto simp: watch_event_def)
qed

interpretation watch: total_runs watch_event watcher "\<lambda>_. True" dispatcher_ok
proof unfold_locales
  fix d ev
  assume ok: "dispatcher_ok d"
  from watch_event_ok [OF ok, of ev] show "watch_event d ev \<noteq> None" by auto
  fix d'
  assume "watch_event d ev = Some d'"
  with watch_event_ok [OF ok, of ev] show "dispatcher_ok d'" by auto
qed simp_all

lemmas watcher_append = watch.run_append

lemma registry_append: "registry r (es @ fs) = registry (registry r es) fs"
  by (induction r es rule: registry.induct) (auto simp: fun_upd_def)

lemma init_ok: "dispatcher_ok (init opts)" "statuses (init opts) = visible (init opts) Map.empty" "counted (init opts)"
  by (simp_all add: dispatcher_ok_def init_def Let_def statuses_def visible_def counted_def fun_eq_iff)

lemma started:
  obtains srvs where "do { d1 \<leftarrow> connectAll (init opts) kvs; watcher d1 evs } = Some (init opts\<lparr>d_services := srvs\<rparr>)"
    "dispatcher_ok (init opts\<lparr>d_services := srvs\<rparr>)"
    "statuses (init opts\<lparr>d_services := srvs\<rparr>) =
      visible (init opts) (registry Map.empty (map (\<lambda>(k, v). PUT k v) kvs @ evs))"
    "known_deletes Map.empty (map (\<lambda>(k, v). PUT k v) kvs @ evs) \<Longrightarrow> counted (init opts\<lparr>d_services := srvs\<rparr>)"
proof -
  let ?evs = "map (\<lambda>(k, v). PUT k v) kvs @ evs"
  from watcher_follows [OF init_ok(1,2), of opts ?evs] obtain srvs where
    1: "watcher (init opts) ?evs = Some (init opts\<lparr>d_services := srvs\<rparr>)" and
    2: "dispatcher_ok (init opts\<lparr>d_services := srvs\<rparr>)"
       "statuses (init opts\<lparr>d_services := srvs\<rparr>) = visible (init opts) (registry Map.empty ?evs)" and
    3: "counted (init opts) \<longrightarrow> known_deletes Map.empty ?evs \<longrightarrow> counted (init opts\<lparr>d_services := srvs\<rparr>)"
    by (elim exE conjE)
  have "do { d1 \<leftarrow> connectAll (init opts) kvs; watcher d1 evs } = Some (init opts\<lparr>d_services := srvs\<rparr>)"
    using 1 by (simp add: connectAll_watcher watcher_append)
  then show thesis
    using 2 3 init_ok(3) by (intro that [of srvs]) simp_all
qed

text \<open>Routing on a consistent service: no panic, and what a proxy answered looks like.\<close>

lemma RouteById_answers:
  assumes "service_ok opts name s"
  shows "\<exists>r. RouteById s uid = Some r \<and> (\<forall>p. r = Inr p \<longrightarrow> map_of (s_proxyMap s) (p_key p) = Some p
    \<and> p = proxy_init opts name (p_key p) (p_serStatus p))"
proof -
  have found: "map_of (s_proxyMap s) (p_key p) = Some p \<and> p = proxy_init opts name (p_key p) (p_serStatus p)"
    if "map_of (s_proxyMap s) k = Some p" for k p
  proof -
    note p = service_ok_proxy(2) [OF assms that]
    have "p_key p = k" using arg_cong [OF p, of p_key] by simp
    with p that show ?thesis by simp
  qed
  show ?thesis
  proof (cases "s_routeType s = Hash")
    case True
    then obtain hr where hr: "s_hashring s = Some hr" "ring_ok hr"
      using assms by (auto simp: service_ok_def)
    then show ?thesis
      using True found Ring_Get_owner [OF hr(2), of "FormatUint (unat uid)"]
      by (auto simp: RouteById_def GetProxy_def split: option.splits)
  next
    case False
    then show ?thesis
      using found by (auto simp: RouteById_def GetProxy_def split: option.splits)
  qed
qed

lemma getProxy_answers:
  assumes "dispatcher_ok d"
  shows "\<exists>r. getProxy d name uid = Some r \<and> (\<forall>p. r = Inr p \<longrightarrow> p_serName p = Base (p_key p))"
proof (cases "map_of (d_services d) name")
  case (Some s)
  from RouteById_answers [OF dispatcher_okD(1) [OF assms Some], of uid] Some show ?thesis
    by (auto simp: getProxy_def) (metis proxy_init_fields(3))
qed (simp add: getProxy_def)

lemma service_name_route: "service_name (''route_'' @ FormatUint n) = ''.''"
proof -
  have digits: "\<forall>c \<in> set (nat_digits n). is_digit c"
    using nat_digits_are_digits [of n] by (simp add: list_all_iff)
  have "CHR ''/'' \<notin> set (''route_'' @ nat_digits n)"
    using digits not_digit_sign(3) by auto
  then have "dropWhile (\<lambda>c. c \<noteq> CHR ''/'') (rev (''route_'' @ nat_digits n)) = []"
    by (auto simp: dropWhile_eq_Nil_conv)
  then show ?thesis
    by (simp add: service_name_def Dir_def Clean_def ReplaceAll_def FormatUint_def)
qed

text \<open>
  Hash routing: when the counter is not 0 and the ring not empty, routing answers a proxy of the
  service itself, the one of the member that the ring gives for the decimal id.
\<close>

lemma hash_routed:
  assumes "dispatcher_ok d" and "map_of (d_services d) name = Some s" and "s_routeType s = Hash"
    and "s_hashring s = Some hr" and "m_RingMap hr \<noteq> []" and "s_Count s \<noteq> 0"
  shows "\<exists>p. RouteById s uid = Some (Inr p) \<and> map_of (s_proxyMap s) (p_key p) = Some p
    \<and> service_name (p_key p) = name \<and> Ring_Get hr (FormatUint (unat uid)) = Some (None, p_key p)"
proof -
  note ok = dispatcher_okD(1) [OF assms(1,2)]
  have hr: "ring_ok hr" "\<And>e. HasMember hr e \<longleftrightarrow> map_of (s_proxyMap s) e \<noteq> None"
    using ok assms(3,4) by (auto simp: service_ok_def)
  let ?e = "owner hr (FormatUint (unat uid))"
  have get: "Ring_Get hr (FormatUint (unat uid)) = Some (None, ?e)"
    using Ring_Get_owner [OF hr(1)] assms(5) by simp
  have "HasMember hr ?e"
    using owner_point [OF assms(5), of "FormatUint (unat uid)"] ring_okD(4) [OF hr(1)] by metis
  then obtain p where p: "map_of (s_proxyMap s) ?e = Some p" using hr(2) by auto
  have "p_key p = ?e" "service_name ?e = name"
    using arg_cong [OF service_ok_proxy(2) [OF ok p], of p_key] service_ok_proxy(1) [OF ok p] by simp_all
  then show ?thesis
    using p get assms(3,4,6) by (intro exI [of _ p]) (simp add: RouteById_def GetProxy_def)
qed

text \<open>A configuration, and what the dispatcher makes of it, for the instances below.\<close>

definition example_opts :: "string \<Rightarrow> Options" where
  "example_opts ty = default_options\<lparr>opt_AppName := ''app'', opt_ServerType := ''gate'', opt_ServerConTypes := [ty]\<rparr>"

lemma example_names:
  "service_name ''app/game/1'' = ''app/game''" "service_name ''app/game/2'' = ''app/game''"
  by (simp_all add: service_name_def Dir_def Clean_def Let_def ReplaceAll_def)

lemma example_route_type: "route_type (init (example_opts ''game|1'')) ''app/game'' = Hash"
  "\<not> not_provided (init (example_opts ''game|1'')) ''app/game''"
  "route_type (init (example_opts ''game|2'')) ''app/game'' = Direct"
  "\<not> not_provided (init (example_opts ''game|2'')) ''app/game''"
  by (simp_all add: route_type_def not_provided_def init_def example_opts_def default_options_def init_name_def
      TrimSpace_def is_space_def Atoi_def is_digit_def digits_val_def to_RouteType_def Hash_def Direct_def Let_def)

text \<open>A registry with one entry, of a service that is configured.\<close>

lemma single_entry:
  assumes "service_name key = name" and "route_type (init opts) name = rt" and "\<not> not_provided (init opts) name"
    and "opt_DisRep opts \<noteq> 0"
  obtains d s where "watcher (init opts) [PUT key st] = Some d" "dispatcher_ok d" "d = (init opts)\<lparr>d_services := [(name, s)]\<rparr>"
    "s_routeType s = rt" "s_Count s = 1" "rt = Hash \<Longrightarrow> \<exists>hr. s_hashring s = Some hr \<and> m_RingMap hr \<noteq> []"
proof -
  let ?d = "init opts" and ?s = "service_init opts name rt"
  have fields: "d_services ?d = []" "d_opts ?d = opts" by (simp_all add: init_def Let_def)
  have none: "GetProxy ?s key = None" by (simp add: GetProxy_def service_init_def)
  from CreateProxy_ok [OF service_init_ok none assms(1), of st] obtain s rst where s:
    "CreateProxy ?s opts key st = Some (s, rst)" "s_routeType s = rt" "s_Count s = 1"
    by (auto simp: service_init_def)
  have add: "addService ?d key st = Some (?d\<lparr>d_services := [(name, s)]\<rparr>)"
    using assms(1-3) none s(1) by (simp add: addService_def Let_def fields)
  have "dispatcher_ok (?d\<lparr>d_services := [(name, s)]\<rparr>)"
    using addService_ok [OF init_ok(1), of opts key st] add by auto
  moreover have "\<exists>hr. s_hashring s = Some hr \<and> m_RingMap hr \<noteq> []" if "rt = Hash"
  proof -
    have "0 < unat (opt_DisRep opts)" using assms(4) by (simp add: unat_gt_0)
    then obtain hr rst' where "add (NewHashRing (opt_DisRep opts) (opt_DisLen opts)) key = Some (hr, rst')" "m_RingMap hr \<noteq> []"
      using Add_to_new [of "opt_DisRep opts" "opt_DisLen opts" key] by auto
    then show ?thesis
      using s(1) that by (auto simp: CreateProxy_def service_init_def AddProxy_def Let_def)
  qed
  ultimately show thesis
    using add s(2,3) by (intro that [of "?d\<lparr>d_services := [(name, s)]\<rparr>" s]) (simp_all add: watch_event_def)
qed

lemma example_dispatcher:
  assumes "route_type (init (example_opts ty)) ''app/game'' = rt" "\<not> not_provided (init (example_opts ty)) ''app/game''"
  obtains d s where "watcher (init (example_opts ty)) [PUT ''app/game/1'' ''up''] = Some d" "dispatcher_ok d"
    "map_of (d_services d) ''app/game'' = Some s" "s_routeType s = rt" "s_Count s = 1"
    "rt = Hash \<Longrightarrow> \<exists>hr. s_hashring s = Some hr \<and> m_RingMap hr \<noteq> []"
proof -
  have "opt_DisRep (example_opts ty) \<noteq> 0" by (simp add: example_opts_def default_options_def)
  from single_entry [OF example_names(1) assms this, of "''up''"] that show thesis by fastforce
qed

section \<open>Properties\<close>

text \<open>
  C2. Refinement: after \<open>connectAll\<close> and any events the dispatcher has not panicked, its services,
  rings and proxies are consistent, and the status it holds for a key is the registry's value,
  for the keys of the configured services and for no other key.
\<close>

theorem Dispatcher_follows_registry:
  "\<exists>d. do { d1 \<leftarrow> connectAll (init opts) kvs; watcher d1 evs } = Some d \<and> dispatcher_ok d
    \<and> (\<forall>key. statuses d key =
        (if not_provided (init opts) (service_name key) then None
         else registry Map.empty (map (\<lambda>(k, v). PUT k v) kvs @ evs) key))"
proof -
  obtain srvs where "do { d1 \<leftarrow> connectAll (init opts) kvs; watcher d1 evs } = Some (init opts\<lparr>d_services := srvs\<rparr>)"
    "dispatcher_ok (init opts\<lparr>d_services := srvs\<rparr>)"
    "statuses (init opts\<lparr>d_services := srvs\<rparr>) =
      visible (init opts) (registry Map.empty (map (\<lambda>(k, v). PUT k v) kvs @ evs))"
    by (rule started)
  then show ?thesis by (auto simp: visible_def)
qed

text \<open>
  C31. The counter of a service is the number of its proxies as long as the registry only deletes keys
  that were there.
\<close>

theorem Count_counts_proxies:
  assumes "known_deletes Map.empty (map (\<lambda>(k, v). PUT k v) kvs @ evs)"
    and "do { d1 \<leftarrow> connectAll (init opts) kvs; watcher d1 evs } = Some d"
    and "map_of (d_services d) name = Some s"
  shows "s_Count s = of_nat (length (s_proxyMap s))"
proof -
  obtain srvs where "do { d1 \<leftarrow> connectAll (init opts) kvs; watcher d1 evs } = Some (init opts\<lparr>d_services := srvs\<rparr>)"
    "known_deletes Map.empty (map (\<lambda>(k, v). PUT k v) kvs @ evs) \<Longrightarrow> counted (init opts\<lparr>d_services := srvs\<rparr>)"
    using started by metis
  then show ?thesis
    using assms by (auto simp: counted_def)
qed

theorem Count_counts_proxies_witness:
  "\<exists>d s. watcher (init (example_opts ''game|1'')) [PUT ''app/game/1'' ''up''] = Some d
    \<and> map_of (d_services d) ''app/game'' = Some s
    \<and> s_Count s = of_nat (length (s_proxyMap s))"
proof -
  obtain d s where d: "watcher (init (example_opts ''game|1'')) [PUT ''app/game/1'' ''up''] = Some d"
    "map_of (d_services d) ''app/game'' = Some s"
    using example_dispatcher [OF example_route_type(1,2)] by metis
  with Count_counts_proxies [of "[]" "[PUT ''app/game/1'' ''up'']" "example_opts ''game|1''" d "''app/game''" s]
  show ?thesis by simp
qed

text \<open>
  C32. A deletion event for a key the dispatcher never saw still decrements the counter: with one proxy
  of the service left the counter is 0, and every request to the service fails with "no proxy"
  although the proxy is there.
\<close>

theorem unknown_delete_disables_service:
  assumes "\<not> not_provided (init opts) (service_name k)" and "service_name k' = service_name k" and "k' \<noteq> k"
    and "uid \<noteq> 0" and "service_name k \<noteq> []"
  shows "\<exists>d. watcher (init opts) [PUT k st, DELETE k'] = Some d \<and> statuses d k = Some st
    \<and> getProxy d (service_name k) uid = Some (Inl NoProxyErr)"
proof -
  let ?n = "service_name k"
  note new = service_init_ok [of opts ?n "route_type (init opts) ?n"]
  have none: "GetProxy (service_init opts ?n (route_type (init opts) ?n)) k = None"
    by (simp add: GetProxy_def service_init_def)
  from CreateProxy_ok [OF new none refl, of st] obtain s1 rst where s1:
    "CreateProxy (service_init opts ?n (route_type (init opts) ?n)) opts k st = Some (s1, rst)"
    "service_ok opts ?n s1" "map_of (s_proxyMap s1) = [k \<mapsto> proxy_init opts ?n k st]" "s_Count s1 = 1"
    by (auto simp: service_init_def)
  have fields: "d_services (init opts) = []" "d_opts (init opts) = opts"
    by (simp_all add: init_def Let_def)
  have add: "addService (init opts) k st = Some (init opts\<lparr>d_services := [(?n, s1)]\<rparr>)"
    using assms(1) none s1(1) by (simp add: addService_def Let_def fields)
  from DelProxy_ok [OF s1(2), of k'] obtain s2 where s2: "DelProxy s1 k' = Some s2"
    "map_of (s_proxyMap s2) = (map_of (s_proxyMap s1))(k' := None)" "s_Count s2 = s_Count s1 - 1"
    by blast
  have "removeService (init opts\<lparr>d_services := [(?n, s1)]\<rparr>) k' = Some (init opts\<lparr>d_services := [(?n, s2)]\<rparr>, None)"
    using assms(1,2) s2(1) by (simp add: removeService_def Let_def)
  then show ?thesis
    using add s1(3,4) s2(2,3) assms
    by (simp add: watch_event_def statuses_def getProxy_def RouteById_def)
qed

theorem unknown_delete_disables_service_witness:
  "\<exists>d. watcher (init (default_options\<lparr>opt_AppName := ''app''\<rparr>)) [PUT ''app/game/1'' ''up'', DELETE ''app/game/2''] = Some d
    \<and> statuses d ''app/game/1'' = Some ''up'' \<and> getProxy d ''app/game'' 42 = Some (Inl NoProxyErr)"
proof -
  have n: "service_name ''app/game/1'' = ''app/game''" "service_name ''app/game/2'' = ''app/game''"
    by (simp_all add: service_name_def Dir_def Clean_def Let_def ReplaceAll_def)
  have "\<not> not_provided (init (default_options\<lparr>opt_AppName := ''app''\<rparr>)) ''app/game''"
    by (simp add: not_provided_def init_def default_options_def Let_def)
  with unknown_delete_disables_service [of "default_options\<lparr>opt_AppName := ''app''\<rparr>" "''app/game/1''" "''app/game/2''" 42 "''up''"]
  show ?thesis by (simp add: n)
qed

text \<open>
  The other routing types look up the key \<open>route_<id>\<close>, which no registry key of a service other
  than \<open>.\<close> is: their routing always fails.
\<close>

theorem Other_routing_always_fails:
  assumes "dispatcher_ok d" and "map_of (d_services d) name = Some s" and "s_routeType s \<noteq> Hash"
    and "name \<noteq> ''.''"
  shows "RouteById s uid \<in> {Some (Inl NoProxyErr), Some (Inl ProxyNil)}"
proof -
  have "map_of (s_proxyMap s) (''route_'' @ FormatUint (unat uid)) = None"
  proof (rule ccontr)
    assume "map_of (s_proxyMap s) (''route_'' @ FormatUint (unat uid)) \<noteq> None"
    then have "service_name (''route_'' @ FormatUint (unat uid)) = name"
      using service_ok_proxy(1) [OF dispatcher_okD(1) [OF assms(1,2)]] by blast
    then show False using assms(4) service_name_route by simp
  qed
  then show ?thesis
    using assms(3) by (simp add: RouteById_def GetProxy_def)
qed

theorem Other_routing_always_fails_witness:
  "\<exists>d s. watcher (init (example_opts ''game|2'')) [PUT ''app/game/1'' ''up''] = Some d
    \<and> map_of (d_services d) ''app/game'' = Some s \<and> RouteById s 42 \<in> {Some (Inl NoProxyErr), Some (Inl ProxyNil)}"
proof -
  obtain d s where d: "watcher (init (example_opts ''game|2'')) [PUT ''app/game/1'' ''up''] = Some d"
    "dispatcher_ok d" "map_of (d_services d) ''app/game'' = Some s" "s_routeType s = Direct"
    using example_dispatcher [OF example_route_type(3,4)] by metis
  have "s_routeType s \<noteq> Hash" using d(4) by (simp add: Hash_def Direct_def)
  from Other_routing_always_fails [OF d(2,3) this, of 42] d(1,3) show ?thesis by fastforce
qed

text \<open>
  \<open>CheckRoute\<close> answers false for every key, whatever the registry holds: it compares with a name
  of its own that is never set.
\<close>

theorem CheckRoute_always_false:
  "do { d1 \<leftarrow> connectAll (init opts) kvs; d \<leftarrow> watcher d1 evs; CheckRoute d key } = Some False"
proof -
  obtain srvs where d: "do { d1 \<leftarrow> connectAll (init opts) kvs; watcher d1 evs } = Some (init opts\<lparr>d_services := srvs\<rparr>)"
    "dispatcher_ok (init opts\<lparr>d_services := srvs\<rparr>)"
    using started by metis
  let ?d = "init opts\<lparr>d_services := srvs\<rparr>"
  have "d_myName ?d = []" by (simp add: init_def Let_def)
  then have "CheckRoute ?d key = Some False"
    using getProxy_answers [OF d(2), of "d_myType ?d" key]
      Base_nonempty [THEN not_sym]
    by (auto simp: CheckRoute_def split: sum.splits)
  moreover have "do { d1 \<leftarrow> connectAll (init opts) kvs; d \<leftarrow> watcher d1 evs; CheckRoute d key }
      = do { d \<leftarrow> do { d1 \<leftarrow> connectAll (init opts) kvs; watcher d1 evs }; CheckRoute d key }"
    by (simp split: bind_splits)
  ultimately show ?thesis by (simp only: d(1) bind.bind_lunit)
qed

text \<open>
  The gate's key is made of the first configured connection type with its routing type still
  attached: when the entry has one, \<open>GetGate\<close> fails for every id, whatever the registry holds.
\<close>

theorem GetGate_fails_with_typed_entry:
  assumes "opt_ServerConTypes opts = n0 # rest" and "length (split_on (CHR ''|'') n0) = 2"
  shows "\<exists>err. do { d1 \<leftarrow> connectAll (init opts) kvs; d \<leftarrow> watcher d1 evs; GetGate d uid } = Some (Inl err)"
proof -
  let ?key = "opt_AppName opts @ ''/'' @ n0"
  have keep: "map_of (init_name (opt_AppName opts) names v) ?key = map_of names ?key" for names v
  proof (cases "length (split_on (CHR ''|'') (TrimSpace v)) = 2")
    case True
    then obtain a b where ab: "split_on (CHR ''|'') (TrimSpace v) = [a, b]"
      by (auto simp: numeral_2_eq_2 length_Suc_conv)
    have "a \<noteq> n0"
    proof
      assume "a = n0"
      moreover have "CHR ''|'' \<notin> set a" using split_on_parts [of a "CHR ''|''" "TrimSpace v"] ab by simp
      ultimately show False using assms(2) by (simp add: split_on_free)
    qed
    then show ?thesis
      using ab by (auto simp: init_name_def Let_def update_conv' split: option.splits)
  next
    case False
    then have "TrimSpace v \<noteq> n0" using assms(2) by auto
    then show ?thesis using False by (simp add: init_name_def Let_def update_conv')
  qed
  have "map_of (foldl (init_name (opt_AppName opts)) names vs) ?key = map_of names ?key" for names vs
    by (induction vs arbitrary: names) (simp_all add: keep [simplified])
  then have np: "not_provided (init opts) ?key"
    using assms(1) by (simp add: not_provided_def route_type_def init_def Let_def keep [simplified])
  obtain srvs where d: "do { d1 \<leftarrow> connectAll (init opts) kvs; watcher d1 evs } = Some (init opts\<lparr>d_services := srvs\<rparr>)"
    "dispatcher_ok (init opts\<lparr>d_services := srvs\<rparr>)"
    using started by metis
  let ?d = "init opts\<lparr>d_services := srvs\<rparr>"
  have "map_of (d_services ?d) ?key = None"
  proof (rule ccontr)
    assume "map_of (d_services ?d) ?key \<noteq> None"
    then show False using dispatcher_okD(3) [OF d(2)] np by auto
  qed
  then have "\<exists>err. GetGate ?d uid = Some (Inl err)"
    using assms(1) by (auto simp: GetGate_def GetServer_def getProxy_def init_def Let_def)
  moreover have "do { d1 \<leftarrow> connectAll (init opts) kvs; d \<leftarrow> watcher d1 evs; GetGate d uid }
      = do { d \<leftarrow> do { d1 \<leftarrow> connectAll (init opts) kvs; watcher d1 evs }; GetGate d uid }"
    by (simp split: bind_splits)
  ultimately show ?thesis by (simp only: d(1) bind.bind_lunit)
qed

theorem GetGate_fails_with_typed_entry_witness:
  "\<exists>err. do { d1 \<leftarrow> connectAll (init (example_opts ''game|1'')) [(''app/game/1'', ''up'')]; d \<leftarrow> watcher d1 []; GetGate d 42 }
    = Some (Inl err)"
  using GetGate_fails_with_typed_entry [of "example_opts ''game|1''" "''game|1''" "[]" "[(''app/game/1'', ''up'')]" "[]" 42]
  by (simp add: example_opts_def)

text \<open>
  The routing type of an entry keeps the low eight bits of its number: 256 reads as 0, so that
  the service counts as not provided and its servers are ignored.
\<close>

theorem RouteType_wraps:
  assumes "plain nm" and "CHR ''|'' \<notin> set nm" and "\<not> is_space (hd nm)" and "0 \<le> i" and "i < 2 ^ 63"
    and "opt_ServerConTypes opts = [nm @ ''|'' @ Itoa i]"
  shows "route_type (init opts) (opt_AppName opts @ ''/'' @ nm) = word_of_int i
    \<and> (not_provided (init opts) (opt_AppName opts @ ''/'' @ nm) \<longleftrightarrow> sint (word_of_int i :: i8) \<le> 0)"
proof -
  have digits: "\<forall>c \<in> set (Itoa i). is_digit c" "Itoa i \<noteq> []"
    using nat_digits_are_digits [of "nat i"] assms(4) by (simp_all add: Itoa_def list_all_iff)
  have "\<not> is_space (last (Itoa i))"
    using bspec [OF digits(1) last_in_set [OF digits(2)]] by (auto simp: is_digit_def is_space_def)
  then have trim: "TrimSpace (nm @ ''|'' @ Itoa i) = nm @ ''|'' @ Itoa i"
    using assms(1,3) digits(2)
    by (cases nm; cases "Itoa i" rule: rev_cases) (simp_all add: TrimSpace_def plain_def)
  have "CHR ''|'' \<notin> set (Itoa i)" using digits(1) by (auto simp: is_digit_def)
  then have "split_on (CHR ''|'') (nm @ ''|'' @ Itoa i) = [nm, Itoa i]"
    using split_on_append [OF assms(2), of "Itoa i"] by (simp add: split_on_free)
  then have "d_names (init opts) = [(opt_AppName opts @ ''/'' @ nm, word_of_int i)]"
    using trim assms(4,5,6) by (simp add: init_def init_name_def Let_def Atoi_Itoa to_RouteType_def)
  moreover have "d_names_provided (init opts)" using assms(6) by (simp add: init_def Let_def)
  ultimately show ?thesis
    by (simp add: route_type_def not_provided_def)
qed

theorem RouteType_wraps_witness:
  "not_provided (init (example_opts ''game|256'')) ''app/game''"
proof -
  have "Itoa 256 = ''256''" by (simp add: Itoa_def nat_digits.simps)
  then show ?thesis
    using RouteType_wraps [of "''game''" 256 "example_opts ''game|256''"]
    by (simp add: plain_def is_space_def example_opts_def)
qed

end
