(* ===== verification/Connect.thy ===== *)
theory Connect
  imports Options Common
begin

text \<open>
  The connections of the gate, \<open>gate/connect/tcp/connect.go\<close> and \<open>gate/connect/ws/connect.go\<close>:
  a TCP connection cuts the byte stream into packets with a length in front. \<open>None\<close> as the
  result of an operation is a panic. The socket is the list of bytes that arrive before it ends
  with an error, and the list of bytes written.
\<close>

section \<open>Byte order\<close>

text \<open>\<open>binary.BigEndian\<close> and \<open>binary.LittleEndian\<close>: the \<open>n\<close> bytes of a number, and back.\<close>

definition be_bytes :: "nat \<Rightarrow> nat \<Rightarrow> string" where
  "be_bytes n v = map (\<lambda>i. char_of (v div 256 ^ (n - 1 - i))) [0..<n]"

definition order_bytes :: "bool \<Rightarrow> nat \<Rightarrow> nat \<Rightarrow> string" where
  "order_bytes big n v = (if big then be_bytes n v else rev (be_bytes n v))"

definition be_value :: "string \<Rightarrow> nat" where
  "be_value s = foldl (\<lambda>a c. 256 * a + of_char c) 0 s"

text \<open>\<open>PutUint16\<close> and \<open>PutUint32\<close> write to the front of a buffer, and panic when it is too short.\<close>

definition PutUint :: "bool \<Rightarrow> nat \<Rightarrow> string \<Rightarrow> nat \<Rightarrow> string option" where
  "PutUint big n buf v = (if length buf < n then None else Some (order_bytes big n v @ drop n buf))"

definition GetUint :: "bool \<Rightarrow> nat \<Rightarrow> string \<Rightarrow> nat option" where
  "GetUint big n buf =
     (if length buf < n then None
      else Some (be_value (if big then take n buf else rev (take n buf))))"

section \<open>TCP\<close>

datatype conn_error =
    ConnClosed
  | SizeErr int
  | HeadErr string
  | DataErr string
  | WriteErr
  | UnmarshalErr string

text \<open>\<open>cn_input\<close> is what the reader delivers before it fails with \<open>cn_end\<close>, such as \<open>EOF\<close>.\<close>

record Connect =
  cn_hCache :: string
  cn_dCache :: string
  cn_cache :: string
  cn_readDeadline :: i64
  cn_writeDeadline :: i64
  cn_bigEndian :: bool
  cn_headSize :: u16
  cn_MaxPacketSize :: i64
  cn_isClose :: bool
  cn_input :: string
  cn_end :: string
  cn_written :: string
  cn_write_fails :: bool
  cn_rdl :: "i64 option"
  cn_wdl :: "i64 option"

definition zeros :: "nat \<Rightarrow> string" where
  "zeros n = replicate n (CHR 0x00)"

text \<open>\<open>OnInit\<close>; \<open>make\<close> panics on a negative size.\<close>

definition OnInit :: "Options \<Rightarrow> string \<Rightarrow> string \<Rightarrow> bool \<Rightarrow> Connect option" where
  "OnInit opts input fin fails =
     (if sint (opt_MaxPacketSize opts) < 0 then None
      else Some \<lparr>cn_hCache = zeros (unat (opt_NetHeadSize opts)),
        cn_dCache = zeros (nat (sint (opt_MaxPacketSize opts))),
        cn_cache = zeros (nat (sint (opt_MaxPacketSize opts))),
        cn_readDeadline = opt_ReadDeadline opts * 1000000000,
        cn_writeDeadline = opt_WriteDeadline opts * 1000000000,
        cn_bigEndian = opt_ByteOrder opts,
        cn_headSize = opt_NetHeadSize opts,
        cn_MaxPacketSize = opt_MaxPacketSize opts,
        cn_isClose = False,
        cn_input = input, cn_end = fin, cn_written = [], cn_write_fails = fails,
        cn_rdl = None, cn_wdl = None\<rparr>)"

text \<open>\<open>NewConnect\<close>, whose \<open>OnInit\<close> returns no error; and the name of a connection from a remote address.\<close>

definition tcp_NewConnect :: "Options \<Rightarrow> string \<Rightarrow> string \<Rightarrow> bool \<Rightarrow> (conn_error + Connect) option" where
  "tcp_NewConnect opts input fin fails = map_option Inr (OnInit opts input fin fails)"

definition tcp_OnString :: "string \<Rightarrow> string" where
  "tcp_OnString addr = ''tcp_'' @ addr"

definition IsClosed :: "Connect \<Rightarrow> bool" where
  "IsClosed c = cn_isClose c"

definition OnClose :: "Connect \<Rightarrow> Connect" where
  "OnClose c = c\<lparr>cn_isClose := True\<rparr>"

text \<open>Width of the length field: 2 bytes for a head of 2, 4 bytes for any other head.\<close>

definition len_width :: "Connect \<Rightarrow> nat" where
  "len_width c = (if cn_headSize c = 2 then 2 else 4)"

definition overwrite :: "nat \<Rightarrow> string \<Rightarrow> string \<Rightarrow> string" where
  "overwrite i src dst = take i dst @ take (length dst - i) src @ drop (i + length src) dst"

definition OnSend :: "Connect \<Rightarrow> string \<Rightarrow> (Connect \<times> conn_error option) option" where
  "OnSend c d =
     (if cn_isClose c then Some (c, Some ConnClosed)
      else
        let c1 = c\<lparr>cn_wdl := Some (cn_writeDeadline c)\<rparr>;
            sz = int (length d);
            head = unat (cn_headSize c)
        in if sz + int head > sint (cn_MaxPacketSize c) \<or> sz \<le> 0 then Some (c1, Some (SizeErr sz))
           else do {
             cache1 \<leftarrow> PutUint (cn_bigEndian c) (len_width c) (cn_cache c1) (nat sz mod 256 ^ len_width c);
             let cache2 = overwrite head d cache1;
             let c2 = c1\<lparr>cn_cache := cache2\<rparr>;
             if cn_write_fails c then Some (c2, Some WriteErr)
             else Some (c2\<lparr>cn_written := cn_written c2 @ take (nat sz + head) cache2\<rparr>, None)
           })"

text \<open>
  \<open>io.ReadFull\<close> reads until the buffer is full. When the input ends before, the bytes there are
  consumed, and the error is \<open>unexpected EOF\<close> if there were some and the input ended with \<open>EOF\<close>.
\<close>

definition ReadFull :: "Connect \<Rightarrow> nat \<Rightarrow> Connect \<times> (string + string)" where
  "ReadFull c n =
     (if n \<le> length (cn_input c)
      then (c\<lparr>cn_input := drop n (cn_input c)\<rparr>, Inr (take n (cn_input c)))
      else (c\<lparr>cn_input := []\<rparr>,
        Inl (if cn_end c = ''EOF'' \<and> cn_input c \<noteq> [] then ''unexpected EOF'' else cn_end c)))"

text \<open>
  \<open>OnReceive\<close>; \<open>unmarshal\<close> is the processor's \<open>Unmarshal\<close>. The test of the number of bytes read
  cannot fail after \<open>ReadFull\<close> returned without an error.
\<close>

definition OnReceive ::
    "(string \<Rightarrow> string + Msg) \<Rightarrow> Connect \<Rightarrow> (Connect \<times> (conn_error + Msg option)) option" where
  "OnReceive unmarshal c =
     (if cn_isClose c then Some (c, Inl ConnClosed)
      else
        let c1 = c\<lparr>cn_rdl := Some (cn_readDeadline c)\<rparr> in
        (case ReadFull c1 (length (cn_hCache c1)) of
           (c2, Inl err) \<Rightarrow> Some (c2, Inl (HeadErr err))
         | (c2, Inr hCache) \<Rightarrow>
             let c3 = c2\<lparr>cn_hCache := hCache\<rparr> in
             if length hCache < unat (cn_headSize c3) then Some (c3, Inr None)
             else do {
               v \<leftarrow> GetUint (cn_bigEndian c3) (len_width c3) hCache;
               let size = int v;
               if size + int (unat (cn_headSize c3)) > sint (cn_MaxPacketSize c3) \<or> size \<le> 0
               then Some (c3, Inl (SizeErr size))
               else if length (cn_dCache c3) < v then None
               else (case ReadFull c3 v of
                 (c4, Inl err) \<Rightarrow> Some (c4, Inl (DataErr err))
               | (c4, Inr cache) \<Rightarrow>
                   let c5 = c4\<lparr>cn_dCache := cache @ drop v (cn_dCache c4)\<rparr> in
                   if length cache < v then Some (c5, Inr None)
                   else Some (c5, (case unmarshal cache of
                     Inl err \<Rightarrow> Inl (UnmarshalErr err) | Inr msg \<Rightarrow> Inr (Some msg))))
             }))"

section \<open>WebSocket\<close>

text \<open>
  What \<open>ReadMessage\<close> of the websocket library (third-party) answers; it frames messages itself.
\<close>

datatype ws_read = WsEOF | WsErr string | WsPayload string

record WsConnect =
  ws_Addr :: string
  ws_header :: string
  ws_readDeadline :: i64
  ws_writeDeadline :: i64
  ws_isClose :: bool
  ws_rdl :: "i64 option"
  ws_wdl :: "i64 option"
  ws_limit :: "i64 option"
  ws_sent :: "string list"

definition ws_OnInit :: "Options \<Rightarrow> string option \<Rightarrow> WsConnect \<times> bool" where
  "ws_OnInit opts addr =
     (let c = \<lparr>ws_Addr = [], ws_header = zeros 2,
               ws_readDeadline = opt_ReadDeadline opts * 1000000000,
               ws_writeDeadline = opt_WriteDeadline opts * 1000000000,
               ws_isClose = False, ws_rdl = None, ws_wdl = None, ws_limit = None, ws_sent = []\<rparr>
      in (case addr of None \<Rightarrow> (c, False) | Some a \<Rightarrow> (c\<lparr>ws_Addr := a\<rparr>, True)))"

text \<open>\<open>NewConnect\<close>: nil when \<open>OnInit\<close> fails.\<close>

definition ws_NewConnect :: "Options \<Rightarrow> string option \<Rightarrow> WsConnect option" where
  "ws_NewConnect opts addr = (case ws_OnInit opts addr of (c, ok) \<Rightarrow> if ok then Some c else None)"

definition ws_IsClosed :: "WsConnect \<Rightarrow> bool" where
  "ws_IsClosed c = ws_isClose c"

definition ws_OnString :: "WsConnect \<Rightarrow> string" where
  "ws_OnString c = ''ws_'' @ ws_Addr c"

definition ws_OnClose :: "WsConnect \<Rightarrow> WsConnect" where
  "ws_OnClose c = c\<lparr>ws_isClose := True\<rparr>"

definition ws_OnSend :: "WsConnect \<Rightarrow> string \<Rightarrow> WsConnect \<times> conn_error option" where
  "ws_OnSend c d =
     (if ws_isClose c then (c, Some ConnClosed)
      else (c\<lparr>ws_wdl := Some (ws_writeDeadline c), ws_sent := ws_sent c @ [d]\<rparr>, None))"

definition ws_OnReceive ::
    "(string \<Rightarrow> string + Msg) \<Rightarrow> i64 \<Rightarrow> WsConnect \<Rightarrow> ws_read \<Rightarrow> WsConnect \<times> (conn_error + Msg option)" where
  "ws_OnReceive unmarshal maxSize c answer =
     (if ws_isClose c then (c, Inl ConnClosed)
      else
        let c1 = c\<lparr>ws_wdl := Some (ws_readDeadline c), ws_limit := Some maxSize\<rparr> in
        (c1, (case answer of
           WsEOF \<Rightarrow> Inr None
         | WsErr err \<Rightarrow> Inl (DataErr err)
         | WsPayload payload \<Rightarrow>
             if length payload = 0 then Inr None
             else (case unmarshal payload of Inl err \<Rightarrow> Inl (UnmarshalErr err) | Inr msg \<Rightarrow> Inr (Some msg)))))"

section \<open>Numbers and bytes\<close>

lemma length_be_bytes [simp]: "length (be_bytes n v) = n"
  by (simp add: be_bytes_def)

lemma length_order_bytes [simp]: "length (order_bytes big n v) = n"
  by (simp add: order_bytes_def)

lemma be_bytes_Suc: "be_bytes (Suc n) v = be_bytes n (v div 256) @ [char_of v]"
proof -
  have "map (\<lambda>i. char_of (v div 256 ^ (Suc n - 1 - i))) [0..<n] = map (\<lambda>i. char_of (v div 256 div 256 ^ (n - 1 - i)) :: char) [0..<n]"
  proof (rule map_cong)
    fix i assume "i \<in> set [0..<n]"
    then have "Suc n - 1 - i = Suc (n - 1 - i)" by auto
    then show "char_of (v div 256 ^ (Suc n - 1 - i)) = (char_of (v div 256 div 256 ^ (n - 1 - i)) :: char)"
      by (simp add: div_mult2_eq)
  qed simp
  then show ?thesis by (simp add: be_bytes_def)
qed

lemma be_value_bytes: "be_value (be_bytes n v) = v mod 256 ^ n"
proof (induction n arbitrary: v)
  case 0
  then show ?case by (simp add: be_value_def be_bytes_def)
next
  case (Suc n)
  have "be_value (be_bytes (Suc n) v) = 256 * be_value (be_bytes n (v div 256)) + v mod 256"
    by (simp add: be_bytes_Suc be_value_def)
  also have "\<dots> = v mod 256 ^ Suc n"
    using Suc by (simp add: mod_mult2_eq)
  finally show ?case .
qed

lemma be_value_less: "be_value s < 256 ^ length s"
proof (induction s rule: rev_induct)
  case (snoc c s)
  have "(of_char c :: nat) < 256" by simp
  then have "256 * be_value s + of_char c < 256 * Suc (be_value s)" by simp
  also have "\<dots> \<le> 256 * 256 ^ length s" using snoc by (intro mult_left_mono) simp_all
  finally show ?case by (simp add: be_value_def)
qed (simp add: be_value_def)

lemma GetUint_bytes:
  "v < 256 ^ n \<Longrightarrow> GetUint big n (order_bytes big n v @ rest) = Some v"
  by (cases big) (simp_all add: GetUint_def order_bytes_def be_value_bytes)

section \<open>Framing\<close>

text \<open>The buffers have the sizes \<open>OnInit\<close> gives them, and the head is one the code supports.\<close>

definition conn_ok :: "Connect \<Rightarrow> bool" where
  "conn_ok c = (cn_headSize c \<in> {2, 4} \<and> 0 \<le> sint (cn_MaxPacketSize c)
     \<and> length (cn_cache c) = nat (sint (cn_MaxPacketSize c))
     \<and> length (cn_dCache c) = nat (sint (cn_MaxPacketSize c))
     \<and> length (cn_hCache c) = unat (cn_headSize c))"

definition same_format :: "Connect \<Rightarrow> Connect \<Rightarrow> bool" where
  "same_format a b = (cn_headSize a = cn_headSize b \<and> cn_bigEndian a = cn_bigEndian b
     \<and> cn_MaxPacketSize a = cn_MaxPacketSize b)"

text \<open>A payload that fits: into the packet size, and its length into the head.\<close>

definition sendable :: "Connect \<Rightarrow> string \<Rightarrow> bool" where
  "sendable c d = (0 < length d \<and> int (length d) + int (unat (cn_headSize c)) \<le> sint (cn_MaxPacketSize c)
     \<and> length d < 256 ^ unat (cn_headSize c))"

definition frame :: "Connect \<Rightarrow> string \<Rightarrow> string" where
  "frame c d = order_bytes (cn_bigEndian c) (unat (cn_headSize c)) (length d) @ d"

lemma same_format_sym: "same_format a b \<Longrightarrow> same_format b a"
  and same_format_trans: "same_format a b \<Longrightarrow> same_format b c \<Longrightarrow> same_format a c"
  and same_format_refl [simp]: "same_format a a"
  by (simp_all add: same_format_def)

lemma same_format_frame:
  "same_format a b \<Longrightarrow> frame a d = frame b d" "same_format a b \<Longrightarrow> sendable a d = sendable b d"
  by (simp_all add: same_format_def frame_def sendable_def)

lemma head_width: "conn_ok c \<Longrightarrow> len_width c = unat (cn_headSize c)"
  by (auto simp: conn_ok_def len_width_def)

lemma OnInit_ok:
  assumes "OnInit opts input fin fails = Some c" and "opt_NetHeadSize opts \<in> {2, 4}"
  shows "conn_ok c" "\<not> cn_isClose c" "cn_input c = input" "cn_written c = []" "cn_write_fails c = fails"
  using assms by (auto simp: OnInit_def conn_ok_def zeros_def split: if_splits)

lemma sendable_room:
  assumes "conn_ok c" and "sendable c d"
  shows "unat (cn_headSize c) + length d \<le> length (cn_cache c)" "length d \<le> length (cn_dCache c)"
proof -
  have "0 \<le> sint (cn_MaxPacketSize c)" "length (cn_cache c) = nat (sint (cn_MaxPacketSize c))"
    "length (cn_dCache c) = nat (sint (cn_MaxPacketSize c))"
    using assms(1) by (simp_all add: conn_ok_def)
  moreover have "int (unat (cn_headSize c) + length d) \<le> sint (cn_MaxPacketSize c)"
    using assms(2) by (simp add: sendable_def)
  ultimately show "unat (cn_headSize c) + length d \<le> length (cn_cache c)" "length d \<le> length (cn_dCache c)"
    by linarith+
qed

lemma OnSend_frame:
  assumes "conn_ok c" and "\<not> cn_isClose c" and "\<not> cn_write_fails c" and "sendable c d"
  shows "\<exists>c'. OnSend c d = Some (c', None) \<and> cn_written c' = cn_written c @ frame c d \<and> conn_ok c'
    \<and> same_format c c' \<and> \<not> cn_isClose c' \<and> \<not> cn_write_fails c'"
proof -
  let ?h = "unat (cn_headSize c)"
  let ?cache = "order_bytes (cn_bigEndian c) ?h (length d) @ drop ?h (cn_cache c)"
  have w: "len_width c = ?h" by (rule head_width [OF assms(1)])
  note room = sendable_room(1) [OF assms(1,4)]
  have put: "PutUint (cn_bigEndian c) ?h (cn_cache c) (length d) = Some ?cache"
    using room by (simp add: PutUint_def)
  have len: "length (overwrite ?h d ?cache) = length (cn_cache c)"
    using room by (simp add: overwrite_def)
  have packet: "take (length d + ?h) (overwrite ?h d ?cache) = frame c d"
    using room by (simp add: overwrite_def frame_def)
  have small: "length d mod 256 ^ ?h = length d" using assms(4) by (simp add: sendable_def)
  let ?c = "c\<lparr>cn_wdl := Some (cn_writeDeadline c), cn_cache := overwrite ?h d ?cache,
    cn_written := cn_written c @ frame c d\<rparr>"
  have "OnSend c d = Some (?c, None)"
    using assms(2,3,4) put by (simp add: OnSend_def w small packet Let_def sendable_def not_less)
  then show ?thesis
    using assms len by (intro exI [of _ ?c]) (simp add: conn_ok_def same_format_def)
qed

lemma OnReceive_frame:
  assumes "conn_ok c" and "\<not> cn_isClose c" and "sendable c d" and "cn_input c = frame c d @ rest"
  shows "\<exists>c'. OnReceive unmarshal c =
      Some (c', case unmarshal d of Inl err \<Rightarrow> Inl (UnmarshalErr err) | Inr msg \<Rightarrow> Inr (Some msg))
    \<and> cn_input c' = rest \<and> conn_ok c' \<and> same_format c c' \<and> \<not> cn_isClose c'"
proof -
  let ?h = "unat (cn_headSize c)"
  let ?head = "order_bytes (cn_bigEndian c) ?h (length d)"
  have w: "len_width c = ?h" by (rule head_width [OF assms(1)])
  have hlen: "length (cn_hCache c) = ?h" using assms(1) by (simp add: conn_ok_def)
  have size: "GetUint (cn_bigEndian c) ?h ?head = Some (length d)"
    using GetUint_bytes [of "length d" ?h "cn_bigEndian c" "[]"] assms(3) by (simp add: sendable_def)
  note room = sendable_room(2) [OF assms(1,3)]
  let ?c = "c\<lparr>cn_rdl := Some (cn_readDeadline c), cn_hCache := ?head, cn_input := rest,
    cn_dCache := d @ drop (length d) (cn_dCache c)\<rparr>"
  have "OnReceive unmarshal c =
      Some (?c, case unmarshal d of Inl err \<Rightarrow> Inl (UnmarshalErr err) | Inr msg \<Rightarrow> Inr (Some msg))"
    using assms(2,3,4) hlen size w room
    by (simp add: OnReceive_def ReadFull_def frame_def Let_def sendable_def len_width_def not_less)
  then show ?thesis
    using assms room by (intro exI [of _ ?c]) (simp add: conn_ok_def same_format_def)
qed

text \<open>Sending and receiving several packets.\<close>

fun send_all :: "Connect \<Rightarrow> string list \<Rightarrow> Connect option" where
  "send_all c [] = Some c"
| "send_all c (d # ds) = do { (c1, err) \<leftarrow> OnSend c d; if err = None then send_all c1 ds else None }"

fun recv_all :: "(string \<Rightarrow> string + Msg) \<Rightarrow> Connect \<Rightarrow> nat \<Rightarrow> (Connect \<times> Msg list) option" where
  "recv_all unmarshal c 0 = Some (c, [])"
| "recv_all unmarshal c (Suc n) = do {
     (c1, r) \<leftarrow> OnReceive unmarshal c;
     (case r of
        Inr (Some msg) \<Rightarrow> do { (c2, msgs) \<leftarrow> recv_all unmarshal c1 n; Some (c2, msg # msgs) }
      | _ \<Rightarrow> None)
   }"

lemma send_all_frames:
  assumes "conn_ok c" and "\<not> cn_isClose c" and "\<not> cn_write_fails c" and "\<forall>d \<in> set ds. sendable c d"
  shows "\<exists>c'. send_all c ds = Some c' \<and> cn_written c' = cn_written c @ concat (map (frame c) ds)"
  using assms
proof (induction ds arbitrary: c)
  case Nil
  then show ?case by simp
next
  case (Cons d ds)
  from Cons.prems(4) have "sendable c d" by simp
  from OnSend_frame [OF Cons.prems(1,2,3) this] obtain c1 where c1:
    "OnSend c d = Some (c1, None)" "cn_written c1 = cn_written c @ frame c d" "conn_ok c1"
    "same_format c c1" "\<not> cn_isClose c1" "\<not> cn_write_fails c1"
    by blast
  have "\<forall>d \<in> set ds. sendable c1 d" "map (frame c1) ds = map (frame c) ds"
    using Cons.prems(4) same_format_frame [OF c1(4)] by auto
  with Cons.IH [OF c1(3,5,6)] c1(1,2) show ?case by auto
qed

lemma recv_all_frames:
  assumes "conn_ok c" and "\<not> cn_isClose c" and "\<forall>d \<in> set ds. sendable c d \<and> unmarshal d = Inr (g d)"
    and "cn_input c = concat (map (frame c) ds) @ rest"
  shows "\<exists>c'. recv_all unmarshal c (length ds) = Some (c', map g ds) \<and> cn_input c' = rest"
  using assms
proof (induction ds arbitrary: c)
  case Nil
  then show ?case by simp
next
  case (Cons d ds)
  have d: "sendable c d" "unmarshal d = Inr (g d)"
    "cn_input c = frame c d @ concat (map (frame c) ds) @ rest"
    using Cons.prems(3,4) by simp_all
  from OnReceive_frame [OF Cons.prems(1,2) d(1,3), of unmarshal] obtain c1 where c1:
    "OnReceive unmarshal c = Some (c1, Inr (Some (g d)))" "cn_input c1 = concat (map (frame c) ds) @ rest"
    "conn_ok c1" "same_format c c1" "\<not> cn_isClose c1"
    using d(2) by auto
  have "\<forall>d \<in> set ds. sendable c1 d \<and> unmarshal d = Inr (g d)" "map (frame c) ds = map (frame c1) ds"
    using Cons.prems(3) same_format_frame [OF c1(4)] by auto
  with Cons.IH [OF c1(3,5)] c1(1,2) show ?case by auto
qed

section \<open>Properties\<close>

text \<open>
  C7. Round trip: with the same format and a head of 2 or 4 bytes on both sides, and payloads that fit, the packets sent over one connection
  are received, unmarshalled, on the other, in order, and nothing of the following input is lost.
\<close>

theorem tcp_roundtrip:
  assumes "conn_ok a" and "\<not> cn_isClose a" and "\<not> cn_write_fails a" and "cn_written a = []"
    and "conn_ok b" and "\<not> cn_isClose b" and "same_format a b"
    and "\<forall>d \<in> set ds. sendable a d \<and> unmarshal d = Inr (g d)"
    and "send_all a ds = Some a'" and "cn_input b = cn_written a' @ rest"
  shows "\<exists>b'. recv_all unmarshal b (length ds) = Some (b', map g ds) \<and> cn_input b' = rest"
proof -
  have "\<forall>d \<in> set ds. sendable a d" using assms(8) by blast
  from send_all_frames [OF assms(1,2,3) this] assms(4,9)
  have "cn_written a' = concat (map (frame a) ds)" by auto
  moreover have "map (frame a) ds = map (frame b) ds"
    using same_format_frame(1) [OF assms(7)] by simp
  ultimately have "cn_input b = concat (map (frame b) ds) @ rest" using assms(10) by simp
  moreover have "\<forall>d \<in> set ds. sendable b d \<and> unmarshal d = Inr (g d)"
    using assms(8) same_format_frame(2) [OF assms(7)] by simp
  ultimately show ?thesis using recv_all_frames [OF assms(5,6)] by blast
qed

definition example_conn :: "u16 \<Rightarrow> string \<Rightarrow> Connect" where
  "example_conn head input = \<lparr>cn_hCache = zeros (unat head), cn_dCache = zeros 64, cn_cache = zeros 64,
     cn_readDeadline = 0, cn_writeDeadline = 0, cn_bigEndian = True, cn_headSize = head,
     cn_MaxPacketSize = 64, cn_isClose = False, cn_input = input, cn_end = ''EOF'', cn_written = [],
     cn_write_fails = False, cn_rdl = None, cn_wdl = None\<rparr>"

definition text_msg :: "string \<Rightarrow> Msg" where
  "text_msg d = \<lparr>Seq = 1, ID = 1001, Body = d, MsgKey = 7, UID = 7\<rparr>"

theorem tcp_roundtrip_witness:
  "\<exists>a' b'. send_all (example_conn 2 []) [''ab'', ''cde''] = Some a'
    \<and> recv_all (\<lambda>d. Inr (text_msg d)) (example_conn 2 (cn_written a')) 2
      = Some (b', [text_msg ''ab'', text_msg ''cde''])"
proof -
  have ok: "conn_ok (example_conn 2 input)" "\<not> cn_isClose (example_conn 2 input)"
    "\<not> cn_write_fails (example_conn 2 input)" "cn_written (example_conn 2 input) = []"
    "same_format (example_conn 2 input) (example_conn 2 input')" "cn_input (example_conn 2 input) = input" for input input'
    by (simp_all add: conn_ok_def example_conn_def zeros_def same_format_def)
  have fits: "\<forall>d \<in> set [''ab'', ''cde'']. sendable (example_conn 2 []) d
      \<and> (\<lambda>d. Inr (text_msg d) :: string + Msg) d = Inr (text_msg d)"
    by (simp add: sendable_def example_conn_def)
  then obtain a' where a': "send_all (example_conn 2 []) [''ab'', ''cde''] = Some a'"
    using send_all_frames [OF ok(1,2,3)] by blast
  have "cn_input (example_conn 2 (cn_written a')) = cn_written a' @ []" by (simp add: ok)
  from tcp_roundtrip [OF ok(1,2,3,4) ok(1,2,5) fits a' this] obtain b' where
    "recv_all (\<lambda>d. Inr (text_msg d)) (example_conn 2 (cn_written a')) (length [''ab'', ''cde''])
      = Some (b', map text_msg [''ab'', ''cde''])"
    by blast
  with a' show ?thesis by (simp add: numeral_2_eq_2)
qed

section \<open>No panic\<close>

text \<open>
  The sizes that \<open>OnInit\<close> gives the buffers, with a head that the code reads its length from: two bytes, or four
  bytes and more, of which the first four are the length.
\<close>

definition conn_sizes :: "Connect \<Rightarrow> bool" where
  "conn_sizes c \<longleftrightarrow> (cn_headSize c = 2 \<or> 4 \<le> cn_headSize c) \<and> 0 \<le> sint (cn_MaxPacketSize c)
     \<and> length (cn_cache c) = nat (sint (cn_MaxPacketSize c))
     \<and> length (cn_dCache c) = nat (sint (cn_MaxPacketSize c))
     \<and> length (cn_hCache c) = unat (cn_headSize c)"

lemma conn_ok_sizes: "conn_ok c \<Longrightarrow> conn_sizes c"
  by (auto simp: conn_ok_def conn_sizes_def)

lemma OnInit_sizes:
  assumes "0 \<le> sint (opt_MaxPacketSize opts)" and "opt_NetHeadSize opts = 2 \<or> 4 \<le> opt_NetHeadSize opts"
  obtains c where "OnInit opts input fin fails = Some c" "conn_sizes c" "cn_headSize c = opt_NetHeadSize opts"
    "cn_MaxPacketSize c = opt_MaxPacketSize opts"
  using assms by (simp add: OnInit_def conn_sizes_def zeros_def)

lemma conn_sizes_width:
  assumes "conn_sizes c"
  shows "len_width c \<le> unat (cn_headSize c)"
proof (cases "cn_headSize c = 2")
  case False
  with assms have "(4 :: u16) \<le> cn_headSize c" by (simp add: conn_sizes_def)
  then have "unat (4 :: u16) \<le> unat (cn_headSize c)" by (simp only: word_le_nat_alt)
  with False show ?thesis by (simp add: len_width_def)
qed (simp add: len_width_def)

lemma len_width_upd [simp]:
  "len_width (c\<lparr>cn_rdl := x\<rparr>) = len_width c" "len_width (c\<lparr>cn_input := y\<rparr>) = len_width c"
  "len_width (c\<lparr>cn_hCache := y\<rparr>) = len_width c"
  by (simp_all add: len_width_def)

lemma conn_sizes_kept:
  "conn_sizes c \<Longrightarrow> cn_headSize c' = cn_headSize c \<Longrightarrow> cn_MaxPacketSize c' = cn_MaxPacketSize c \<Longrightarrow>
    length (cn_cache c') = length (cn_cache c) \<Longrightarrow> length (cn_dCache c') = length (cn_dCache c) \<Longrightarrow>
    length (cn_hCache c') = length (cn_hCache c) \<Longrightarrow> conn_sizes c'"
  by (simp add: conn_sizes_def)

lemma OnSend_sizes:
  assumes "conn_sizes c"
  shows "\<exists>c' err. OnSend c d = Some (c', err) \<and> conn_sizes c' \<and> same_format c c'"
proof (cases "cn_isClose c \<or> int (length d) + int (unat (cn_headSize c)) > sint (cn_MaxPacketSize c) \<or> d = []")
  case True
  then show ?thesis by (auto simp: OnSend_def Let_def same_format_def intro!: conn_sizes_kept [OF assms] assms)
next
  case False
  have cache: "length (cn_cache c) = nat (sint (cn_MaxPacketSize c))" using assms by (simp add: conn_sizes_def)
  have "len_width c \<le> length (cn_cache c)" "unat (cn_headSize c) + length d \<le> length (cn_cache c)"
    using False conn_sizes_width [OF assms] unfolding cache by linarith+
  moreover from this have "length (overwrite (unat (cn_headSize c)) d (order_bytes (cn_bigEndian c) (len_width c) v
      @ drop (len_width c) (cn_cache c))) = length (cn_cache c)" for v
    by (simp add: overwrite_def)
  ultimately show ?thesis
    using False by (auto simp: OnSend_def Let_def PutUint_def same_format_def len_width_def
        intro!: conn_sizes_kept [OF assms])
qed

lemma OnReceive_sizes:
  assumes "conn_sizes c"
    and "\<forall>d. 0 < length d \<and> int (length d + unat (cn_headSize c)) \<le> sint (cn_MaxPacketSize c) \<longrightarrow>
      unmarshal d = unmarshal' d"
  shows "\<exists>c' r. OnReceive unmarshal c = Some (c', r) \<and> OnReceive unmarshal' c = Some (c', r)
    \<and> conn_sizes c' \<and> same_format c c'"
proof (cases "cn_isClose c \<or> length (cn_input c) < unat (cn_headSize c)")
  case True
  moreover have "length (cn_hCache c) = unat (cn_headSize c)" using assms(1) by (simp add: conn_sizes_def)
  ultimately show ?thesis
    by (auto simp: OnReceive_def ReadFull_def same_format_def Let_def intro!: conn_sizes_kept [OF assms(1)])
next
  case False
  let ?h = "unat (cn_headSize c)" and ?w = "len_width c"
  have hlen: "length (cn_hCache c) = ?h" and w: "?w \<le> ?h"
    using assms(1) conn_sizes_width by (simp_all add: conn_sizes_def)
  define v where "v = be_value (if cn_bigEndian c then take ?w (cn_input c) else rev (take ?w (cn_input c)))"
  have size: "GetUint (cn_bigEndian c) ?w (take ?h (cn_input c)) = Some v"
    using False w by (simp add: GetUint_def v_def min_absorb1)
  show ?thesis
  proof (cases "int v + int ?h > sint (cn_MaxPacketSize c) \<or> v = 0")
    case True
    then show ?thesis
      using False hlen size
      by (auto simp: OnReceive_def ReadFull_def Let_def same_format_def intro!: conn_sizes_kept [OF assms(1)])
  next
    case fits: False
    moreover have "length (cn_dCache c) = nat (sint (cn_MaxPacketSize c))"
      using assms(1) by (simp add: conn_sizes_def)
    ultimately have room: "v \<le> length (cn_dCache c)" by linarith
    have same: "unmarshal d = unmarshal' d" if "length d = v" for d
      using assms(2) fits that by (auto simp: not_less)
    show ?thesis
      using False hlen size fits room same [of "take v (drop ?h (cn_input c))"]
      by (cases "length (cn_input c) < ?h + v")
        (auto simp: OnReceive_def ReadFull_def Let_def same_format_def not_less intro!: conn_sizes_kept [OF assms(1)])
  qed
qed

text \<open>What the goroutines of a session do with a connection, in any order.\<close>

datatype conn_op = SendOp string | ReceiveOp | CloseOp

datatype conn_result = Sent "conn_error option" | Received "conn_error + Msg option" | Closed

definition conn_step :: "(string \<Rightarrow> string + Msg) \<Rightarrow> Connect \<Rightarrow> conn_op \<Rightarrow> (Connect \<times> conn_result) option" where
  "conn_step unmarshal c op = (case op of
     SendOp d \<Rightarrow> map_option (map_prod id Sent) (OnSend c d)
   | ReceiveOp \<Rightarrow> map_option (map_prod id Received) (OnReceive unmarshal c)
   | CloseOp \<Rightarrow> Some (OnClose c, Closed))"

fun conn_run :: "(string \<Rightarrow> string + Msg) \<Rightarrow> Connect \<Rightarrow> conn_op list \<Rightarrow> (Connect \<times> conn_result list) option" where
  "conn_run unmarshal c [] = Some (c, [])"
| "conn_run unmarshal c (op # ops) = do {
     (c1, r) \<leftarrow> conn_step unmarshal c op;
     (c2, rs) \<leftarrow> conn_run unmarshal c1 ops;
     Some (c2, r # rs)
   }"

lemma conn_step_sizes:
  assumes "conn_sizes c"
    and "\<forall>d. 0 < length d \<and> int (length d + unat (cn_headSize c)) \<le> sint (cn_MaxPacketSize c) \<longrightarrow>
      unmarshal d = unmarshal' d"
  shows "\<exists>c' r. conn_step unmarshal c op = Some (c', r) \<and> conn_step unmarshal' c op = Some (c', r)
    \<and> conn_sizes c' \<and> same_format c c'"
proof (cases op)
  case (SendOp d)
  with OnSend_sizes [OF assms(1), of d] show ?thesis by (auto simp: conn_step_def)
next
  case ReceiveOp
  with OnReceive_sizes [OF assms] show ?thesis by (auto simp: conn_step_def)
next
  case CloseOp
  with assms(1) show ?thesis by (simp add: conn_step_def OnClose_def conn_sizes_def same_format_def)
qed

lemma conn_run_sizes:
  assumes "conn_sizes c"
    and "\<forall>d. 0 < length d \<and> int (length d + unat (cn_headSize c)) \<le> sint (cn_MaxPacketSize c) \<longrightarrow>
      unmarshal d = unmarshal' d"
  shows "\<exists>c' rs. conn_run unmarshal c ops = Some (c', rs) \<and> conn_run unmarshal' c ops = Some (c', rs)
    \<and> conn_sizes c' \<and> same_format c c'"
  using assms
proof (induction ops arbitrary: c)
  case (Cons op ops)
  from conn_step_sizes [OF Cons.prems, of op] obtain c1 r where c1: "conn_step unmarshal c op = Some (c1, r)"
    "conn_step unmarshal' c op = Some (c1, r)" "conn_sizes c1" "same_format c c1" by blast
  have "\<forall>d. 0 < length d \<and> int (length d + unat (cn_headSize c1)) \<le> sint (cn_MaxPacketSize c1) \<longrightarrow>
      unmarshal d = unmarshal' d"
    using Cons.prems(2) c1(4) by (simp add: same_format_def)
  from Cons.IH [OF c1(3) this] c1 same_format_trans show ?case by fastforce
qed simp

text \<open>
  C38. Whatever bytes arrive, and in whatever order the goroutines of a session send, receive and close, a
  connection that \<open>OnInit\<close> has set up, with a head of two bytes or of four and more, never panics: the sizes of
  its buffers stay those of \<open>OnInit\<close>, and only payloads that fit the packet size are handed to the
  processor (how it would decode others makes no difference).
\<close>

theorem OnReceive_safe:
  assumes "0 \<le> sint (opt_MaxPacketSize opts)" and "opt_NetHeadSize opts = 2 \<or> 4 \<le> opt_NetHeadSize opts"
    and "\<forall>d. 0 < length d \<and> int (length d + unat (opt_NetHeadSize opts)) \<le> sint (opt_MaxPacketSize opts) \<longrightarrow>
      unmarshal d = unmarshal' d"
  shows "\<exists>c0 c rs. OnInit opts input fin fails = Some c0
    \<and> conn_run unmarshal c0 ops = Some (c, rs) \<and> conn_run unmarshal' c0 ops = Some (c, rs)
    \<and> conn_sizes c \<and> same_format c0 c"
proof -
  obtain c0 where c0: "OnInit opts input fin fails = Some c0" "conn_sizes c0" "cn_headSize c0 = opt_NetHeadSize opts"
    "cn_MaxPacketSize c0 = opt_MaxPacketSize opts"
    by (rule OnInit_sizes [OF assms(1,2)])
  from conn_run_sizes [OF c0(2), of unmarshal unmarshal' ops] assms(3) c0 show ?thesis by auto
qed

theorem OnReceive_safe_witness:
  "\<exists>c0 c rs. OnInit (default_options\<lparr>opt_NetHeadSize := 6\<rparr>) (replicate 6 (CHR 0xFF)) ''EOF'' False = Some c0
    \<and> conn_run (\<lambda>d. Inr (text_msg d)) c0 [ReceiveOp, SendOp ''ab'', ReceiveOp, CloseOp, ReceiveOp] = Some (c, rs)
    \<and> conn_sizes c"
proof -
  let ?o = "default_options\<lparr>opt_NetHeadSize := 6\<rparr>"
  have "0 \<le> sint (opt_MaxPacketSize ?o)" "opt_NetHeadSize ?o = 2 \<or> 4 \<le> opt_NetHeadSize ?o"
    by (simp_all add: default_options_def)
  from OnReceive_safe [OF this, of "\<lambda>d. Inr (text_msg d)" "\<lambda>d. Inr (text_msg d)"] show ?thesis by blast
qed

text \<open>
  A head of another size makes \<open>OnReceive\<close> panic as soon as a full head has arrived: the length is
  then read as four bytes from the shorter head.
\<close>

theorem short_head_panics:
  assumes "unat (cn_headSize c) < 4" and "cn_headSize c \<noteq> 2" and "length (cn_hCache c) = unat (cn_headSize c)"
    and "\<not> cn_isClose c" and "unat (cn_headSize c) \<le> length (cn_input c)"
  shows "OnReceive unmarshal c = None"
  using assms by (simp add: OnReceive_def ReadFull_def Let_def GetUint_def len_width_def)

theorem short_head_panics_witness:
  "OnReceive (\<lambda>d. Inr (text_msg d)) (example_conn 3 [CHR 0x00, CHR 0x00, CHR 0x01, CHR ''x'']) = None"
  by (rule short_head_panics) (simp_all add: example_conn_def zeros_def)

text \<open>
  With a packet size above 64 KiB and a head of two bytes, \<open>OnSend\<close> accepts a payload of 65536
  bytes without an error and writes the length 0: the receiver reports a size error.
\<close>

theorem long_payload_wraps_length:
  assumes "conn_ok c" and "cn_headSize c = 2" and "\<not> cn_isClose c" and "\<not> cn_write_fails c"
    and "length d = 65536" and "65538 \<le> sint (cn_MaxPacketSize c)"
  shows "\<exists>c'. OnSend c d = Some (c', None) \<and> cn_written c' = cn_written c @ [CHR 0x00, CHR 0x00] @ d
    \<and> (\<forall>b rest. conn_ok b \<and> same_format c b \<and> \<not> cn_isClose b \<and> cn_input b = [CHR 0x00, CHR 0x00] @ rest \<longrightarrow>
         (\<exists>b'. OnReceive unmarshal b = Some (b', Inl (SizeErr 0))))"
proof -
  have zero: "order_bytes big 2 0 = [CHR 0x00, CHR 0x00]" for big
    by (simp add: order_bytes_def be_bytes_def numeral_2_eq_2 char_of_def)
  have len: "length (cn_cache c) \<ge> 65538" using assms(1,6) by (simp add: conn_ok_def)
  have put: "PutUint (cn_bigEndian c) 2 (cn_cache c) 0 = Some ([CHR 0x00, CHR 0x00] @ drop 2 (cn_cache c))"
    using len by (simp add: PutUint_def zero)
  have packet: "take 65538 (overwrite 2 d ([CHR 0x00, CHR 0x00] @ drop 2 (cn_cache c))) = [CHR 0x00, CHR 0x00] @ d"
    using len assms(5) by (simp add: overwrite_def)
  have "\<exists>c'. OnSend c d = Some (c', None) \<and> cn_written c' = cn_written c @ [CHR 0x00, CHR 0x00] @ d"
    using assms put packet by (simp add: OnSend_def Let_def len_width_def not_less)
  moreover have "\<exists>b'. OnReceive unmarshal b = Some (b', Inl (SizeErr 0))"
    if "conn_ok b" "same_format c b" "\<not> cn_isClose b" "cn_input b = [CHR 0x00, CHR 0x00] @ rest" for b rest
  proof -
    have "cn_headSize b = 2" using that(2) assms(2) by (simp add: same_format_def)
    moreover have "length (cn_hCache b) = 2" using that(1) \<open>cn_headSize b = 2\<close> by (simp add: conn_ok_def)
    moreover have "GetUint (cn_bigEndian b) 2 [CHR 0x00, CHR 0x00] = Some 0"
      using GetUint_bytes [of 0 2 "cn_bigEndian b" "[]"] by (simp add: zero)
    ultimately show ?thesis
      using that(3,4) by (simp add: OnReceive_def ReadFull_def Let_def len_width_def)
  qed
  ultimately show ?thesis by blast
qed

theorem long_payload_wraps_length_witness:
  "\<exists>c c'. OnSend c (replicate 65536 (CHR ''x'')) = Some (c', None)
    \<and> cn_written c' = [CHR 0x00, CHR 0x00] @ replicate 65536 (CHR ''x'')"
proof -
  let ?c = "(example_conn 2 [])\<lparr>cn_MaxPacketSize := 131072, cn_cache := zeros 131072, cn_dCache := zeros 131072\<rparr>"
  have "conn_ok ?c" "cn_headSize ?c = 2" "\<not> cn_isClose ?c" "\<not> cn_write_fails ?c" "cn_written ?c = []"
    "65538 \<le> sint (cn_MaxPacketSize ?c)"
    by (simp_all add: conn_ok_def example_conn_def zeros_def)
  moreover have written: "cn_written ?c = []" by (simp add: example_conn_def)
  moreover have "length (replicate 65536 (CHR ''x'')) = 65536" by (rule length_replicate)
  ultimately obtain c' where c': "OnSend ?c (replicate 65536 (CHR ''x'')) = Some (c', None)"
    "cn_written c' = cn_written ?c @ [CHR 0x00, CHR 0x00] @ replicate 65536 (CHR ''x'')"
    using long_payload_wraps_length [of ?c "replicate 65536 (CHR ''x'')"] by blast
  have "cn_written c' = [CHR 0x00, CHR 0x00] @ replicate 65536 (CHR ''x'')"
    using c'(2) unfolding written append_Nil .
  with c'(1) show ?thesis by blast
qed

section \<open>WebSocket deadlines\<close>

datatype ws_op = WsSend string | WsReceive ws_read | WsClose

fun ws_run :: "(string \<Rightarrow> string + Msg) \<Rightarrow> i64 \<Rightarrow> WsConnect \<Rightarrow> ws_op list \<Rightarrow> WsConnect" where
  "ws_run unmarshal maxSize c [] = c"
| "ws_run unmarshal maxSize c (WsSend d # ops) = ws_run unmarshal maxSize (fst (ws_OnSend c d)) ops"
| "ws_run unmarshal maxSize c (WsReceive r # ops) =
     ws_run unmarshal maxSize (fst (ws_OnReceive unmarshal maxSize c r)) ops"
| "ws_run unmarshal maxSize c (WsClose # ops) = ws_run unmarshal maxSize (ws_OnClose c) ops"

text \<open>
  A websocket connection never gets a read deadline: receiving sets the write deadline to the
  configured read deadline instead, so that a silent client is not timed out by the connection.
\<close>

theorem ws_read_deadline_never_set:
  "ws_rdl (ws_run unmarshal maxSize (fst (ws_OnInit opts addr)) ops) = None"
proof -
  have "ws_rdl (ws_run unmarshal maxSize c ops) = ws_rdl c" for c
    by (induction c ops rule: ws_run.induct [of _ unmarshal maxSize])
      (simp_all add: ws_OnSend_def ws_OnReceive_def ws_OnClose_def Let_def)
  then show ?thesis by (simp add: ws_OnInit_def Let_def split: option.splits)
qed

end
