(* ===== verification/Session.thy ===== *)
theory Session
  imports Options Common Strings Assoc Runs
begin

text \<open>
  The sessions of the gate, \<open>gate/session/session.go\<close>, their manager, \<open>session_mgr.go\<close>, and the
  callback loop of \<open>gate/server/server.go\<close>. Sessions are objects shared by the manager and by
  their goroutines: references into a store. An operation is one atomic step (for the operations of the manager that
  overlap see \<open>ManagerRace\<close>); \<open>None\<close> means that it cannot complete, because it sends to a full channel, or that
  it panics.
\<close>

section \<open>State\<close>

type_synonym sref = nat

text \<open>
  A session. \<open>ss_conn\<close> is nil or the closed flag of the connection, \<open>ss_sent\<close> what was handed to
  it. The channels are their buffers; \<open>ss_chans_closed\<close> is set when \<open>run\<close> returns and closes all
  three, \<open>ss_ctl_closed\<close> when \<open>OnStop\<close> closes both control channels, \<open>ss_once\<close> when \<open>stopOnce\<close> has run.
\<close>

record Session =
  ss_userId :: u64
  ss_conn :: "bool option"
  ss_sent :: "string list"
  ss_out :: "string list"
  ss_in :: "Msg list"
  ss_call :: "Msg list"
  ss_chans_closed :: bool
  ss_ctl_closed :: bool
  ss_rpmLimit :: u32
  ss_LastHeartBeatTime :: i64
  ss_PacketCount :: u32
  ss_PacketCount1Min :: i64
  ss_vrifyed :: bool
  ss_once :: bool
  ss_broMsgs :: "(u32 \<times> bool) list"

text \<open>
  The gate: its options, the store, the fields of the session manager (\<open>w_mgr\<close> is the \<open>sync.Map\<close>
  from user id to session), and the messages handed to \<open>CallNR\<close> of the RPC client.
\<close>

record World =
  w_opts :: Options
  w_sessions :: "sref \<rightharpoonup> Session"
  w_mgr :: "(u64 \<times> sref) list"
  w_count :: i32
  w_addMap :: "(u64 \<times> i64) list"
  w_addChan :: "sref list"
  w_calls :: "Msg list"

text \<open>
  What the gate asks of the outside: the verification function, the processor's \<open>Marshal\<close>, the
  dispatcher's \<open>CheckRoute\<close>, whether a write to the connection succeeds, and the clock in seconds
  and in milliseconds.
\<close>

record Gate =
  g_verify :: "Msg \<Rightarrow> bool"
  g_marshal :: "Msg \<Rightarrow> string option"
  g_check_route :: "u64 \<Rightarrow> bool"
  g_send_ok :: "string \<Rightarrow> bool"
  g_now :: i64
  g_now_ms :: i64

datatype session_error = MarshalErr | UidNil | BroadcastIdNil | StatusNil | ParseErr | ConnSendErr | RunErr | ErrClose

abbreviation session_upd :: "World \<Rightarrow> sref \<Rightarrow> Session \<Rightarrow> World" where
  "session_upd w r s \<equiv> w\<lparr>w_sessions := (w_sessions w)(r \<mapsto> s)\<rparr>"

section \<open>Sessions\<close>

definition NewSession :: "Gate \<Rightarrow> Options \<Rightarrow> Session" where
  "NewSession g opts = \<lparr>ss_userId = 0, ss_conn = None, ss_sent = [], ss_out = [], ss_in = [], ss_call = [],
     ss_chans_closed = False, ss_ctl_closed = False, ss_rpmLimit = opt_RpmLimit opts,
     ss_LastHeartBeatTime = g_now g, ss_PacketCount = 0, ss_PacketCount1Min = 0, ss_vrifyed = False,
     ss_once = False, ss_broMsgs = [(Msg_BroatCast_Rst, True)]\<rparr>"

definition OnStart :: "World \<Rightarrow> sref \<Rightarrow> World option" where
  "OnStart w r = do { s \<leftarrow> w_sessions w r; Some (session_upd w r (s\<lparr>ss_conn := Some False\<rparr>)) }"

definition conn_down :: "Session \<Rightarrow> bool" where
  "conn_down s = (ss_conn s \<noteq> Some False)"

text \<open>\<open>DelSession\<close> of the manager, which \<open>OnStop\<close> calls.\<close>

definition GetSession :: "World \<Rightarrow> u64 \<Rightarrow> sref option" where
  "GetSession w uid = map_of (w_mgr w) uid"

definition DelSession :: "World \<Rightarrow> u64 \<Rightarrow> World" where
  "DelSession w uid =
     (if uid = 0 then w
      else if GetSession w uid \<noteq> None
      then w\<lparr>w_mgr := AList.delete uid (w_mgr w), w_count := w_count w - 1\<rparr>
      else w)"

definition sign :: "Session \<Rightarrow> u32 \<Rightarrow> Msg" where
  "sign s mid = \<lparr>Seq = 0, ID = mid, Body = [], MsgKey = ss_userId s, UID = ss_userId s\<rparr>"

definition CallKick :: "World \<Rightarrow> Session \<Rightarrow> World" where
  "CallKick w s = (if ss_userId s \<noteq> 0 then w\<lparr>w_calls := w_calls w @ [sign s Msg_Kick]\<rparr> else w)"

definition OnStop :: "World \<Rightarrow> sref \<Rightarrow> World option" where
  "OnStop w r = do {
     s \<leftarrow> w_sessions w r;
     if ss_once s then Some w
     else do {
       let w1 = (if ss_vrifyed s then CallKick (DelSession w (ss_userId s)) s else w);
       Some (session_upd w1 r (s\<lparr>ss_once := True, ss_vrifyed := False, ss_ctl_closed := True,
         ss_conn := map_option (\<lambda>_. True) (ss_conn s)\<rparr>))
     }
   }"

text \<open>A send to \<open>out\<close>: blocks when the buffer is full; on a closed channel it panics, which \<open>SendMsg\<close> recovers from.\<close>

definition SendMsg :: "Gate \<Rightarrow> World \<Rightarrow> sref \<Rightarrow> Msg \<Rightarrow> (World \<times> session_error option) option" where
  "SendMsg g w r msg = do {
     s \<leftarrow> w_sessions w r;
     if \<not> ss_vrifyed s then Some (w, None)
     else if conn_down s then Some (w, None)
     else (case g_marshal g (msg\<lparr>UID := ss_userId s\<rparr>) of
             None \<Rightarrow> Some (w, Some MarshalErr)
           | Some data \<Rightarrow>
               if ss_chans_closed s then Some (w, None)
               else if length (ss_out s) < unat (opt_MaxMsgChanLen (w_opts w))
               then Some (session_upd w r (s\<lparr>ss_out := ss_out s @ [data]\<rparr>), None)
               else None)
   }"

definition SendSign :: "Gate \<Rightarrow> World \<Rightarrow> sref \<Rightarrow> u32 \<Rightarrow> (World \<times> session_error option) option" where
  "SendSign g w r mid = do { s \<leftarrow> w_sessions w r; SendMsg g w r (sign s mid) }"

definition Kick :: "Gate \<Rightarrow> World \<Rightarrow> sref \<Rightarrow> (World \<times> session_error option) option" where
  "Kick g w r = do {
     s \<leftarrow> w_sessions w r;
     if ss_userId s \<noteq> 0
     then (case g_marshal g (sign s Msg_Kick_Rst) of
             None \<Rightarrow> Some (w, Some MarshalErr)
           | Some data \<Rightarrow>
               if \<not> conn_down s
               then Some (session_upd w r (s\<lparr>ss_sent := ss_sent s @ [data]\<rparr>),
                      if g_send_ok g data then None else Some ConnSendErr)
               else Some (w, None))
     else Some (w, None)
   }"

text \<open>
  \<open>setBroCastStatus\<close>; a message body that is absent is the empty list, which \<open>ParseUint\<close> rejects
  as well: both are errors.
\<close>

definition setBroCastStatus :: "Session \<Rightarrow> Msg \<Rightarrow> Session \<times> session_error option" where
  "setBroCastStatus s msg =
     (if Body msg = [] then (s, Some StatusNil)
      else (case ParseUint 32 (Body msg) of
              None \<Rightarrow> (s, Some ParseErr)
            | Some num \<Rightarrow> (s\<lparr>ss_broMsgs := AList.update (of_nat num) (ID msg = Msg_RegBroatCast) (ss_broMsgs s)\<rparr>, None)))"

definition SetHeartBeatTime :: "Gate \<Rightarrow> Session \<Rightarrow> Session" where
  "SetHeartBeatTime g s = s\<lparr>ss_LastHeartBeatTime := g_now g\<rparr>"

text \<open>\<open>AddSession\<close> queues the session for the manager's goroutine; the channel holds 9216.\<close>

definition AddSession :: "World \<Rightarrow> sref \<Rightarrow> (World \<times> bool) option" where
  "AddSession w r = do {
     s \<leftarrow> w_sessions w r;
     if ss_userId s = 0 then Some (w, False)
     else if length (w_addChan w) < 9216 then Some (w\<lparr>w_addChan := w_addChan w @ [r]\<rparr>, True)
     else None
   }"

definition msgIn :: "Gate \<Rightarrow> World \<Rightarrow> sref \<Rightarrow> Msg \<Rightarrow> (World \<times> session_error option) option" where
  "msgIn g w r msg = do {
     s \<leftarrow> w_sessions w r;
     if ID msg = Msg_Verify then
       (if UID msg = 0 then Some (w, Some UidNil)
        else if g_verify g msg then do {
          (w1, _) \<leftarrow> AddSession (session_upd w r (s\<lparr>ss_userId := UID msg, ss_vrifyed := True\<rparr>)) r;
          Some (w1, None)
        }
        else do {
          (w1, _) \<leftarrow> SendMsg g (session_upd w r (s\<lparr>ss_vrifyed := False\<rparr>)) r (msg\<lparr>ID := Msg_Verify_Rst_Fail\<rparr>);
          Some (w1, None)
        })
     else if ID msg = Msg_Heartbeat then
       (if ss_vrifyed s then do {
          let w1 = session_upd w r (SetHeartBeatTime g s);
          if opt_HBBack (w_opts w) then do { (w2, _) \<leftarrow> SendSign g w1 r Msg_Heartbeat_Rst; Some (w2, None) }
          else Some (w1, None)
        }
        else Some (w, None))
     else if ID msg = Msg_RegBroatCast \<or> ID msg = Msg_DisregBroatCast then
       (if ss_vrifyed s then Some (session_upd w r (fst (setBroCastStatus s msg)), None) else Some (w, None))
     else
       (if ss_vrifyed s
        then Some ((session_upd w r (SetHeartBeatTime g s))\<lparr>w_calls := w_calls w @ [msg]\<rparr>, None)
        else Some (w, None))
   }"

definition timer_work :: "Session \<Rightarrow> Session \<times> bool" where
  "timer_work s = (s\<lparr>ss_PacketCount1Min := 0\<rparr>, \<not> sint (ss_PacketCount1Min s) > int (unat (ss_rpmLimit s)))"

definition Broadcast :: "Gate \<Rightarrow> World \<Rightarrow> sref \<Rightarrow> Msg \<Rightarrow> (World \<times> session_error option) option" where
  "Broadcast g w r msg = do {
     s \<leftarrow> w_sessions w r;
     if ID msg = 0 then Some (w, Some BroadcastIdNil)
     else if ID msg = Msg_ReRoute then
       (if \<not> g_check_route g (ss_userId s) then do {
          (w1, err) \<leftarrow> SendSign g w r Msg_Kick_Rst;
          if err \<noteq> None then Some (w1, err)
          else do { w2 \<leftarrow> OnStop w1 r; Some (w2, None) }
        }
        else Some (w, None))
     else if map_of (ss_broMsgs s) (ID msg) = Some True then SendMsg g w r msg
     else Some (w, None)
   }"

definition RpcMsg :: "Gate \<Rightarrow> World \<Rightarrow> sref \<Rightarrow> Msg \<Rightarrow> (World \<times> session_error option) option" where
  "RpcMsg g w r msg = do {
     s \<leftarrow> w_sessions w r;
     if ID msg = Msg_RegBroatCast \<or> ID msg = Msg_DisregBroatCast
     then (let (s1, err) = setBroCastStatus s msg in Some (session_upd w r s1, err))
     else SendMsg g w r msg
   }"

section \<open>The goroutines of a session\<close>

text \<open>
  One turn of the loop of \<open>run\<close>, by the case that the \<open>select\<close> takes; when \<open>run\<close> returns, it
  closes the three channels.
\<close>

datatype run_case = TickHeartBeat | TickRpm | TakeIn | TakeOut | TakeCall | TakeSendCtl

definition run_return :: "World \<Rightarrow> sref \<Rightarrow> World option" where
  "run_return w r = do { s \<leftarrow> w_sessions w r; Some (session_upd w r (s\<lparr>ss_chans_closed := True\<rparr>)) }"

definition run_turn :: "Gate \<Rightarrow> World \<Rightarrow> sref \<Rightarrow> run_case \<Rightarrow> World option" where
  "run_turn g w r c = do {
     s \<leftarrow> w_sessions w r;
     if ss_chans_closed s then None
     else (case c of
       TickHeartBeat \<Rightarrow>
         if sint (g_now g - ss_LastHeartBeatTime s) > sint (opt_HeartBeatInterval (w_opts w))
         then do { w1 \<leftarrow> OnStop w r; run_return w1 r } else Some w
     | TickRpm \<Rightarrow>
         (let (s1, ok) = timer_work s; w1 = session_upd w r s1
          in if ok then Some w1 else do { w2 \<leftarrow> OnStop w1 r; run_return w2 r })
     | TakeIn \<Rightarrow> (case ss_in s of
           [] \<Rightarrow> None
         | msg # rest \<Rightarrow> do {
             (w1, _) \<leftarrow> msgIn g (session_upd w r (s\<lparr>ss_in := rest, ss_PacketCount := ss_PacketCount s + 1,
               ss_PacketCount1Min := ss_PacketCount1Min s + 1\<rparr>)) r msg;
             Some w1
           })
     | TakeOut \<Rightarrow> (case ss_out s of
           [] \<Rightarrow> None
         | data # rest \<Rightarrow>
             let w1 = session_upd w r (s\<lparr>ss_out := rest\<rparr>)
             in if conn_down s then do { w2 \<leftarrow> OnStop w1 r; run_return w2 r }
                else Some (session_upd w r (s\<lparr>ss_out := rest, ss_sent := ss_sent s @ [data]\<rparr>)))
     | TakeCall \<Rightarrow> (case ss_call s of
           [] \<Rightarrow> None
         | msg # rest \<Rightarrow> Some ((session_upd w r (s\<lparr>ss_call := rest\<rparr>))\<lparr>w_calls := w_calls w @ [msg]\<rparr>))
     | TakeSendCtl \<Rightarrow> if ss_ctl_closed s then run_return w r else None)
   }"

text \<open>\<open>run\<close> gives up at once when the heartbeat interval is not positive.\<close>

definition run_start :: "World \<Rightarrow> sref \<Rightarrow> World option" where
  "run_start w r = (if sint (opt_HeartBeatInterval (w_opts w)) \<le> 0 then run_return w r else Some w)"

text \<open>
  One turn of \<open>receive\<close>, with what \<open>OnReceive\<close> of the connection answered: an error, no message,
  or a message, which is queued for \<open>run\<close> (a send to the closed queue ends the goroutine).
\<close>

datatype received = RecvErr | RecvNone | RecvMsg Msg

definition receive_turn :: "World \<Rightarrow> sref \<Rightarrow> received \<Rightarrow> World option" where
  "receive_turn w r answer = do {
     s \<leftarrow> w_sessions w r;
     if ss_ctl_closed s then Some w
     else (case answer of
       RecvErr \<Rightarrow> OnStop w r
     | RecvNone \<Rightarrow> Some w
     | RecvMsg msg \<Rightarrow>
         if ss_chans_closed s then Some w
         else if length (ss_in s) < unat (opt_MaxMsgChanLen (w_opts w))
         then Some (session_upd w r (s\<lparr>ss_in := ss_in s @ [msg]\<rparr>))
         else None)
   }"

definition Call :: "World \<Rightarrow> sref \<Rightarrow> Msg \<Rightarrow> World option" where
  "Call w r msg = do {
     s \<leftarrow> w_sessions w r;
     if ss_chans_closed s then None
     else if length (ss_call s) < unat (opt_MaxMsgChanLen (w_opts w))
     then Some (session_upd w r (s\<lparr>ss_call := ss_call s @ [msg]\<rparr>))
     else None
   }"

text \<open>\<open>SendByte\<close> queues data as it is, whatever the state of the session, and recovers from nothing.\<close>

definition SendByte :: "World \<Rightarrow> sref \<Rightarrow> string \<Rightarrow> World option" where
  "SendByte w r data = do {
     s \<leftarrow> w_sessions w r;
     if ss_chans_closed s then None
     else if length (ss_out s) < unat (opt_MaxMsgChanLen (w_opts w))
     then Some (session_upd w r (s\<lparr>ss_out := ss_out s @ [data]\<rparr>))
     else None
   }"

section \<open>The manager\<close>

definition mgr_add :: "Gate \<Rightarrow> World \<Rightarrow> sref \<Rightarrow> (World \<times> bool) option" where
  "mgr_add g w r = do {
     s \<leftarrow> w_sessions w r;
     let uid = ss_userId s;
     let lastTime = (case map_of (w_addMap w) uid of None \<Rightarrow> 0 | Some t \<Rightarrow> t);
     if lastTime \<noteq> 0 \<and> sint (g_now_ms g - lastTime) < 3000
     then do { w1 \<leftarrow> OnStop w r; Some (w1, False) }
     else do {
       w1 \<leftarrow> (case GetSession w uid of
               Some old \<Rightarrow> OnStop (w\<lparr>w_mgr := AList.delete uid (w_mgr w)\<rparr>) old
             | None \<Rightarrow> Some (w\<lparr>w_count := w_count w + 1\<rparr>));
       (w2, _) \<leftarrow> SendSign g w1 r Msg_Verify_Rst_Suc;
       s2 \<leftarrow> w_sessions w2 r;
       let loaded = (GetSession w2 (ss_userId s2) \<noteq> None);
       let w3 = (if loaded then w2 else w2\<lparr>w_mgr := AList.update (ss_userId s2) r (w_mgr w2)\<rparr>);
       Some (w3\<lparr>w_addMap := AList.update (ss_userId s2) (g_now_ms g) (w_addMap w3)\<rparr>, \<not> loaded)
     }
   }"

text \<open>A turn of the manager's goroutine takes the first session from the channel.\<close>

definition mgr_turn :: "Gate \<Rightarrow> World \<Rightarrow> World option" where
  "mgr_turn g w = (case w_addChan w of
     [] \<Rightarrow> None
   | r # rest \<Rightarrow> do { (w1, _) \<leftarrow> mgr_add g (w\<lparr>w_addChan := rest\<rparr>) r; Some w1 })"

definition StopSession :: "World \<Rightarrow> u64 \<Rightarrow> World option" where
  "StopSession w uid =
     (if uid = 0 then Some w
      else (case GetSession w uid of None \<Rightarrow> Some w | Some r \<Rightarrow> OnStop w r))"

text \<open>\<open>Range\<close> visits the entries; the function deletes the entry it is called on.\<close>

fun stop_loop :: "World \<Rightarrow> (u64 \<times> sref) list \<Rightarrow> World option" where
  "stop_loop w [] = Some w"
| "stop_loop w ((key, r) # es) = do {
     w1 \<leftarrow> OnStop w r;
     stop_loop (w1\<lparr>w_count := w_count w1 - 1, w_mgr := AList.delete key (w_mgr w1)\<rparr>) es
   }"

definition StopAllSession :: "World \<Rightarrow> World option" where
  "StopAllSession w = stop_loop w (w_mgr w)"

definition Count :: "World \<Rightarrow> i32" where
  "Count w = w_count w"

fun broadcast_loop :: "Gate \<Rightarrow> World \<Rightarrow> (u64 \<times> sref) list \<Rightarrow> Msg \<Rightarrow> World option" where
  "broadcast_loop g w [] msg = Some w"
| "broadcast_loop g w ((key, r) # es) msg = do { (w1, _) \<leftarrow> Broadcast g w r msg; broadcast_loop g w1 es msg }"

definition BroatCast :: "Gate \<Rightarrow> World \<Rightarrow> Msg \<Rightarrow> World option" where
  "BroatCast g w msg = broadcast_loop g w (w_mgr w) msg"

definition Receive :: "Gate \<Rightarrow> World \<Rightarrow> Msg \<Rightarrow> (World \<times> session_error option) option" where
  "Receive g w msg = (case GetSession w (UID msg) of None \<Rightarrow> Some (w, None) | Some r \<Rightarrow> RpcMsg g w r msg)"

section \<open>The gate server\<close>

definition callBack_turn :: "Gate \<Rightarrow> World \<Rightarrow> Msg \<Rightarrow> World option" where
  "callBack_turn g w msg =
     (if ID msg = Msg_BroatCast_Rst then BroatCast g w msg
      else (case GetSession w (UID msg) of
              None \<Rightarrow> Some w
            | Some r \<Rightarrow> map_option fst (SendMsg g w r msg)))"

text \<open>\<open>Server.Count\<close> converts to \<open>uint32\<close>.\<close>

definition Server_Count :: "World \<Rightarrow> u32" where
  "Server_Count w = Count w"

text \<open>
  A new connection is accepted unless the counter exceeds \<open>MaxConn\<close>; the session gets a fresh
  reference.
\<close>

definition accept :: "Gate \<Rightarrow> World \<Rightarrow> sref \<Rightarrow> World option" where
  "accept g w r =
     (if sint (Count w) > sint (opt_MaxConn (w_opts w)) then Some w
      else if w_sessions w r \<noteq> None then None
      else OnStart (session_upd w r (NewSession g (w_opts w))) r)"


section \<open>Runs of the gate\<close>

text \<open>
  An event is one step of one goroutine, with what the outside answers to it. \<open>DropUid\<close> is the
  call of \<open>DelSession\<close> by the proxy of the application server, \<open>StopAll\<close> that of \<open>StopAllSession\<close> by
  \<open>Server.Stop\<close>.
\<close>

datatype gate_event =
    Accept sref
  | RunStart sref
  | RunTurn sref run_case
  | ReceiveTurn sref received
  | MgrTurn
  | StopUid u64
  | DropUid u64
  | CallBackMsg Msg
  | PublishedMsg Msg
  | BroadcastMsg Msg
  | StopAll

definition gate_step :: "Gate \<Rightarrow> World \<Rightarrow> gate_event \<Rightarrow> World option" where
  "gate_step g w e = (case e of
     Accept r \<Rightarrow> accept g w r
   | RunStart r \<Rightarrow> run_start w r
   | RunTurn r c \<Rightarrow> run_turn g w r c
   | ReceiveTurn r a \<Rightarrow> receive_turn w r a
   | MgrTurn \<Rightarrow> mgr_turn g w
   | StopUid uid \<Rightarrow> StopSession w uid
   | DropUid uid \<Rightarrow> Some (DelSession w uid)
   | CallBackMsg msg \<Rightarrow> callBack_turn g w msg
   | PublishedMsg msg \<Rightarrow> map_option fst (Receive g w msg)
   | BroadcastMsg msg \<Rightarrow> BroatCast g w msg
   | StopAll \<Rightarrow> StopAllSession w)"

fun gate_run :: "World \<Rightarrow> (Gate \<times> gate_event) list \<Rightarrow> World option" where
  "gate_run w [] = Some w"
| "gate_run w ((g, e) # es) = do { w1 \<leftarrow> gate_step g w e; gate_run w1 es }"

text \<open>
  The methods that sessions offer to other code, and that nothing in the gate itself calls: \<open>Call\<close>, \<open>SendByte\<close>
  and \<open>Kick\<close>, between the events of the gate.
\<close>

datatype api_event = Work gate_event | CallMsg sref Msg | SendData sref string | KickSession sref

definition api_step :: "Gate \<Rightarrow> World \<Rightarrow> api_event \<Rightarrow> World option" where
  "api_step g w e = (case e of
     Work ev \<Rightarrow> gate_step g w ev
   | CallMsg r msg \<Rightarrow> Call w r msg
   | SendData r data \<Rightarrow> SendByte w r data
   | KickSession r \<Rightarrow> map_option fst (Kick g w r))"

fun api_run :: "World \<Rightarrow> (Gate \<times> api_event) list \<Rightarrow> World option" where
  "api_run w [] = Some w"
| "api_run w ((g, e) # es) = do { w1 \<leftarrow> api_step g w e; api_run w1 es }"

definition empty_gate :: "Options \<Rightarrow> World" where
  "empty_gate opts = \<lparr>w_opts = opts, w_sessions = Map.empty, w_mgr = [], w_count = 0, w_addMap = [],
     w_addChan = [], w_calls = []\<rparr>"

section \<open>The invariant of the gate\<close>

text \<open>
  The queues of a session stay within the capacity of its channels. The counter of the manager
  exceeds the number of its entries by \<open>k\<close>: 0 between its operations, 1 more while \<open>add\<close> replaces an
  entry, and negative once \<open>StopAllSession\<close> has decremented it twice for its entries.
\<close>

definition within :: "Options \<Rightarrow> Session \<Rightarrow> bool" where
  "within opts s \<longleftrightarrow> length (ss_out s) \<le> unat (opt_MaxMsgChanLen opts)
     \<and> length (ss_in s) \<le> unat (opt_MaxMsgChanLen opts) \<and> length (ss_call s) \<le> unat (opt_MaxMsgChanLen opts)"

definition gate_ok :: "i32 \<Rightarrow> World \<Rightarrow> bool" where
  "gate_ok k w \<longleftrightarrow> w_count w = of_nat (length (w_mgr w)) + k \<and> distinct (map fst (w_mgr w))
     \<and> length (w_addChan w) \<le> 9216
     \<and> (\<forall>r s. w_sessions w r = Some s \<longrightarrow> within (w_opts w) s)
     \<and> (\<forall>e \<in> set (w_mgr w). w_sessions w (snd e) \<noteq> None)"

lemma gate_ok_addChan: "gate_ok k w \<Longrightarrow> length rs \<le> 9216 \<Longrightarrow> gate_ok k (w\<lparr>w_addChan := rs\<rparr>)"
  by (simp add: gate_ok_def)

lemma gate_ok_within: "gate_ok k w \<Longrightarrow> w_sessions w r = Some s \<Longrightarrow> within (w_opts w) s"
  by (simp add: gate_ok_def)

lemma gate_ok_upd: "gate_ok k w \<Longrightarrow> within (w_opts w) s \<Longrightarrow> gate_ok k (session_upd w r s)"
  by (auto simp: gate_ok_def)

lemma gate_ok_calls [simp]: "gate_ok k (w\<lparr>w_calls := cs\<rparr>) = gate_ok k w"
  by (simp add: gate_ok_def)

lemma gate_ok_CallKick [simp]: "gate_ok k (CallKick w s) = gate_ok k w"
  by (simp add: CallKick_def)

lemma CallKick_fields [simp]:
  "w_sessions (CallKick w s) = w_sessions w" "w_opts (CallKick w s) = w_opts w"
  "w_mgr (CallKick w s) = w_mgr w" "w_count (CallKick w s) = w_count w"
  "w_addMap (CallKick w s) = w_addMap w" "w_addChan (CallKick w s) = w_addChan w"
  by (simp_all add: CallKick_def)

lemma DelSession_fields [simp]:
  "w_sessions (DelSession w uid) = w_sessions w" "w_opts (DelSession w uid) = w_opts w"
  "w_calls (DelSession w uid) = w_calls w" "w_addChan (DelSession w uid) = w_addChan w"
  "w_addMap (DelSession w uid) = w_addMap w"
  by (simp_all add: DelSession_def)

lemma GetSession_delete: "GetSession (w\<lparr>w_mgr := AList.delete uid (w_mgr w)\<rparr>) uid = None"
  by (simp add: GetSession_def delete_conv')

lemma set_delete: "set (AList.delete k al) \<subseteq> set al"
  by (auto simp: AList.delete_eq)

lemma DelSession_ok:
  assumes "gate_ok k w"
  shows "gate_ok k (DelSession w uid)"
proof (cases "uid = 0 \<or> GetSession w uid = None")
  case False
  then obtain r where "map_of (w_mgr w) uid = Some r" by (auto simp: GetSession_def)
  with assms False show ?thesis
    using set_delete [of uid "w_mgr w"] of_nat_length_delete [of "w_mgr w" uid r, where 'a = 32]
    by (auto simp: gate_ok_def DelSession_def distinct_delete)
qed (use assms in \<open>auto simp: DelSession_def\<close>)

lemma OnStop_ok:
  assumes "gate_ok k w" and "OnStop w r = Some w'"
  shows "gate_ok k w'"
proof -
  from assms(2) obtain s where s: "w_sessions w r = Some s" by (auto simp: OnStop_def bind_eq_Some_conv)
  let ?s = "s\<lparr>ss_once := True, ss_vrifyed := False, ss_ctl_closed := True,
         ss_conn := map_option (\<lambda>_. True) (ss_conn s)\<rparr>"
  have "within (w_opts w) ?s" using gate_ok_within [OF assms(1) s] by (simp add: within_def)
  moreover have "gate_ok k (CallKick (DelSession w uid) s)" for uid
    using DelSession_ok [OF assms(1)] by simp
  ultimately show ?thesis
    using assms s gate_ok_upd [of k "CallKick (DelSession w (ss_userId s)) s" ?s r] gate_ok_upd [of k w ?s r]
    by (auto simp: OnStop_def Let_def split: if_splits)
qed

lemma run_return_ok: "gate_ok k w \<Longrightarrow> run_return w r = Some w' \<Longrightarrow> gate_ok k w'"
  by (auto simp: run_return_def within_def dest!: gate_ok_within intro!: gate_ok_upd split: bind_splits)

lemma stop_return_ok:
  "gate_ok k w \<Longrightarrow> do { w1 \<leftarrow> OnStop w r; run_return w1 r } = Some w' \<Longrightarrow> gate_ok k w'"
  by (auto dest: OnStop_ok run_return_ok split: bind_splits)

lemma SendMsg_ok:
  assumes "gate_ok k w" and "SendMsg g w r msg = Some (w', e)"
  shows "gate_ok k w'"
  using assms by (auto simp: SendMsg_def within_def dest: gate_ok_within intro!: gate_ok_upd
      split: bind_splits if_splits option.splits)

lemma SendSign_ok: "gate_ok k w \<Longrightarrow> SendSign g w r mid = Some (w', e) \<Longrightarrow> gate_ok k w'"
  by (auto simp: SendSign_def dest: SendMsg_ok split: bind_splits)

lemma setBroCastStatus_fields [simp]:
  "ss_out (fst (setBroCastStatus s msg)) = ss_out s" "ss_in (fst (setBroCastStatus s msg)) = ss_in s"
  "ss_call (fst (setBroCastStatus s msg)) = ss_call s" "ss_vrifyed (fst (setBroCastStatus s msg)) = ss_vrifyed s"
  "ss_sent (fst (setBroCastStatus s msg)) = ss_sent s"
  by (simp_all add: setBroCastStatus_def split: option.splits)

lemma AddSession_ok: "gate_ok k w \<Longrightarrow> AddSession w r = Some (w', b) \<Longrightarrow> gate_ok k w'"
  by (auto simp: AddSession_def bind_eq_Some_conv intro!: gate_ok_addChan split: if_splits)


lemma SetHeartBeatTime_fields [simp]:
  "ss_out (SetHeartBeatTime g s) = ss_out s" "ss_in (SetHeartBeatTime g s) = ss_in s"
  "ss_call (SetHeartBeatTime g s) = ss_call s" "ss_vrifyed (SetHeartBeatTime g s) = ss_vrifyed s"
  "ss_sent (SetHeartBeatTime g s) = ss_sent s" "ss_userId (SetHeartBeatTime g s) = ss_userId s"
  by (simp_all add: SetHeartBeatTime_def)

lemma msgIn_ok:
  assumes ok: "gate_ok k w" and msg: "msgIn g w r msg = Some (w', e)"
  shows "gate_ok k w'"
proof -
  from msg obtain s where s: "w_sessions w r = Some s" by (auto simp: msgIn_def bind_eq_Some_conv)
  have upd: "gate_ok k (session_upd w r s')" if "ss_out s' = ss_out s" "ss_in s' = ss_in s" "ss_call s' = ss_call s" for s'
    using gate_ok_within [OF ok s] that by (intro gate_ok_upd [OF ok]) (simp add: within_def)
  from msg s show ?thesis
    using upd [of "fst (setBroCastStatus s msg)"] upd [of "SetHeartBeatTime g s"] ok
      upd [of "s\<lparr>ss_userId := UID msg, ss_vrifyed := True\<rparr>"] upd [of "s\<lparr>ss_vrifyed := False\<rparr>"]
    by (auto simp: msgIn_def bind_eq_Some_conv Let_def
        dest: AddSession_ok SendMsg_ok SendSign_ok split: if_splits)
qed

lemma Broadcast_ok: "gate_ok k w \<Longrightarrow> Broadcast g w r msg = Some (w', e) \<Longrightarrow> gate_ok k w'"
  by (auto simp: Broadcast_def bind_eq_Some_conv dest: SendSign_ok OnStop_ok SendMsg_ok split: if_splits)

lemma RpcMsg_ok:
  assumes "gate_ok k w" and "RpcMsg g w r msg = Some (w', e)"
  shows "gate_ok k w'"
proof -
  from assms(2) obtain s where s: "w_sessions w r = Some s" by (auto simp: RpcMsg_def bind_eq_Some_conv)
  have "gate_ok k (session_upd w r (fst (setBroCastStatus s msg)))"
    using gate_ok_within [OF assms(1) s] by (intro gate_ok_upd [OF assms(1)]) (simp add: within_def)
  with assms s show ?thesis
    by (auto simp: RpcMsg_def dest: SendMsg_ok split: if_splits prod.splits)
qed

lemma timer_work_fields [simp]:
  "ss_out (fst (timer_work s)) = ss_out s" "ss_in (fst (timer_work s)) = ss_in s"
  "ss_call (fst (timer_work s)) = ss_call s" "ss_vrifyed (fst (timer_work s)) = ss_vrifyed s"
  "ss_sent (fst (timer_work s)) = ss_sent s"
  by (simp_all add: timer_work_def)

lemma run_turn_ok:
  assumes ok: "gate_ok k w" and turn: "run_turn g w r c = Some w'"
  shows "gate_ok k w'"
proof -
  from turn obtain s where s: "w_sessions w r = Some s" "\<not> ss_chans_closed s"
    by (auto simp: run_turn_def bind_eq_Some_conv split: if_splits)
  have upd: "gate_ok k (session_upd w r s')"
    if "length (ss_out s') \<le> length (ss_out s)" "length (ss_in s') \<le> length (ss_in s)"
      "length (ss_call s') \<le> length (ss_call s)" for s'
    using gate_ok_within [OF ok s(1)] that by (intro gate_ok_upd [OF ok]) (auto simp: within_def)
  have stop: "gate_ok k w2" if "gate_ok k w1" "OnStop w1 r = Some y" "run_return y r = Some w2" for w1 y w2
    using that by (auto dest: OnStop_ok run_return_ok)
  show ?thesis
  proof (cases c)
    case TickRpm
    then show ?thesis
      using turn s upd [of "fst (timer_work s)"]
      by (auto simp: run_turn_def bind_eq_Some_conv Let_def split: prod.splits if_splits intro: stop)
  next
    case TakeIn
    then obtain m ms w1 e where ms: "ss_in s = m # ms"
      and step: "msgIn g (session_upd w r (s\<lparr>ss_in := ms, ss_PacketCount := ss_PacketCount s + 1,
               ss_PacketCount1Min := ss_PacketCount1Min s + 1\<rparr>)) r m = Some (w1, e)" "w' = w1"
      using turn s by (auto simp: run_turn_def bind_eq_Some_conv split: list.splits)
    from upd msgIn_ok [OF _ step(1)] show ?thesis unfolding step(2) by (simp add: ms)
  next
    case TakeOut
    then show ?thesis
      using turn s upd stop [of "session_upd w r (s\<lparr>ss_out := tl (ss_out s)\<rparr>)"]
      by (auto simp: run_turn_def bind_eq_Some_conv Let_def split: list.splits if_splits)
  next
    case TakeCall
    then show ?thesis
      using turn s upd by (auto simp: run_turn_def split: list.splits)
  qed (use turn s ok in \<open>auto simp: run_turn_def bind_eq_Some_conv split: if_splits intro: stop run_return_ok\<close>)
qed

lemma receive_turn_ok:
  assumes "gate_ok k w" and "receive_turn w r a = Some w'"
  shows "gate_ok k w'"
  using assms by (auto simp: receive_turn_def bind_eq_Some_conv within_def dest: OnStop_ok gate_ok_within
      intro!: gate_ok_upd split: if_splits received.splits)


lemma userId_kept:
  "OnStop w r = Some w' \<Longrightarrow> map_option ss_userId (w_sessions w' r') = map_option ss_userId (w_sessions w r')"
  "SendMsg g w r msg = Some (w', e) \<Longrightarrow> map_option ss_userId (w_sessions w' r') = map_option ss_userId (w_sessions w r')"
  by (auto simp: OnStop_def SendMsg_def bind_eq_Some_conv Let_def split: if_splits option.splits)

lemma known_kept:
  "OnStop w r = Some w' \<Longrightarrow> w_sessions w r' \<noteq> None \<Longrightarrow> w_sessions w' r' \<noteq> None"
  by (auto simp: OnStop_def bind_eq_Some_conv Let_def split: if_splits)

lemma OnStop_mgr:
  "OnStop w r = Some w' \<Longrightarrow> GetSession w uid = None \<Longrightarrow> GetSession w' uid = None"
  by (auto simp: OnStop_def GetSession_def DelSession_def bind_eq_Some_conv Let_def delete_conv' split: if_splits)

lemma SendMsg_fields:
  assumes "SendMsg g w r msg = Some (w', e)"
  shows "w_mgr w' = w_mgr w" "w_count w' = w_count w" "w_addMap w' = w_addMap w" "w_addChan w' = w_addChan w"
    "w_calls w' = w_calls w" "w_opts w' = w_opts w"
  using assms by (auto simp: SendMsg_def bind_eq_Some_conv split: if_splits option.splits)


lemma update_absent: "map_of al k = None \<Longrightarrow> AList.update k v al = al @ [(k, v)]"
  by (induction al) (auto split: if_splits)

lemma store_ok:
  assumes "gate_ok (k + 1) w" and "GetSession w uid = None" and "w_sessions w r \<noteq> None"
  shows "gate_ok k (w\<lparr>w_mgr := AList.update uid r (w_mgr w)\<rparr>)"
proof -
  have "AList.update uid r (w_mgr w) = w_mgr w @ [(uid, r)]"
    using assms(2) by (simp add: GetSession_def update_absent)
  moreover have "uid \<notin> fst ` set (w_mgr w)"
    using assms(2) by (simp add: GetSession_def map_of_eq_None_iff)
  ultimately show ?thesis using assms by (auto simp: gate_ok_def)
qed

lemma take_out_ok:
  assumes "gate_ok k w" and "GetSession w uid = Some r"
  shows "gate_ok (k + 1) (w\<lparr>w_mgr := AList.delete uid (w_mgr w)\<rparr>)"
  using assms set_delete [of uid "w_mgr w"] of_nat_length_delete [of "w_mgr w" uid r, where 'a = 32]
  by (auto simp: gate_ok_def GetSession_def distinct_delete)

lemma gate_ok_addMap [simp]: "gate_ok k (w\<lparr>w_addMap := m\<rparr>) = gate_ok k w"
  by (simp add: gate_ok_def)

lemma mgr_add_ok:
  assumes ok: "gate_ok k w" and add: "mgr_add g w r = Some (w', b)"
  shows "gate_ok k w'"
proof -
  from add obtain s where s: "w_sessions w r = Some s" by (auto simp: mgr_add_def bind_eq_Some_conv)
  let ?uid = "ss_userId s"
  let ?last = "case map_of (w_addMap w) ?uid of None \<Rightarrow> 0 | Some t \<Rightarrow> t"
  show ?thesis
  proof (cases "?last \<noteq> 0 \<and> sint (g_now_ms g - ?last) < 3000")
    case True
    then show ?thesis
      using add s OnStop_ok [OF ok] by (auto simp: mgr_add_def bind_eq_Some_conv Let_def)
  next
    case False
    let ?w1 = "case GetSession w ?uid of
               Some old \<Rightarrow> OnStop (w\<lparr>w_mgr := AList.delete ?uid (w_mgr w)\<rparr>) old
             | None \<Rightarrow> Some (w\<lparr>w_count := w_count w + 1\<rparr>)"
    from add s False obtain w1 w2 e s2 where
      w1: "?w1 = Some w1" and w2: "SendSign g w1 r Msg_Verify_Rst_Suc = Some (w2, e)" and s2: "w_sessions w2 r = Some s2"
      and w': "w' = (let w3 = (if GetSession w2 (ss_userId s2) \<noteq> None then w2
            else w2\<lparr>w_mgr := AList.update (ss_userId s2) r (w_mgr w2)\<rparr>)
          in w3\<lparr>w_addMap := AList.update (ss_userId s2) (g_now_ms g) (w_addMap w3)\<rparr>)"
      unfolding mgr_add_def by (auto simp: bind_eq_Some_conv Let_def split: if_splits)
    have "gate_ok (k + 1) w1"
    proof (cases "GetSession w ?uid")
      case None
      with w1 have "w1 = w\<lparr>w_count := w_count w + 1\<rparr>" by simp
      with ok show ?thesis by (simp add: gate_ok_def)
    next
      case (Some old)
      with w1 OnStop_ok take_out_ok [OF ok Some] show ?thesis by simp
    qed
    with SendSign_ok w2 have ok2: "gate_ok (k + 1) w2" by blast
    have absent: "GetSession w1 ?uid = None"
      using w1 OnStop_mgr [OF _ GetSession_delete] by (auto simp: GetSession_def split: option.splits)
    moreover have "w_mgr w2 = w_mgr w1"
      using w2 SendMsg_fields by (auto simp: SendSign_def bind_eq_Some_conv)
    moreover have "ss_userId s2 = ?uid"
    proof -
      have "map_option ss_userId (w_sessions w1 r) = Some ?uid"
        using w1 s userId_kept(1) [of "w\<lparr>w_mgr := AList.delete ?uid (w_mgr w)\<rparr>" _ w1 r]
        by (auto split: option.splits)
      moreover have "map_option ss_userId (w_sessions w2 r) = map_option ss_userId (w_sessions w1 r)"
        using w2 userId_kept(2) by (auto simp: SendSign_def bind_eq_Some_conv)
      ultimately show ?thesis using s2 by auto
    qed
    ultimately have "GetSession w2 (ss_userId s2) = None" by (simp add: GetSession_def)
    with store_ok [OF ok2 this] s2 show ?thesis by (simp add: w' Let_def)
  qed
qed


lemma mgr_turn_ok:
  assumes "gate_ok k w" and "mgr_turn g w = Some w'"
  shows "gate_ok k w'"
proof -
  from assms(2) obtain r rs b where rs: "w_addChan w = r # rs" and add: "mgr_add g (w\<lparr>w_addChan := rs\<rparr>) r = Some (w', b)"
    by (auto simp: mgr_turn_def bind_eq_Some_conv split: list.splits)
  from assms(1) rs have "length rs \<le> 9216" by (simp add: gate_ok_def)
  from mgr_add_ok [OF gate_ok_addChan [OF assms(1) this] add] show ?thesis .
qed

lemma broadcast_loop_ok: "gate_ok k w \<Longrightarrow> broadcast_loop g w es msg = Some w' \<Longrightarrow> gate_ok k w'"
  by (induction g w es msg rule: broadcast_loop.induct) (auto simp: bind_eq_Some_conv dest: Broadcast_ok)

lemma accept_ok:
  assumes "gate_ok k w" and "accept g w r = Some w'"
  shows "gate_ok k w'"
  using assms by (auto simp: accept_def OnStart_def NewSession_def within_def bind_eq_Some_conv
      intro!: gate_ok_upd split: if_splits)

lemma stop_loop_ok:
  assumes "gate_ok k w" and "stop_loop w es = Some w'"
  shows "\<exists>k'. gate_ok k' w'"
  using assms
proof (induction w es arbitrary: k rule: stop_loop.induct)
  case (2 w key r es)
  then obtain w1 where w1: "OnStop w r = Some w1" by (auto simp: bind_eq_Some_conv)
  let ?w2 = "w1\<lparr>w_count := w_count w1 - 1, w_mgr := AList.delete key (w_mgr w1)\<rparr>"
  have "gate_ok k w1" using OnStop_ok [OF 2(2) w1] .
  then have "gate_ok (w_count w1 - 1 - of_nat (length (AList.delete key (w_mgr w1)))) ?w2"
    using set_delete [of key "w_mgr w1"] by (auto simp: gate_ok_def distinct_delete)
  with 2(1) [OF w1] 2(3) w1 show ?case by auto
qed auto

lemma gate_step_ok:
  assumes "gate_ok k w" and "gate_step g w e = Some w'" and "e \<noteq> StopAll"
  shows "gate_ok k w'"
proof (cases e)
  case (CallBackMsg msg)
  with assms show ?thesis
    by (auto simp: gate_step_def callBack_turn_def BroatCast_def dest: broadcast_loop_ok SendMsg_ok
        split: if_splits option.splits)
next
  case (PublishedMsg msg)
  with assms show ?thesis
    by (auto simp: gate_step_def Receive_def dest: RpcMsg_ok split: option.splits)
qed (use assms in \<open>auto simp: gate_step_def run_start_def StopSession_def BroatCast_def
      dest: accept_ok run_return_ok run_turn_ok receive_turn_ok mgr_turn_ok OnStop_ok broadcast_loop_ok
      intro: DelSession_ok split: if_splits option.splits\<close>)

lemma gate_step_some_ok:
  assumes "gate_ok k w" and "gate_step g w e = Some w'"
  shows "\<exists>k'. gate_ok k' w'"
  using assms gate_step_ok [OF assms] stop_loop_ok [OF assms(1)]
  by (cases "e = StopAll") (auto simp: gate_step_def StopAllSession_def)

lemma Call_ok: "gate_ok k w \<Longrightarrow> Call w r msg = Some w' \<Longrightarrow> gate_ok k w'"
  by (auto simp: Call_def within_def bind_eq_Some_conv dest: gate_ok_within intro!: gate_ok_upd split: if_splits)

lemma SendByte_ok: "gate_ok k w \<Longrightarrow> SendByte w r data = Some w' \<Longrightarrow> gate_ok k w'"
  by (auto simp: SendByte_def within_def bind_eq_Some_conv dest: gate_ok_within intro!: gate_ok_upd split: if_splits)

lemma Kick_ok: "gate_ok k w \<Longrightarrow> Kick g w r = Some (w', e) \<Longrightarrow> gate_ok k w'"
  by (auto simp: Kick_def within_def bind_eq_Some_conv dest: gate_ok_within intro!: gate_ok_upd
      split: if_splits option.splits)

lemma api_step_ok:
  assumes "gate_ok k w" and "api_step g w e = Some w'"
  shows "e \<noteq> Work StopAll \<Longrightarrow> gate_ok k w'" and "\<exists>k'. gate_ok k' w'"
  using assms gate_step_ok [OF assms(1)] gate_step_some_ok [OF assms(1)]
  by (cases e; auto simp: api_step_def intro: Call_ok SendByte_ok dest: Kick_ok)+

text \<open>
  Between shutdowns the counter keeps its distance to the number of entries; the rest of the invariant
  holds in any case.
\<close>

interpretation gate: run_invariant "\<lambda>w (g, e). gate_step g w e" gate_run "\<lambda>(g, e). e \<noteq> StopAll" "gate_ok k"
  by unfold_locales (auto dest: gate_step_ok)

interpretation any_gate: run_invariant "\<lambda>w (g, e). gate_step g w e" gate_run "\<lambda>_. True" "\<lambda>w. \<exists>k. gate_ok k w"
  by unfold_locales (auto dest: gate_step_some_ok)

interpretation api: run_invariant "\<lambda>w (g, e). api_step g w e" api_run "\<lambda>(g, e). e \<noteq> Work StopAll" "gate_ok k"
  by unfold_locales (auto dest: api_step_ok)

interpretation any_api: run_invariant "\<lambda>w (g, e). api_step g w e" api_run "\<lambda>_. True" "\<lambda>w. \<exists>k. gate_ok k w"
  by unfold_locales (auto dest: api_step_ok)

lemma gate_run_some_ok: "gate_ok k w \<Longrightarrow> gate_run w es = Some w' \<Longrightarrow> \<exists>k'. gate_ok k' w'"
  using any_gate.run_inv by blast

lemma gate_run_ok: "gate_ok k w \<Longrightarrow> gate_run w es = Some w' \<Longrightarrow> StopAll \<notin> snd ` set es \<Longrightarrow> gate_ok k w'"
  by (erule gate.run_inv) (auto simp: image_iff)

lemma empty_gate_ok: "gate_ok 0 (empty_gate opts)"
  by (simp add: gate_ok_def empty_gate_def)


section \<open>Stopping a session\<close>

definition stopped :: "Session \<Rightarrow> Session" where
  "stopped s = s\<lparr>ss_once := True, ss_vrifyed := False, ss_ctl_closed := True,
     ss_conn := map_option (\<lambda>_. True) (ss_conn s)\<rparr>"

lemma OnStop_eq:
  "w_sessions w r = Some s \<Longrightarrow> OnStop w r = Some (if ss_once s then w
     else session_upd (if ss_vrifyed s then CallKick (DelSession w (ss_userId s)) s else w) r (stopped s))"
  by (simp add: OnStop_def stopped_def Let_def)

lemma stopped_fields [simp]:
  "ss_once (stopped s)" "\<not> ss_vrifyed (stopped s)" "ss_ctl_closed (stopped s)" "conn_down (stopped s)"
  "ss_userId (stopped s) = ss_userId s" "ss_out (stopped s) = ss_out s" "ss_sent (stopped s) = ss_sent s"
  "ss_in (stopped s) = ss_in s" "ss_chans_closed (stopped s) = ss_chans_closed s"
  by (auto simp: stopped_def conn_down_def)

lemma SendMsg_unverified:
  "w_sessions w r = Some s \<Longrightarrow> \<not> ss_vrifyed s \<Longrightarrow> SendMsg g w r msg = Some (w, None)"
  by (simp add: SendMsg_def)

lemma SendSign_unverified:
  "w_sessions w r = Some s \<Longrightarrow> \<not> ss_vrifyed s \<Longrightarrow> SendSign g w r mid = Some (w, None)"
  by (simp add: SendSign_def SendMsg_unverified)

end
