(* ===== verification/SessionSpec.thy ===== *)
theory SessionSpec
  imports Session
begin

text \<open>
  Properties of the gate's sessions and their manager: the counter and the queues over all runs,
  what a client that is never verified can reach, and what logins, timeouts and the shutdown do.
\<close>

section \<open>An example gate\<close>

definition open_gate :: "i64 \<Rightarrow> Gate" where
  "open_gate t = \<lparr>g_verify = (\<lambda>_. True), g_marshal = (\<lambda>m. Some (FormatUint (unat (ID m)))),
     g_check_route = (\<lambda>_. True), g_send_ok = (\<lambda>_. True), g_now = t, g_now_ms = t * 1000\<rparr>"

definition login_msg :: "u64 \<Rightarrow> Msg" where
  "login_msg uid = \<lparr>Seq = 1, ID = Msg_Verify, Body = [], MsgKey = uid, UID = uid\<rparr>"

definition login :: "i64 \<Rightarrow> sref \<Rightarrow> u64 \<Rightarrow> (Gate \<times> gate_event) list" where
  "login t r uid = map (Pair (open_gate t))
     [Accept r, RunStart r, ReceiveTurn r (RecvMsg (login_msg uid)), RunTurn r TakeIn, MgrTurn]"

lemmas gate_defs = gate_step_def accept_def run_start_def run_turn_def receive_turn_def mgr_turn_def
  mgr_add_def OnStart_def NewSession_def msgIn_def AddSession_def SendMsg_def SendSign_def sign_def
  GetSession_def DelSession_def CallKick_def OnStop_def conn_down_def run_return_def Count_def

lemmas example_defs = open_gate_def login_msg_def login_def empty_gate_def default_options_def

section \<open>All runs\<close>

text \<open>
  C12. Whatever the clients, the servers, the scheduler and the users of a session's methods do, each operation of
  the manager being one atomic step: the counter of the manager is the number of its entries, as long as
  \<open>StopAllSession\<close> has not run; every user has at most one entry, and no queue exceeds the capacity of its
  channel, in any case. (\<open>StopAllSession\<close> decrements the counter twice for every live session, see
  \<open>StopAllSession_counts_twice\<close>; what happens when operations of the manager overlap is in \<open>ManagerRace\<close>.)
\<close>

theorem Sessions_are_counted:
  assumes "api_run (empty_gate opts) es = Some w"
  shows "((\<forall>ge \<in> set es. snd ge \<noteq> Work StopAll) \<longrightarrow> Count w = of_nat (length (w_mgr w)))
    \<and> distinct (map fst (w_mgr w)) \<and> length (w_addChan w) \<le> 9216
    \<and> (\<forall>r s. w_sessions w r = Some s \<longrightarrow> within (w_opts w) s)"
proof -
  obtain k where "gate_ok k w" using any_api.run_inv [of "empty_gate opts" es w] empty_gate_ok assms by blast
  moreover have "gate_ok 0 w" if "\<forall>ge \<in> set es. snd ge \<noteq> Work StopAll"
    using api.run_inv [OF empty_gate_ok _ assms] that by fastforce
  ultimately show ?thesis by (auto simp: gate_ok_def Count_def)
qed

theorem Sessions_are_counted_witness:
  "\<exists>w. api_run (empty_gate default_options) (map (map_prod id Work) (login 100 0 7 @ login 105 1 8)
      @ [(open_gate 106, KickSession 0), (open_gate 106, CallMsg 1 (login_msg 8)), (open_gate 107, SendData 1 ''x'')]) = Some w
    \<and> Count w = of_nat (length (w_mgr w)) \<and> length (w_mgr w) = 2"
proof -
  let ?es = "map (map_prod id Work) (login 100 0 7 @ login 105 1 8)
      @ [(open_gate 106, KickSession 0), (open_gate 106, CallMsg 1 (login_msg 8)), (open_gate 107, SendData 1 ''x'')]"
  obtain w where w: "api_run (empty_gate default_options) ?es = Some w" and len: "length (w_mgr w) = 2"
    by (simp add: gate_defs api_step_def Kick_def Call_def SendByte_def example_defs code_defs Let_def)
  have "\<forall>ge \<in> set ?es. snd ge \<noteq> Work StopAll" by (simp add: login_def)
  with Sessions_are_counted [OF w] w len show ?thesis by blast
qed

section \<open>Clients that are not verified\<close>

definition silent :: "Session \<Rightarrow> bool" where
  "silent s \<longleftrightarrow> \<not> ss_vrifyed s \<and> ss_out s = [] \<and> ss_call s = [] \<and> ss_sent s = []"

definition quiet :: "World \<Rightarrow> bool" where
  "quiet w \<longleftrightarrow> w_calls w = [] \<and> w_mgr w = [] \<and> w_addChan w = [] \<and> w_count w = 0
     \<and> (\<forall>r s. w_sessions w r = Some s \<longrightarrow> silent s)"

lemma quiet_upd: "quiet w \<Longrightarrow> silent s \<Longrightarrow> quiet (session_upd w r s)"
  by (simp add: quiet_def)

lemma quietD_mgr: "quiet w \<Longrightarrow> w_mgr w = []" "quiet w \<Longrightarrow> w_addChan w = []" "quiet w \<Longrightarrow> w_calls w = []"
  by (simp_all add: quiet_def)

lemma quietD: "quiet w \<Longrightarrow> w_sessions w r = Some s \<Longrightarrow> silent s"
  by (simp add: quiet_def)

lemma stopped_silent [simp]: "silent (stopped s) \<longleftrightarrow> ss_out s = [] \<and> ss_call s = [] \<and> ss_sent s = []"
  by (auto simp: silent_def stopped_def)

lemma OnStop_quiet: "quiet w \<Longrightarrow> OnStop w r = Some w' \<Longrightarrow> quiet w'"
  by (cases "w_sessions w r") (auto simp: OnStop_eq OnStop_def silent_def dest: quietD intro!: quiet_upd split: if_splits)

lemma run_return_quiet: "quiet w \<Longrightarrow> run_return w r = Some w' \<Longrightarrow> quiet w'"
  by (auto simp: run_return_def bind_eq_Some_conv silent_def dest: quietD intro!: quiet_upd)

lemma SendMsg_quiet: "quiet w \<Longrightarrow> SendMsg g w r msg = Some (w', e) \<Longrightarrow> w' = w"
  by (auto simp: SendMsg_def bind_eq_Some_conv silent_def dest: quietD split: if_splits)

lemma msgIn_quiet:
  assumes "quiet w" and "\<not> g_verify g msg" and "msgIn g w r msg = Some (w', e)"
  shows "quiet w'"
proof -
  from assms(3) obtain s where s: "w_sessions w r = Some s" by (auto simp: msgIn_def bind_eq_Some_conv)
  with quietD [OF assms(1)] have "silent s" by simp
  then have "quiet (session_upd w r (s\<lparr>ss_vrifyed := False\<rparr>))"
    using quiet_upd [OF assms(1)] by (simp add: silent_def)
  with assms s \<open>silent s\<close> show ?thesis
    by (auto simp: msgIn_def bind_eq_Some_conv silent_def SendMsg_unverified dest: SendMsg_quiet split: if_splits)
qed

lemma run_turn_quiet:
  assumes q: "quiet w" and v: "\<And>m. \<not> g_verify g m" and turn: "run_turn g w r c = Some w'"
  shows "quiet w'"
proof -
  from turn obtain s where s: "w_sessions w r = Some s" "\<not> ss_chans_closed s"
    by (auto simp: run_turn_def bind_eq_Some_conv split: if_splits)
  have silent: "silent s" using quietD [OF q s(1)] .
  have stop: "quiet w2" if "quiet w1" "OnStop w1 r = Some y" "run_return y r = Some w2" for w1 y w2
    using that by (auto dest: OnStop_quiet run_return_quiet)
  have upd: "quiet (session_upd w r s')" if "silent s'" for s' using quiet_upd [OF q that] .
  show ?thesis
  proof (cases c)
    case TakeIn
    then obtain m ms w1 e where ms: "ss_in s = m # ms"
      and step: "msgIn g (session_upd w r (s\<lparr>ss_in := ms, ss_PacketCount := ss_PacketCount s + 1,
               ss_PacketCount1Min := ss_PacketCount1Min s + 1\<rparr>)) r m = Some (w1, e)" "w' = w1"
      using turn s by (auto simp: run_turn_def bind_eq_Some_conv split: list.splits)
    from silent msgIn_quiet [OF upd v step(1)] show ?thesis unfolding step(2) by (simp add: silent_def)
  next
    case TickRpm
    then show ?thesis
      using turn s silent upd [of "fst (timer_work s)"]
      by (auto simp: run_turn_def bind_eq_Some_conv Let_def silent_def timer_work_def split: if_splits intro: stop)
  qed (use turn s silent q in \<open>auto simp: run_turn_def bind_eq_Some_conv silent_def
      split: if_splits intro: stop run_return_quiet\<close>)
qed

lemma gate_step_quiet:
  assumes q: "quiet w" and v: "\<And>m. \<not> g_verify g m" and step: "gate_step g w e = Some w'"
  shows "quiet w'"
proof (cases e)
  case (Accept r)
  then show ?thesis
    using q step by (auto simp: gate_step_def accept_def OnStart_def NewSession_def silent_def
        intro!: quiet_upd split: if_splits)
next
  case (ReceiveTurn r a)
  then show ?thesis
    using q step by (auto simp: gate_step_def receive_turn_def bind_eq_Some_conv silent_def
        dest: OnStop_quiet quietD intro!: quiet_upd split: if_splits received.splits)
next
  case (RunStart r)
  then show ?thesis
    using q step by (auto simp: gate_step_def run_start_def dest: run_return_quiet split: if_splits)
next
  case (RunTurn r c)
  then show ?thesis using run_turn_quiet [OF q v] step by (simp add: gate_step_def)
qed (use q step in \<open>auto simp: gate_step_def StopSession_def BroatCast_def GetSession_def
      mgr_turn_def DelSession_def callBack_turn_def Receive_def StopAllSession_def quietD_mgr [OF q] split: if_splits\<close>)

interpretation quiet_gate: run_invariant "\<lambda>w (g, e). gate_step g w e" gate_run "\<lambda>(g, e). \<forall>m. \<not> g_verify g m" quiet
proof unfold_locales
  fix w ge w'
  assume "quiet w" "case ge of (g, e) \<Rightarrow> \<forall>m. \<not> g_verify g m" "(case ge of (g, e) \<Rightarrow> gate_step g w e) = Some w'"
  moreover obtain g e where "ge = (g, e)" by (cases ge)
  ultimately show "quiet w'" unfolding prod.case by (auto elim: gate_step_quiet)
qed

text \<open>
  C13. As long as the verification function accepts nobody, nothing a client sends reaches the servers,
  no session enters the manager, and nothing is sent back, whatever arrives and in whatever order.
\<close>

theorem unverified_clients_reach_nothing:
  assumes "\<forall>(g, e) \<in> set es. \<forall>m. \<not> g_verify g m" and "gate_run (empty_gate opts) es = Some w"
  shows "w_calls w = [] \<and> w_mgr w = [] \<and> Count w = 0
    \<and> (\<forall>r s. w_sessions w r = Some s \<longrightarrow> \<not> ss_vrifyed s \<and> ss_sent s = [])"
proof -
  have "quiet (empty_gate opts)" by (simp add: quiet_def empty_gate_def)
  from quiet_gate.run_inv [OF this assms] show ?thesis by (auto simp: quiet_def silent_def Count_def)
qed

definition closed_gate :: Gate where
  "closed_gate = (open_gate 100)\<lparr>g_verify := (\<lambda>_. False)\<rparr>"

theorem unverified_clients_reach_nothing_witness:
  "\<exists>w. gate_run (empty_gate default_options) (map (Pair closed_gate)
      [Accept 0, ReceiveTurn 0 (RecvMsg (login_msg 7)), RunTurn 0 TakeIn,
       ReceiveTurn 0 (RecvMsg ((login_msg 7)\<lparr>ID := 1001\<rparr>)), RunTurn 0 TakeIn]) = Some w
    \<and> w_calls w = [] \<and> w_sessions w 0 \<noteq> None"
proof -
  let ?es = "map (Pair closed_gate)
      [Accept 0, ReceiveTurn 0 (RecvMsg (login_msg 7)), RunTurn 0 TakeIn,
       ReceiveTurn 0 (RecvMsg ((login_msg 7)\<lparr>ID := 1001\<rparr>)), RunTurn 0 TakeIn]"
  obtain w where w: "gate_run (empty_gate default_options) ?es = Some w" "w_sessions w 0 \<noteq> None"
    by (simp add: gate_defs example_defs closed_gate_def code_defs Let_def)
  have "\<forall>(g, e) \<in> set ?es. \<forall>m. \<not> g_verify g m" by (simp add: closed_gate_def)
  from unverified_clients_reach_nothing [OF this w(1)] w show ?thesis by blast
qed


section \<open>Logins\<close>

text \<open>
  A session that lives: verified under the user id it is stored for, connected, not stopped.
\<close>

definition live :: "Session \<Rightarrow> u64 \<Rightarrow> bool" where
  "live s uid \<longleftrightarrow> ss_userId s = uid \<and> uid \<noteq> 0 \<and> ss_vrifyed s \<and> \<not> ss_once s \<and> ss_conn s = Some False
     \<and> \<not> ss_chans_closed s"

definition long_ago :: "Gate \<Rightarrow> World \<Rightarrow> u64 \<Rightarrow> bool" where
  "long_ago g w uid \<longleftrightarrow> (case map_of (w_addMap w) uid of None \<Rightarrow> True
     | Some t \<Rightarrow> t = 0 \<or> \<not> sint (g_now_ms g - t) < 3000)"

lemma long_ago_last: "long_ago g w uid \<longleftrightarrow> \<not> ((case map_of (w_addMap w) uid of None \<Rightarrow> 0 | Some t \<Rightarrow> t) \<noteq> 0
    \<and> sint (g_now_ms g - (case map_of (w_addMap w) uid of None \<Rightarrow> 0 | Some t \<Rightarrow> t)) < 3000)"
  by (auto simp: long_ago_def split: option.splits)

text \<open>
  C14. A user who logs in again on another connection, three seconds after the last login or later and with room in the
  queue of the new session, takes over: the old session is stopped and its connection closed, the servers are told that the user was kicked, the new session is the one
  that is found, it is told of its success, and the counter does not change.
\<close>

theorem login_takes_over:
  assumes "w_sessions w r = Some s" and "live s uid" and "GetSession w uid = Some old" and "old \<noteq> r"
    and "w_sessions w old = Some so" and "live so uid" and "long_ago g w uid"
    and "g_marshal g (sign s Msg_Verify_Rst_Suc) = Some data"
    and "length (ss_out s) < unat (opt_MaxMsgChanLen (w_opts w))"
  shows "\<exists>w'. mgr_add g w r = Some (w', True) \<and> GetSession w' uid = Some r
    \<and> w_sessions w' = (w_sessions w)(old \<mapsto> stopped so, r \<mapsto> s\<lparr>ss_out := ss_out s @ [data]\<rparr>)
    \<and> w_calls w' = w_calls w @ [sign so Msg_Kick] \<and> Count w' = Count w"
proof -
  let ?w0 = "w\<lparr>w_mgr := AList.delete uid (w_mgr w)\<rparr>"
  let ?w1 = "session_upd (CallKick ?w0 so) old (stopped so)"
  have "DelSession ?w0 uid = ?w0" by (simp add: DelSession_def GetSession_delete)
  then have w1: "OnStop ?w0 old = Some ?w1"
    using assms(5,6) by (simp add: OnStop_eq live_def)
  have s: "w_sessions ?w1 r = Some s" using assms(1,4) by simp
  have uid: "ss_userId s = uid" and sig: "(sign s m)\<lparr>UID := ss_userId s\<rparr> = sign s m" for m
    using assms(2) by (simp_all add: live_def sign_def)
  let ?w2 = "session_upd ?w1 r (s\<lparr>ss_out := ss_out s @ [data]\<rparr>)"
  have w2: "SendSign g ?w1 r Msg_Verify_Rst_Suc = Some (?w2, None)"
    using assms(2,8,9) s sig by (simp add: SendSign_def SendMsg_def live_def conn_down_def)
  from assms(7) have "mgr_add g w r = Some (?w2\<lparr>w_mgr := AList.update uid r (w_mgr ?w2),
      w_addMap := AList.update uid (g_now_ms g) (w_addMap w)\<rparr>, True)"
    using assms(1,3) w1 w2 uid
    by (auto simp: mgr_add_def Let_def GetSession_def delete_conv' long_ago_last)
  then show ?thesis
    using assms(6) by (simp add: GetSession_def update_conv' Count_def CallKick_def live_def sign_def)
qed


definition live_session :: "u64 \<Rightarrow> Session" where
  "live_session uid = (NewSession (open_gate 100) default_options)\<lparr>ss_userId := uid, ss_vrifyed := True,
     ss_conn := Some False\<rparr>"

definition two_logins :: World where
  "two_logins = (empty_gate default_options)\<lparr>w_sessions := [0 \<mapsto> live_session 7, 1 \<mapsto> live_session 7],
     w_mgr := [(7, 0)], w_count := 1, w_addMap := [(7, 100000)]\<rparr>"

lemma live_live_session: "uid \<noteq> 0 \<Longrightarrow> live (live_session uid) uid"
  by (simp add: live_def live_session_def NewSession_def)

lemma two_logins_fields:
  "w_sessions two_logins 0 = Some (live_session 7)" "w_sessions two_logins 1 = Some (live_session 7)"
  "GetSession two_logins 7 = Some 0" "w_opts two_logins = default_options" "Count two_logins = 1"
  "w_addMap two_logins = [(7, 100000)]" "ss_out (live_session uid) = []"
  by (simp_all add: two_logins_def GetSession_def empty_gate_def Count_def live_session_def NewSession_def)

theorem login_takes_over_witness:
  "\<exists>w'. mgr_add (open_gate 105) two_logins 1 = Some (w', True) \<and> GetSession w' 7 = Some 1 \<and> Count w' = 1"
proof -
  have "g_marshal (open_gate 105) (sign (live_session 7) Msg_Verify_Rst_Suc) = Some (FormatUint (unat Msg_Verify_Rst_Suc))"
    by (simp add: open_gate_def sign_def)
  moreover have "long_ago (open_gate 105) two_logins 7"
    by (simp add: long_ago_def two_logins_fields open_gate_def)
  moreover have "length (ss_out (live_session 7)) < unat (opt_MaxMsgChanLen (w_opts two_logins))"
    by (simp add: two_logins_fields default_options_def)
  ultimately show ?thesis
    using login_takes_over [of two_logins 1 "live_session 7" 7 0 "live_session 7" "open_gate 105"]
      live_live_session [of 7] two_logins_fields by auto
qed

text \<open>
  C37. A user who logs in on a second connection within three seconds loses both: the new session is
  stopped, but it is the entry of the old one that is deleted. The old connection stays open and
  verified, yet it is not found any more, not counted, and answers for the user are dropped.
\<close>

theorem quick_login_loses_live_session:
  assumes "w_sessions w r = Some s" and "live s uid" and "GetSession w uid = Some old" and "old \<noteq> r"
    and "w_sessions w old = Some so" and "\<not> long_ago g w uid"
  shows "\<exists>w'. mgr_add g w r = Some (w', False) \<and> GetSession w' uid = None \<and> Count w' = Count w - 1
    \<and> w_sessions w' old = Some so \<and> w_sessions w' r = Some (stopped s)
    \<and> w_calls w' = w_calls w @ [sign s Msg_Kick]
    \<and> (\<forall>g' msg. UID msg = uid \<and> ID msg \<noteq> Msg_BroatCast_Rst \<longrightarrow> callBack_turn g' w' msg = Some w')"
proof -
  let ?w' = "session_upd (CallKick (DelSession w uid) s) r (stopped s)"
  have "OnStop w r = Some ?w'" using assms(1,2) by (simp add: OnStop_eq live_def)
  then have "mgr_add g w r = Some (?w', False)"
    using assms(1,2,6) by (auto simp: mgr_add_def Let_def live_def long_ago_last)
  moreover have gone: "GetSession ?w' uid = None" and "Count ?w' = Count w - 1"
    using assms(2,3) by (simp_all add: live_def DelSession_def GetSession_def delete_conv' Count_def)
  moreover have "w_calls ?w' = w_calls w @ [sign s Msg_Kick]"
    using assms(2) by (simp add: CallKick_def live_def)
  moreover have "callBack_turn g' ?w' msg = Some ?w'" if "UID msg = uid" "ID msg \<noteq> Msg_BroatCast_Rst" for g' msg
    using that gone by (simp add: callBack_turn_def)
  ultimately show ?thesis using assms(4,5) by (intro exI [of _ ?w']) simp
qed

theorem quick_login_loses_live_session_witness:
  "\<exists>w'. mgr_add (open_gate 102) two_logins 1 = Some (w', False) \<and> GetSession w' 7 = None
    \<and> w_sessions w' 0 = Some (live_session 7)"
proof -
  have "\<not> long_ago (open_gate 102) two_logins 7"
    by (simp add: long_ago_def two_logins_fields open_gate_def)
  then show ?thesis
    using quick_login_loses_live_session [of two_logins 1 "live_session 7" 7 0 "live_session 7" "open_gate 102"]
      live_live_session [of 7] two_logins_fields by auto
qed

text \<open>
  A session that verifies again under the same user id, three seconds or more after its login, is
  stopped as its own predecessor and stored all the same: the manager then finds, and counts, a
  stopped session, and stopping it once more has no effect.
\<close>

theorem second_verification_stores_stopped_session:
  assumes "w_sessions w r = Some s" and "live s uid" and "GetSession w uid = Some r" and "long_ago g w uid"
  shows "\<exists>w'. mgr_add g w r = Some (w', True) \<and> GetSession w' uid = Some r
    \<and> w_sessions w' r = Some (stopped s) \<and> Count w' = Count w \<and> StopSession w' uid = Some w'"
proof -
  let ?w0 = "w\<lparr>w_mgr := AList.delete uid (w_mgr w)\<rparr>"
  let ?w1 = "session_upd (CallKick ?w0 s) r (stopped s)"
  have uid: "ss_userId s = uid" using assms(2) by (simp add: live_def)
  have "DelSession ?w0 uid = ?w0" by (simp add: DelSession_def GetSession_delete)
  then have w1: "OnStop ?w0 r = Some ?w1" using assms(1,2) by (simp add: OnStop_eq live_def)
  have w2: "SendSign g ?w1 r Msg_Verify_Rst_Suc = Some (?w1, None)"
    by (rule SendSign_unverified [of _ _ "stopped s"]) simp_all
  from assms(4) have "mgr_add g w r = Some (?w1\<lparr>w_mgr := AList.update uid r (w_mgr ?w1),
      w_addMap := AList.update uid (g_now_ms g) (w_addMap w)\<rparr>, True)"
    using assms(1,3) w1 w2 uid
    by (auto simp: mgr_add_def Let_def GetSession_def delete_conv' long_ago_last)
  then show ?thesis
    using assms(2) by (simp add: GetSession_def update_conv' Count_def StopSession_def OnStop_eq)
qed

theorem second_verification_stores_stopped_session_witness:
  "\<exists>w'. mgr_add (open_gate 105) two_logins 0 = Some (w', True) \<and> GetSession w' 7 = Some 0
    \<and> w_sessions w' 0 = Some (stopped (live_session 7))"
proof -
  have "long_ago (open_gate 105) two_logins 7"
    by (simp add: long_ago_def two_logins_fields open_gate_def)
  then show ?thesis
    using second_verification_stores_stopped_session [of two_logins 0 "live_session 7" 7 "open_gate 105"]
      live_live_session [of 7] two_logins_fields by auto
qed

text \<open>
  A client that verifies a second time, as another user, keeps the entry of the first: both users are
  then found at its session, so that what is sent to the first user reaches it under the second
  user's id; when the session stops, the entry of the first stays, and stays counted.
\<close>

theorem second_user_keeps_first_entry:
  assumes "w_sessions w r = Some s" and "live s uid" and "GetSession w uid = Some r"
    and "ID msg = Msg_Verify" and "UID msg = uid'" and "uid' \<noteq> uid" and "uid' \<noteq> 0" and "g_verify g msg"
    and "GetSession w uid' = None" and "long_ago g w uid'" and "w_addChan w = []"
    and "g_marshal g (sign (s\<lparr>ss_userId := uid'\<rparr>) Msg_Verify_Rst_Suc) = Some data"
    and "length (ss_out s) < unat (opt_MaxMsgChanLen (w_opts w))"
  shows "\<exists>w1 w2 w3. msgIn g w r msg = Some (w1, None) \<and> mgr_turn g w1 = Some w2 \<and> OnStop w2 r = Some w3
    \<and> GetSession w2 uid = Some r \<and> GetSession w2 uid' = Some r
    \<and> GetSession w3 uid = Some r \<and> GetSession w3 uid' = None \<and> Count w3 = Count w
    \<and> map_option ss_once (w_sessions w3 r) = Some True"
proof -
  let ?s = "s\<lparr>ss_userId := uid'\<rparr>"
  let ?w1 = "(session_upd w r ?s)\<lparr>w_addChan := [r]\<rparr>"
  have s: "?s\<lparr>ss_vrifyed := True\<rparr> = ?s" using assms(2) by (simp add: live_def)
  have msg: "msgIn g w r msg = Some (?w1, None)"
    using assms(1,4,5,7,8,11) s by (simp add: msgIn_def AddSession_def)
  let ?w = "(session_upd w r ?s)\<lparr>w_count := w_count w + 1\<rparr>"
  let ?s2 = "?s\<lparr>ss_out := ss_out s @ [data]\<rparr>"
  have sig: "(sign ?s m)\<lparr>UID := uid'\<rparr> = sign ?s m" for m by (simp add: sign_def)
  have send: "SendSign g ?w r Msg_Verify_Rst_Suc = Some (session_upd ?w r ?s2, None)"
    using assms(2,12,13) sig by (simp add: SendSign_def SendMsg_def live_def conn_down_def)
  let ?w2 = "(session_upd ?w r ?s2)\<lparr>w_addChan := [], w_mgr := AList.update uid' r (w_mgr w),
    w_addMap := AList.update uid' (g_now_ms g) (w_addMap w)\<rparr>"
  have taken: "?w1\<lparr>w_addChan := []\<rparr> = session_upd w r ?s" using assms(11) by (cases w) simp
  have "mgr_add g (session_upd w r ?s) r = Some (?w2, True)"
    using assms(9,10,11) send by (auto simp: mgr_add_def Let_def GetSession_def long_ago_last)
  then have "mgr_add g (?w1\<lparr>w_addChan := []\<rparr>) r = Some (?w2, True)" unfolding taken .
  then have turn: "mgr_turn g ?w1 = Some ?w2" by (simp add: mgr_turn_def)
  have found: "GetSession ?w2 uid = Some r" "GetSession ?w2 uid' = Some r"
    using assms(3,6) by (simp_all add: GetSession_def update_conv')
  let ?w3 = "session_upd (CallKick (DelSession ?w2 uid') ?s2) r (stopped ?s2)"
  have "OnStop ?w2 r = Some ?w3" using assms(2) by (simp add: OnStop_eq live_def)
  moreover have "GetSession ?w3 uid = Some r" "GetSession ?w3 uid' = None" "Count ?w3 = Count w"
    using found assms(6,7,9) by (simp_all add: DelSession_def GetSession_def CallKick_def delete_conv' update_conv' Count_def)
  moreover have "map_option ss_once (w_sessions ?w3 r) = Some True" by (simp add: stopped_def)
  ultimately show ?thesis using msg turn found by blast
qed

theorem second_user_keeps_first_entry_witness:
  "\<exists>w1 w2 w3. msgIn (open_gate 105) two_logins 0 (login_msg 9) = Some (w1, None) \<and> mgr_turn (open_gate 105) w1 = Some w2
    \<and> OnStop w2 0 = Some w3 \<and> GetSession w3 7 = Some 0 \<and> GetSession w3 9 = None"
proof -
  have "g_marshal (open_gate 105) (sign ((live_session 7)\<lparr>ss_userId := 9\<rparr>) Msg_Verify_Rst_Suc) = Some (FormatUint (unat Msg_Verify_Rst_Suc))"
    by (simp add: open_gate_def sign_def)
  moreover have "long_ago (open_gate 105) two_logins 9" "GetSession two_logins 9 = None" "w_addChan two_logins = []"
    by (simp_all add: long_ago_def two_logins_def empty_gate_def GetSession_def)
  moreover have "length (ss_out (live_session 7)) < unat (opt_MaxMsgChanLen (w_opts two_logins))"
    by (simp add: two_logins_fields default_options_def)
  moreover have "ID (login_msg 9) = Msg_Verify" "UID (login_msg 9) = 9" "g_verify (open_gate 105) (login_msg 9)"
    by (simp_all add: login_msg_def open_gate_def)
  ultimately show ?thesis
    using second_user_keeps_first_entry [of two_logins 0 "live_session 7" 7 "login_msg 9" 9 "open_gate 105"]
      live_live_session [of 7] two_logins_fields by auto
qed

text \<open>
  The answer to a failed verification is never sent: the session is marked unverified first, and
  \<open>SendMsg\<close> drops what an unverified session sends. The client sees nothing at all.
\<close>

theorem failed_verification_not_answered:
  assumes "w_sessions w r = Some s" and "ID msg = Msg_Verify" and "UID msg \<noteq> 0" and "\<not> g_verify g msg"
  shows "msgIn g w r msg = Some (session_upd w r (s\<lparr>ss_vrifyed := False\<rparr>), None)"
  using assms by (simp add: msgIn_def SendMsg_unverified)

theorem failed_verification_not_answered_witness:
  "\<exists>w'. msgIn closed_gate two_logins 0 (login_msg 7) = Some (w', None)
    \<and> map_option ss_out (w_sessions w' 0) = Some []"
  using failed_verification_not_answered [of two_logins 0 "live_session 7" "login_msg 7" closed_gate]
  by (simp add: two_logins_fields login_msg_def closed_gate_def)


section \<open>Timeouts and shutdown\<close>

definition overdue :: "Gate \<Rightarrow> World \<Rightarrow> Session \<Rightarrow> run_case \<Rightarrow> bool" where
  "overdue g w s c \<longleftrightarrow> c = TickHeartBeat \<and> sint (g_now g - ss_LastHeartBeatTime s) > sint (opt_HeartBeatInterval (w_opts w))
     \<or> c = TickRpm \<and> sint (ss_PacketCount1Min s) > int (unat (ss_rpmLimit s))"

lemma run_return_eq:
  "w_sessions w r = Some s \<Longrightarrow> run_return w r = Some (session_upd w r (s\<lparr>ss_chans_closed := True\<rparr>))"
  by (simp add: run_return_def)

text \<open>
  C22. A live session whose client has been silent for longer than the heartbeat interval, or has sent
  more packets since the last check than the limit, is stopped at the next tick: its connection is
  closed, it is not found any more, the servers are told, and no other session is affected.
\<close>

theorem overdue_session_is_stopped:
  assumes "w_sessions w r = Some s" and "live s uid" and "GetSession w uid = Some r" and "overdue g w s c"
  shows "\<exists>w' s'. run_turn g w r c = Some w' \<and> w_sessions w' = (w_sessions w)(r \<mapsto> s')
    \<and> conn_down s' \<and> \<not> ss_vrifyed s' \<and> ss_chans_closed s'
    \<and> GetSession w' uid = None \<and> Count w' = Count w - 1
    \<and> (\<forall>uid'. uid' \<noteq> uid \<longrightarrow> GetSession w' uid' = GetSession w uid') \<and> w_calls w' = w_calls w @ [sign s Msg_Kick]"
proof -
  define s1 where "s1 = (if c = TickRpm then fst (timer_work s) else s)"
  let ?w1 = "session_upd w r s1"
  have s1: "live s1 uid" "sign s1 m = sign s m" for m
    using assms(2) by (auto simp: s1_def live_def timer_work_def sign_def)
  have id: "session_upd w r s = w" using assms(1) by (simp add: fun_upd_idem)
  let ?w2 = "session_upd (CallKick (DelSession ?w1 uid) s1) r (stopped s1)"
  let ?w3 = "session_upd ?w2 r ((stopped s1)\<lparr>ss_chans_closed := True\<rparr>)"
  have stop: "OnStop ?w1 r = Some ?w2" using s1(1) by (simp add: OnStop_eq live_def)
  have ret: "run_return ?w2 r = Some ?w3" by (rule run_return_eq) simp
  have "run_turn g w r c = Some ?w3"
  proof (cases "c = TickRpm")
    case True
    then have "timer_work s = (s1, False)" using assms(4) by (auto simp: s1_def overdue_def timer_work_def)
    with True assms(1,2) stop ret show ?thesis by (simp add: run_turn_def live_def)
  next
    case False
    then have "s1 = s" and "c = TickHeartBeat" using assms(4) by (auto simp: s1_def overdue_def)
    with assms(1,2,4) stop ret show ?thesis by (simp add: run_turn_def live_def overdue_def id)
  qed
  moreover have "GetSession ?w3 uid = None" "Count ?w3 = Count w - 1"
    "uid' \<noteq> uid \<Longrightarrow> GetSession ?w3 uid' = GetSession w uid'" for uid'
    using assms(3) s1(1) by (simp_all add: live_def DelSession_def GetSession_def delete_conv' Count_def)
  moreover have "w_calls ?w3 = w_calls w @ [sign s Msg_Kick]"
    using s1 by (simp add: CallKick_def live_def)
  moreover have "conn_down ((stopped s1)\<lparr>ss_chans_closed := True\<rparr>)"
    by (auto simp: conn_down_def stopped_def)
  ultimately show ?thesis
    by (intro exI [of _ ?w3] exI [of _ "(stopped s1)\<lparr>ss_chans_closed := True\<rparr>"]) simp
qed

theorem overdue_session_is_stopped_witness:
  "\<exists>w'. run_turn (open_gate 111) two_logins 0 TickHeartBeat = Some w' \<and> GetSession w' 7 = None"
proof -
  have "overdue (open_gate 111) two_logins (live_session 7) TickHeartBeat"
    by (simp add: overdue_def open_gate_def two_logins_fields default_options_def live_session_def NewSession_def)
  then show ?thesis
    using overdue_session_is_stopped [of two_logins 0 "live_session 7" 7 "open_gate 111" TickHeartBeat]
      live_live_session [of 7] two_logins_fields by auto
qed

definition all_live :: "World \<Rightarrow> (u64 \<times> sref) list \<Rightarrow> bool" where
  "all_live w es \<longleftrightarrow> (\<forall>(uid, r) \<in> set es. \<exists>s. w_sessions w r = Some s \<and> live s uid)"

lemma stop_loop_live:
  assumes "w_mgr w = es" and "distinct (map fst es)" and "all_live w es"
  shows "\<exists>w'. stop_loop w es = Some w' \<and> w_mgr w' = [] \<and> Count w' = Count w - 2 * of_nat (length es)
    \<and> (\<forall>(uid, r) \<in> set es. \<exists>s. w_sessions w' r = Some (stopped s)) \<and> (\<forall>r. r \<notin> snd ` set es \<longrightarrow> w_sessions w' r = w_sessions w r)"
  using assms
proof (induction es arbitrary: w)
  case Nil
  then show ?case by simp
next
  case (Cons e es)
  obtain uid r where e: "e = (uid, r)" by (cases e)
  from Cons.prems(3) e obtain s where s: "w_sessions w r = Some s" "live s uid" by (auto simp: all_live_def)
  have mgr: "w_mgr w = (uid, r) # es" and fresh: "map_of es uid = None"
    using Cons.prems e by (auto simp: map_of_eq_None_iff)
  let ?w1 = "session_upd (CallKick (DelSession w uid) s) r (stopped s)"
  let ?w2 = "?w1\<lparr>w_count := w_count ?w1 - 1, w_mgr := AList.delete uid (w_mgr ?w1)\<rparr>"
  have stop: "OnStop w r = Some ?w1" using s by (simp add: OnStop_eq live_def)
  have mgr1: "w_mgr ?w1 = es" "w_count ?w1 = w_count w - 1"
    using s(2) mgr fresh by (simp_all add: DelSession_def GetSession_def live_def delete_absent)
  have "r \<notin> snd ` set es"
  proof
    assume "r \<in> snd ` set es"
    then obtain uid' where "(uid', r) \<in> set es" by auto
    with Cons.prems(3) s have "uid' = uid" by (auto simp: all_live_def live_def)
    with \<open>(uid', r) \<in> set es\<close> fresh show False by (auto simp: map_of_eq_None_iff image_iff)
  qed
  then have "all_live ?w2 es" using Cons.prems(3) by (force simp: all_live_def)
  moreover have "w_mgr ?w2 = es" using mgr1 fresh by (simp add: delete_absent)
  ultimately obtain w' where w': "stop_loop ?w2 es = Some w'" "w_mgr w' = []" "Count w' = Count ?w2 - 2 * of_nat (length es)"
    "\<forall>(uid, r) \<in> set es. \<exists>s. w_sessions w' r = Some (stopped s)"
    "\<forall>r. r \<notin> snd ` set es \<longrightarrow> w_sessions w' r = w_sessions ?w2 r"
    using Cons.IH [of ?w2] Cons.prems(2) by auto
  have "stop_loop w (e # es) = stop_loop ?w2 es" using stop e by simp
  moreover have "Count w' = Count w - 2 * of_nat (length (e # es))"
    using w'(3) mgr1(2) by (simp add: Count_def)
  moreover have "w_sessions w' r = Some (stopped s)" using w'(5) \<open>r \<notin> snd ` set es\<close> by simp
  moreover have "\<forall>r'. r' \<notin> snd ` set (e # es) \<longrightarrow> w_sessions w' r' = w_sessions w r'"
    using w'(5) e by simp
  ultimately show ?case using w'(1,2,4) e by auto
qed

text \<open>
  The shutdown stops every session and empties the manager, but the counter is decremented twice
  for each: a gate with \<open>n\<close> live sessions ends with the count \<open>-n\<close>, which the server reports as an
  unsigned number.
\<close>

theorem StopAllSession_counts_twice:
  assumes "gate_run (empty_gate opts) es = Some w" and "StopAll \<notin> snd ` set es" and "all_live w (w_mgr w)"
  shows "\<exists>w'. StopAllSession w = Some w' \<and> w_mgr w' = [] \<and> Count w' = - of_nat (length (w_mgr w))
    \<and> Server_Count w' = - of_nat (length (w_mgr w))
    \<and> (\<forall>(uid, r) \<in> set (w_mgr w). \<exists>s. w_sessions w' r = Some (stopped s))"
proof -
  have ok: "gate_ok 0 w" using gate_run_ok [OF empty_gate_ok assms(1,2)] .
  then have "Count w = of_nat (length (w_mgr w))" by (simp add: gate_ok_def Count_def)
  moreover have "distinct (map fst (w_mgr w))" using ok by (simp add: gate_ok_def)
  ultimately show ?thesis
    using stop_loop_live [OF refl _ assms(3)] by (auto simp: StopAllSession_def Server_Count_def)
qed

theorem StopAllSession_counts_twice_witness:
  "\<exists>w w'. gate_run (empty_gate default_options) (login 100 0 7 @ login 105 1 8) = Some w \<and> Count w = 2
    \<and> StopAllSession w = Some w' \<and> Server_Count w' = 4294967294"
proof -
  obtain w where w: "gate_run (empty_gate default_options) (login 100 0 7 @ login 105 1 8) = Some w"
    and len: "length (w_mgr w) = 2" "Count w = 2" and live: "all_live w (w_mgr w)"
    by (simp add: gate_defs example_defs code_defs Let_def all_live_def live_def)
  have "StopAll \<notin> snd ` set (login 100 0 7 @ login 105 1 8)" by (simp add: login_def)
  from StopAllSession_counts_twice [OF w this live] w len show ?thesis by auto
qed

end
