(* ===== verification/Utils.thy ===== *)
theory Utils
  imports Common Prelude "HOL-Library.Signed_Division"
begin

text \<open>
  The helpers of \<open>utils/\<close>: random numbers and bounds (\<open>rand.go\<close>), the interval timer (\<open>timer.go\<close>),
  and the causes of errors (\<open>net.go\<close>).
\<close>

section \<open>Random numbers and bounds\<close>

text \<open>
  \<open>rand.Intn\<close> panics when its argument is not positive; \<open>rnd\<close> is the generator it uses. The \<open>int\<close>
  of the platform has 64 bits, and \<open>max-min+1\<close> wraps around.
\<close>

definition Intn :: "(i64 \<Rightarrow> i64) \<Rightarrow> i64 \<Rightarrow> i64 option" where
  "Intn rnd n = (if sint n \<le> 0 then None else Some (rnd n))"

definition RandBetween :: "(i64 \<Rightarrow> i64) \<Rightarrow> i64 \<Rightarrow> i64 \<Rightarrow> i64 option" where
  "RandBetween rnd min0 max0 =
     (if sint min0 < 0 \<or> sint max0 < 0 then Some 0
      else let (min1, max1) = (if sint min0 > sint max0 then (max0, min0) else (min0, max0))
           in map_option (\<lambda>k. k + min1) (Intn rnd (max1 - min1 + 1)))"

definition Uint32MaxBetween :: "u32 \<Rightarrow> u32 \<Rightarrow> u32" where
  "Uint32MaxBetween a b = (if a > b then a else b)"

definition Uint32MinBetween :: "u32 \<Rightarrow> u32 \<Rightarrow> u32" where
  "Uint32MinBetween a b = (if a < b then a else b)"

definition Int64MaxBetween :: "i64 \<Rightarrow> i64 \<Rightarrow> i64" where
  "Int64MaxBetween a b = (if sint a > sint b then a else b)"

text \<open>The generator behind the channel \<open>LCG\<close>: the numbers it sends, from a seed.\<close>

definition lcg_next :: "u32 \<Rightarrow> u32" where
  "lcg_next x0 = 1664525 * x0 + 1013904223"

fun lcg :: "u32 \<Rightarrow> nat \<Rightarrow> u32 list" where
  "lcg x0 0 = []"
| "lcg x0 (Suc n) = (let x = lcg_next x0 in x # lcg x n)"

section \<open>Timer\<close>

text \<open>A time is a number of nanoseconds; a duration is an \<open>int64\<close>.\<close>

record Timer =
  t_Time :: int
  t_Interval :: i64

definition NewTimer :: "int \<Rightarrow> i64 \<Rightarrow> Timer" where
  "NewTimer now interval = \<lparr>t_Time = now, t_Interval = interval\<rparr>"

definition Timer_Run :: "int \<Rightarrow> Timer \<Rightarrow> Timer \<times> bool" where
  "Timer_Run now t =
     (if now > t_Time t + sint (1000000 * t_Interval t) then (t\<lparr>t_Time := now\<rparr>, True) else (t, False))"

definition AddRandomMillisec :: "(i64 \<Rightarrow> i64) \<Rightarrow> i64 \<Rightarrow> Timer \<Rightarrow> Timer option" where
  "AddRandomMillisec rnd maxms t =
     map_option (\<lambda>k. t\<lparr>t_Time := t_Time t + sint (k * 1000000)\<rparr>) (RandBetween rnd 0 maxms)"

section \<open>Goroutines and messages\<close>

text \<open>
  \<open>SafeGO\<close>: a function changes what is around it and may end in a panic (\<open>True\<close>); the goroutine that runs
  it recovers from that, so that what it has done stays done and the program goes on.
\<close>

definition SafeGO :: "('s \<Rightarrow> 's \<times> bool) \<Rightarrow> 's \<Rightarrow> 's \<times> bool" where
  "SafeGO fn st = (let (st1, panicked) = fn st in (st1, False))"

text \<open>\<open>Get\<close> makes a new message every time, and \<open>Put\<close> does nothing: no message is ever used again.\<close>

definition Msg_Get :: Msg where
  "Msg_Get = \<lparr>Seq = 0, ID = 0, Body = [], MsgKey = 0, UID = 0\<rparr>"

definition Msg_Put :: "Msg \<Rightarrow> Msg list \<Rightarrow> Msg list" where
  "Msg_Put msg pool = pool"

section \<open>Errors\<close>

text \<open>
  An error may have a method \<open>Timeout\<close>, here its answer, and a method \<open>Cause\<close>, which may answer nil.
\<close>

datatype go_error =
    PlainError string "bool option"
  | CausedError string "bool option" "go_error option"

fun Cause :: "go_error option \<Rightarrow> go_error option" where
  "Cause None = None"
| "Cause (Some (PlainError s t)) = Some (PlainError s t)"
| "Cause (Some (CausedError s t c)) = Cause c"

definition Timeout :: "go_error \<Rightarrow> bool option" where
  "Timeout e = (case e of PlainError _ t \<Rightarrow> t | CausedError _ t _ \<Rightarrow> t)"

definition IsTimeoutError :: "go_error option \<Rightarrow> bool" where
  "IsTimeoutError err =
     (case err of None \<Rightarrow> False
      | Some _ \<Rightarrow> (case Cause err of None \<Rightarrow> False | Some e \<Rightarrow> Timeout e = Some True))"

section \<open>Properties\<close>

lemma sint_of_int_i64: "sint (word_of_int k :: i64) = signed_take_bit 63 k"
  by (simp add: signed_of_int)

lemma sint_i64:
  assumes "- (2 ^ 63) \<le> k" and "k < 2 ^ 63"
  shows "sint (word_of_int k :: i64) = k"
  unfolding sint_of_int_i64 using assms by (intro signed_take_bit_int_eq_self) simp_all

lemma sint_plus_i64:
  fixes x y :: i64
  assumes "- (2 ^ 63) \<le> sint x + sint y" and "sint x + sint y < 2 ^ 63"
  shows "sint (x + y) = sint x + sint y"
proof -
  have "x + y = word_of_int (sint x + sint y)" by simp
  then show ?thesis using sint_i64 [OF assms] by presburger
qed

lemma sint_range_size:
  fixes lo hi :: i64
  assumes "0 \<le> sint lo" and "sint lo \<le> sint hi"
  shows "sint (hi - lo + 1) = (if sint hi - sint lo = 2 ^ 63 - 1 then - (2 ^ 63) else sint hi - sint lo + 1)"
proof -
  have "hi - lo + 1 = word_of_int (sint hi - sint lo + 1)" by simp
  then have size: "sint (hi - lo + 1) = signed_take_bit 63 (sint hi - sint lo + 1)"
    using sint_of_int_i64 by presburger
  have "sint hi < 2 ^ 63" using sint_less [of hi] by simp
  show ?thesis
  proof (cases "sint hi - sint lo = 2 ^ 63 - 1")
    case True
    then have "sint hi - sint lo + 1 = 2 ^ 63" by simp
    with True show ?thesis unfolding size by simp
  next
    case False
    then have "sint hi - sint lo + 1 < 2 ^ 63" using assms \<open>sint hi < 2 ^ 63\<close> by linarith
    with False assms show ?thesis unfolding size by (simp add: signed_take_bit_int_eq_self)
  qed
qed

text \<open>
  For two numbers that are not negative, in either order, the random number lies between them; only
  the whole range of the type makes the size of the range wrap around and panics. A negative bound
  gives 0.
\<close>

theorem RandBetween_in_range:
  assumes "\<And>n. 0 < sint n \<Longrightarrow> 0 \<le> sint (rnd n) \<and> sint (rnd n) < sint n"
    and "0 \<le> sint a" and "0 \<le> sint b"
  shows "case RandBetween rnd a b of
      Some k \<Rightarrow> min (sint a) (sint b) \<le> sint k \<and> sint k \<le> max (sint a) (sint b)
    | None \<Rightarrow> max (sint a) (sint b) - min (sint a) (sint b) = 2 ^ 63 - 1"
proof -
  define lo hi where "lo = (if sint a > sint b then b else a)" and "hi = (if sint a > sint b then a else b)"
  have bounds: "0 \<le> sint lo" "sint lo \<le> sint hi" "sint hi < 2 ^ 63"
    using assms(2,3) sint_less [of a] sint_less [of b] by (auto simp: lo_def hi_def)
  have ends: "min (sint a) (sint b) = sint lo" "max (sint a) (sint b) = sint hi"
    by (auto simp: lo_def hi_def)
  have rb: "RandBetween rnd a b = map_option (\<lambda>k. k + lo) (Intn rnd (hi - lo + 1))"
    using assms(2,3) by (auto simp: RandBetween_def lo_def hi_def)
  note size = sint_range_size [OF bounds(1,2)]
  show ?thesis
  proof (cases "sint hi - sint lo = 2 ^ 63 - 1")
    case True
    then show ?thesis unfolding rb ends by (simp add: Intn_def size)
  next
    case False
    then have n: "sint (hi - lo + 1) = sint hi - sint lo + 1" using size by simp
    with bounds have pos: "0 < sint (hi - lo + 1)" by simp
    let ?k = "rnd (hi - lo + 1)"
    from assms(1) [OF pos] n have k: "0 \<le> sint ?k" "sint ?k \<le> sint hi - sint lo" by simp_all
    then have "sint (?k + lo) = sint ?k + sint lo" using bounds by (intro sint_plus_i64) linarith+
    moreover have "RandBetween rnd a b = Some (?k + lo)" using pos unfolding rb by (simp add: Intn_def)
    ultimately show ?thesis unfolding ends using k bounds by simp
  qed
qed

theorem RandBetween_in_range_witness:
  "(case RandBetween (\<lambda>_. 0) 9 4 of Some k \<Rightarrow> sint k = 4 | None \<Rightarrow> False)
   \<and> min (sint (9 :: i64)) (sint (4 :: i64)) \<le> sint (the (RandBetween (\<lambda>_. 0) 9 4))"
proof -
  have "RandBetween (\<lambda>_. 0) 9 4 = Some 4" by (simp add: RandBetween_def Intn_def)
  with RandBetween_in_range [of "\<lambda>_. 0" 9 4] show ?thesis by simp
qed

end
