(* ===== verification/Processor.thy ===== *)
theory Processor
  imports Common Assoc "HOL-Library.Multiset" "HOL-Library.Signed_Division"
begin

text \<open>
  The message processor, \<open>process/processor.go\<close>, and its performance records,
  \<open>process/perf_recorder.go\<close>: registration and dispatch of handlers, the limits around the
  protobuf codec, and the statistics that \<open>Dump\<close> prints.
\<close>

section \<open>State\<close>

record perfRecorder =
  pr_msgID :: u32
  pr_name :: string
  pr_totalTime :: i64
  pr_count :: i32
  pr_maxTime :: i64

text \<open>
  A handler maps the controller and the message to a message or nil; \<open>None\<close> is a panic of the
  handler. A registered handler may be nil: calling it panics. The maps are nil before \<open>Init\<close>.
\<close>

type_synonym 'c DisposeFunc = "'c \<Rightarrow> Msg \<Rightarrow> Msg option option"

record 'c Processor =
  pc_msgInfos :: "(u32 \<times> 'c DisposeFunc option) list option"
  pc_perfRecorder :: "(u32 \<times> perfRecorder) list option"
  pc_EnablePerf :: bool
  pc_MaxPacketSize :: u32

datatype proc_error = MessageIsNil | MarshalFailed | DataTooShort nat | UnmarshalFailed

section \<open>Operations\<close>

definition NewProcessor :: "'c Processor" where
  "NewProcessor = \<lparr>pc_msgInfos = None, pc_perfRecorder = None, pc_EnablePerf = False, pc_MaxPacketSize = 4096\<rparr>"

text \<open>\<open>Init\<close>: the packet size of the options is an \<open>int64\<close>, of which the low 32 bits are kept.\<close>

definition Processor_Init :: "i64 \<Rightarrow> 'c Processor \<Rightarrow> 'c Processor" where
  "Processor_Init maxPacket p = p\<lparr>pc_msgInfos := Some [], pc_perfRecorder := Some [], pc_EnablePerf := False,
     pc_MaxPacketSize := ucast maxPacket\<rparr>"

text \<open>The codec is the protobuf library; a packet that is too long is only logged.\<close>

definition Marshal :: "(Msg \<Rightarrow> string option) \<Rightarrow> Msg option \<Rightarrow> proc_error + string" where
  "Marshal enc msg = (case msg of
     None \<Rightarrow> Inl MessageIsNil
   | Some m \<Rightarrow> (case enc m of None \<Rightarrow> Inl MarshalFailed | Some data \<Rightarrow> Inr data))"

definition Unmarshal :: "(string \<Rightarrow> Msg option) \<Rightarrow> string \<Rightarrow> proc_error + Msg" where
  "Unmarshal dec data =
     (if length data < 2 then Inl (DataTooShort (length data))
      else (case dec data of None \<Rightarrow> Inl UnmarshalFailed | Some m \<Rightarrow> Inr m))"

text \<open>\<open>Register\<close>; an assignment into a nil map panics.\<close>

definition Register :: "u32 \<Rightarrow> 'c DisposeFunc option \<Rightarrow> 'c Processor \<Rightarrow> 'c Processor option" where
  "Register mid h p =
     (if map_of (case pc_msgInfos p of None \<Rightarrow> [] | Some infos \<Rightarrow> infos) mid \<noteq> None then Some p
      else (case pc_msgInfos p of
              None \<Rightarrow> None
            | Some infos \<Rightarrow> Some (p\<lparr>pc_msgInfos := Some (AList.update mid h infos)\<rparr>)))"

text \<open>The update of a record by one call that took \<open>dur\<close> nanoseconds.\<close>

definition record_call :: "perfRecorder \<Rightarrow> i64 \<Rightarrow> perfRecorder" where
  "record_call r dur =
     (let r1 = (if sint dur > sint (pr_maxTime r) then r\<lparr>pr_maxTime := dur\<rparr> else r)
      in r1\<lparr>pr_count := pr_count r1 + 1, pr_totalTime := pr_totalTime r1 + dur\<rparr>)"

definition Record :: "i64 \<Rightarrow> u32 \<Rightarrow> string \<Rightarrow> 'c Processor \<Rightarrow> 'c Processor option" where
  "Record dur msgId msgName p =
     (if \<not> pc_EnablePerf p then Some p
      else do {
        recs \<leftarrow> pc_perfRecorder p;
        let r = (case map_of recs msgId of
                   Some r \<Rightarrow> r
                 | None \<Rightarrow> \<lparr>pr_msgID = msgId, pr_name = msgName, pr_totalTime = 0, pr_count = 0, pr_maxTime = 0\<rparr>);
        Some (p\<lparr>pc_perfRecorder := Some (AList.update msgId (record_call r dur) recs)\<rparr>)
      })"

text \<open>
  \<open>HandleMsg\<close>: a panic of the handler is recovered and nothing is recorded. The recovery reads the
  id of the message again, so that a nil message panics.
\<close>

definition HandleMsg :: "'c \<Rightarrow> i64 \<Rightarrow> Msg option \<Rightarrow> 'c Processor \<Rightarrow> ('c Processor \<times> Msg option) option" where
  "HandleMsg ctl dur msg p = do {
     m \<leftarrow> msg;
     let rst = (case map_of (case pc_msgInfos p of None \<Rightarrow> [] | Some infos \<Rightarrow> infos) (ID m) of
                  None \<Rightarrow> Some None
                | Some None \<Rightarrow> None
                | Some (Some h) \<Rightarrow> h ctl m);
     (case rst of
        None \<Rightarrow> Some (p, None)
      | Some ret \<Rightarrow> do { p1 \<leftarrow> Record dur (ID m) [] p; Some (p1, ret) })
   }"

definition GetMsgInfo :: "u32 \<Rightarrow> 'c Processor \<Rightarrow> 'c DisposeFunc option option" where
  "GetMsgInfo mid p = map_of (case pc_msgInfos p of None \<Rightarrow> [] | Some infos \<Rightarrow> infos) mid"

section \<open>Sorting\<close>

text \<open>
  \<open>sort.Sort\<close> with an order: the elements in ascending order. The library does not say in which
  order equal elements come; here they keep theirs.
\<close>

fun insert_by :: "('a \<Rightarrow> 'a \<Rightarrow> bool) \<Rightarrow> 'a \<Rightarrow> 'a list \<Rightarrow> 'a list" where
  "insert_by lt x [] = [x]"
| "insert_by lt x (y # ys) = (if lt y x then y # insert_by lt x ys else x # y # ys)"

definition SortBy :: "('a \<Rightarrow> 'a \<Rightarrow> bool) \<Rightarrow> 'a list \<Rightarrow> 'a list" where
  "SortBy lt xs = foldr (insert_by lt) xs []"

section \<open>The dump\<close>

text \<open>
  The three tables of \<open>Dump\<close>, each the records with the number they are printed under; in the first
  one the average is computed with an integer division, which panics for a count of 0, and the
  records with a count of 0 are left out.
\<close>

definition average :: "perfRecorder \<Rightarrow> i64" where
  "average r = word_of_int (sint (pr_totalTime r) sdiv sint (pr_count r))"

definition averageTime :: "perfRecorder \<Rightarrow> perfRecorder \<Rightarrow> bool" where
  "averageTime p1 p2 \<longleftrightarrow> sint (average p1) > sint (average p2)"

definition maxTime :: "perfRecorder \<Rightarrow> perfRecorder \<Rightarrow> bool" where
  "maxTime p1 p2 \<longleftrightarrow> sint (pr_maxTime p1) > sint (pr_maxTime p2)"

definition by_count :: "perfRecorder \<Rightarrow> perfRecorder \<Rightarrow> bool" where
  "by_count p1 p2 \<longleftrightarrow> sint (pr_count p1) > sint (pr_count p2)"

definition numbered :: "'a list \<Rightarrow> (nat \<times> 'a) list" where
  "numbered xs = enumerate 1 xs"

definition Dump :: "'c Processor \<Rightarrow> ((nat \<times> perfRecorder) list \<times> (nat \<times> perfRecorder) list \<times> (nat \<times> perfRecorder) list) option" where
  "Dump p =
     (if \<not> pc_EnablePerf p then Some ([], [], [])
      else
        let records = (case pc_perfRecorder p of None \<Rightarrow> [] | Some recs \<Rightarrow> map snd recs)
        in if length records > 1 \<and> (\<exists>r \<in> set records. pr_count r = 0) then None
           else
             let r1 = SortBy averageTime records; r2 = SortBy maxTime r1; r3 = SortBy by_count r2
             in Some (filter (\<lambda>(i, r). pr_count r \<noteq> 0) (numbered r1), numbered r2, numbered r3))"


section \<open>Registration and dispatch\<close>

fun register_all :: "(u32 \<times> 'c DisposeFunc option) list \<Rightarrow> 'c Processor \<Rightarrow> 'c Processor option" where
  "register_all [] p = Some p"
| "register_all ((mid, h) # regs) p = do { p1 \<leftarrow> Register mid h p; register_all regs p1 }"

lemma register_all_infos:
  "pc_msgInfos p = Some infos \<Longrightarrow> \<exists>p' infos'. register_all regs p = Some p'
    \<and> pc_msgInfos p' = Some infos' \<and> map_of infos' = map_of regs ++ map_of infos \<and> pc_EnablePerf p' = pc_EnablePerf p"
proof (induction regs arbitrary: p infos)
  case (Cons reg regs)
  obtain mid h where reg: "reg = (mid, h)" by (cases reg)
  show ?case
  proof (cases "map_of infos mid")
    case None
    let ?p = "p\<lparr>pc_msgInfos := Some (AList.update mid h infos)\<rparr>"
    have "Register mid h p = Some ?p" using Cons.prems None by (simp add: Register_def)
    moreover obtain p' infos' where "register_all regs ?p = Some p'" "pc_msgInfos p' = Some infos'"
      "map_of infos' = map_of regs ++ (map_of infos)(mid \<mapsto> h)" "pc_EnablePerf p' = pc_EnablePerf p"
      using Cons.IH [of ?p "AList.update mid h infos"] by (auto simp: update_conv' fun_upd_def)
    moreover have "map_of regs ++ (map_of infos)(mid \<mapsto> h) = map_of (reg # regs) ++ map_of infos"
      using None by (auto simp: reg map_add_def split: option.splits)
    ultimately show ?thesis by (simp add: reg fun_upd_def)
  next
    case (Some h')
    then have "Register mid h p = Some p" using Cons.prems by (simp add: Register_def)
    moreover have "map_of regs ++ map_of infos = map_of (reg # regs) ++ map_of infos"
      using Some by (auto simp: reg map_add_def split: option.splits)
    ultimately show ?thesis using Cons.IH [OF Cons.prems] by (simp add: reg fun_upd_def)
  qed
qed simp

text \<open>
  After \<open>Init\<close>, any registrations succeed, and every message is handled by the first handler that
  was registered for its id: its answer is returned, and nil when there is no handler, when the
  handler is nil, or when it panics. A message is never lost to a panic of its handler.
\<close>

theorem HandleMsg_calls_first_handler:
  "\<exists>p. register_all regs (Processor_Init maxPacket p0) = Some p
    \<and> (\<forall>ctl dur m. \<exists>p'. HandleMsg ctl dur (Some m) p = Some (p', case map_of regs (ID m) of
          Some (Some h) \<Rightarrow> (case h ctl m of Some ret \<Rightarrow> ret | None \<Rightarrow> None) | _ \<Rightarrow> None))"
proof -
  have "pc_msgInfos (Processor_Init maxPacket p0) = Some []" by (simp add: Processor_Init_def)
  from register_all_infos [OF this, of regs] obtain p infos where p: "register_all regs (Processor_Init maxPacket p0) = Some p"
    "pc_msgInfos p = Some infos" "map_of infos = map_of regs" "\<not> pc_EnablePerf p"
    by (auto simp: Processor_Init_def)
  then show ?thesis
    by (intro exI [of _ p])
      (auto simp: HandleMsg_def Record_def Let_def split: option.splits)
qed

section \<open>Performance records\<close>

fun record_all :: "(u32 \<times> i64) list \<Rightarrow> 'c Processor \<Rightarrow> 'c Processor option" where
  "record_all [] p = Some p"
| "record_all ((mid, dur) # cs) p = do { p1 \<leftarrow> Record dur mid [] p; record_all cs p1 }"

definition durations :: "u32 \<Rightarrow> (u32 \<times> i64) list \<Rightarrow> i64 list" where
  "durations mid cs = map snd (filter (\<lambda>c. fst c = mid) cs)"

text \<open>What a record says about the calls it was made of.\<close>

definition longest :: "i64 list \<Rightarrow> int" where
  "longest ds = Max (insert 0 (sint ` set ds))"

definition summary :: "u32 \<Rightarrow> i64 list \<Rightarrow> perfRecorder option \<Rightarrow> bool" where
  "summary mid ds r \<longleftrightarrow> (case r of None \<Rightarrow> ds = []
     | Some r \<Rightarrow> ds \<noteq> [] \<and> pr_msgID r = mid \<and> pr_count r = of_nat (length ds) \<and> pr_totalTime r = sum_list ds
         \<and> sint (pr_maxTime r) = longest ds)"

lemma longest_snoc: "longest (ds @ [d]) = max (sint d) (longest ds)"
proof -
  have "insert 0 (sint ` set (ds @ [d])) = insert (sint d) (insert 0 (sint ` set ds))" by auto
  then show ?thesis unfolding longest_def by (simp add: Max_insert del: insert_iff)
qed

lemma summary_call:
  assumes "summary mid ds r"
  shows "summary mid (ds @ [d]) (Some (record_call (case r of Some r \<Rightarrow> r
    | None \<Rightarrow> \<lparr>pr_msgID = mid, pr_name = [], pr_totalTime = 0, pr_count = 0, pr_maxTime = 0\<rparr>) d))"
proof -
  define r0 where "r0 = (case r of Some r \<Rightarrow> r
    | None \<Rightarrow> \<lparr>pr_msgID = mid, pr_name = [], pr_totalTime = 0, pr_count = 0, pr_maxTime = 0\<rparr>)"
  have r0: "pr_msgID r0 = mid" "pr_count r0 = of_nat (length ds)" "pr_totalTime r0 = sum_list ds"
    "sint (pr_maxTime r0) = longest ds"
    using assms by (auto simp: summary_def r0_def longest_def split: option.splits)
  have "longest (ds @ [d]) = (if sint d > sint (pr_maxTime r0) then sint d else sint (pr_maxTime r0))"
    unfolding longest_snoc r0(4) by (simp add: max_def)
  then show ?thesis
    unfolding r0_def [symmetric] summary_def record_call_def Let_def option.simps
    using r0(1-3) by (simp add: algebra_simps)
qed

text \<open>
  With recording on, the record of every message id is the exact summary of the calls that were
  made: their number (as an \<open>int32\<close>), the sum of their times and the longest one.
\<close>

theorem Record_summarises_calls:
  "\<exists>p recs. record_all cs ((Processor_Init maxPacket p0)\<lparr>pc_EnablePerf := True\<rparr>) = Some p
    \<and> pc_perfRecorder p = Some recs \<and> (\<forall>mid. summary mid (durations mid cs) (map_of recs mid))"
proof -
  have run: "\<exists>p' recs'. record_all cs p = Some p' \<and> pc_perfRecorder p' = Some recs'
      \<and> (\<forall>mid. summary mid (durations mid (done @ cs)) (map_of recs' mid))"
    if "pc_EnablePerf p" "pc_perfRecorder p = Some recs" "\<forall>mid. summary mid (durations mid done) (map_of recs mid)"
    for p :: "'c Processor" and recs "done"
    using that
  proof (induction cs arbitrary: p recs "done")
    case (Cons c cs)
    obtain mid d where c: "c = (mid, d)" by (cases c)
    let ?r = "record_call (case map_of recs mid of Some r \<Rightarrow> r
      | None \<Rightarrow> \<lparr>pr_msgID = mid, pr_name = [], pr_totalTime = 0, pr_count = 0, pr_maxTime = 0\<rparr>) d"
    let ?p = "p\<lparr>pc_perfRecorder := Some (AList.update mid ?r recs)\<rparr>"
    have step: "Record d mid [] p = Some ?p"
      using Cons.prems(1,2) by (simp add: Record_def Let_def option.case_eq_if)
    have "summary m (durations m (done @ [c])) (map_of (AList.update mid ?r recs) m)" for m
      using Cons.prems(3) summary_call [of mid "durations mid done" "map_of recs mid" d]
      by (cases "m = mid") (simp_all add: c durations_def update_conv')
    with Cons.IH [of ?p "AList.update mid ?r recs" "done @ [c]"] Cons.prems(1) step show ?case
      by (simp add: c)
  qed simp
  show ?thesis
    using run [of "(Processor_Init maxPacket p0)\<lparr>pc_EnablePerf := True\<rparr>" "[]" "[]"]
    by (simp add: Processor_Init_def summary_def durations_def)
qed

section \<open>The dump\<close>

lemma mset_insert_by: "mset (insert_by lt x xs) = add_mset x (mset xs)"
  by (induction xs) auto

lemma mset_SortBy [simp]: "mset (SortBy lt xs) = mset xs"
  by (induction xs) (auto simp: SortBy_def mset_insert_by)

lemma sorted_insert_by:
  assumes "\<And>a b. lt a b \<longleftrightarrow> (f b :: int) < f a" and "sorted_wrt (\<lambda>a b. f b \<le> f a) xs"
  shows "sorted_wrt (\<lambda>a b. f b \<le> f a) (insert_by lt x xs)"
  using assms(2)
proof (induction xs)
  case (Cons y ys)
  have "set (insert_by lt x ys) = insert x (set ys)"
    using mset_insert_by [of lt x ys] by (metis set_mset_add_mset_insert set_mset_mset)
  with Cons show ?case using assms(1) [of y x] by auto
qed simp

lemma sorted_SortBy:
  assumes "\<And>a b. lt a b \<longleftrightarrow> (f b :: int) < f a"
  shows "sorted_wrt (\<lambda>a b. f b \<le> f a) (SortBy lt xs)"
  by (induction xs) (simp_all add: SortBy_def sorted_insert_by [OF assms])

lemma map_snd_numbered [simp]: "map snd (numbered xs) = xs"
  by (simp add: numbered_def)

text \<open>
  \<open>Dump\<close> prints every record in each of its tables, by descending average, longest time and number of
  calls, unless a count has wrapped to 0 with several records there, when it panics.
\<close>

theorem Dump_prints_sorted_tables:
  assumes "pc_EnablePerf p" and "pc_perfRecorder p = Some recs" and "\<forall>r \<in> snd ` set recs. pr_count r \<noteq> 0"
  shows "\<exists>t1 t2 t3. Dump p = Some (t1, t2, t3)
    \<and> mset (map snd t1) = mset (map snd recs) \<and> sorted_wrt (\<lambda>a b. sint (average b) \<le> sint (average a)) (map snd t1)
    \<and> mset (map snd t2) = mset (map snd recs) \<and> sorted_wrt (\<lambda>a b. sint (pr_maxTime b) \<le> sint (pr_maxTime a)) (map snd t2)
    \<and> mset (map snd t3) = mset (map snd recs) \<and> sorted_wrt (\<lambda>a b. sint (pr_count b) \<le> sint (pr_count a)) (map snd t3)"
proof -
  let ?r1 = "SortBy averageTime (map snd recs)"
  let ?r2 = "SortBy maxTime ?r1"
  let ?r3 = "SortBy by_count ?r2"
  have "snd ` set (numbered ?r1) = snd ` set recs"
    unfolding set_map [symmetric] map_snd_numbered by (metis mset_SortBy set_mset_mset)
  then have "\<forall>x \<in> set (numbered ?r1). pr_count (snd x) \<noteq> 0" using assms(3) by blast
  then have all: "filter (\<lambda>(i, r). pr_count r \<noteq> 0) (numbered ?r1) = numbered ?r1"
    by (intro filter_True) (simp add: case_prod_beta)
  have "Dump p = Some (numbered ?r1, numbered ?r2, numbered ?r3)"
    using assms all by (auto simp: Dump_def Let_def)
  then show ?thesis
    using sorted_SortBy [of averageTime "\<lambda>r. sint (average r)" "map snd recs"]
      sorted_SortBy [of maxTime "\<lambda>r. sint (pr_maxTime r)" ?r1]
      sorted_SortBy [of by_count "\<lambda>r. sint (pr_count r)" ?r2]
    by (simp add: averageTime_def maxTime_def by_count_def del: mset_map)
qed

theorem Dump_prints_sorted_tables_witness:
  "\<exists>t1 t2 t3. Dump (\<lparr>pc_msgInfos = Some [], pc_perfRecorder = Some
      [(1, \<lparr>pr_msgID = 1, pr_name = [], pr_totalTime = 7, pr_count = 2, pr_maxTime = 5\<rparr>),
       (2, \<lparr>pr_msgID = 2, pr_name = [], pr_totalTime = 90, pr_count = 1, pr_maxTime = 90\<rparr>)],
      pc_EnablePerf = True, pc_MaxPacketSize = 4096\<rparr> :: unit Processor) = Some (t1, t2, t3)
    \<and> size (mset (map snd t1)) = 2"
proof -
  let ?recs = "[(1 :: u32, \<lparr>pr_msgID = 1, pr_name = [], pr_totalTime = 7, pr_count = 2, pr_maxTime = 5\<rparr>),
       (2, \<lparr>pr_msgID = 2, pr_name = [], pr_totalTime = 90, pr_count = 1, pr_maxTime = 90\<rparr>)]"
  let ?p = "\<lparr>pc_msgInfos = Some [], pc_perfRecorder = Some ?recs, pc_EnablePerf = True, pc_MaxPacketSize = 4096\<rparr> :: unit Processor"
  obtain t1 t2 t3 where t: "Dump ?p = Some (t1, t2, t3)" and m: "mset (map snd t1) = mset (map snd ?recs)"
    using Dump_prints_sorted_tables [of ?p ?recs] by auto
  have "size (mset (map snd t1)) = 2" unfolding m by simp
  with t show ?thesis by blast
qed

section \<open>The codec's limits\<close>

text \<open>
  What the processor encodes it also decodes, given a codec that does, except for messages whose
  encoding is shorter than two bytes: a message whose fields all have their default values is
  encoded to nothing by protobuf, and \<open>Unmarshal\<close> rejects it.
\<close>

theorem Marshal_Unmarshal_roundtrip:
  assumes "enc m = Some data" and "dec data = Some m"
  shows "Marshal enc (Some m) = Inr data
    \<and> Unmarshal dec data = (if 2 \<le> length data then Inr m else Inl (DataTooShort (length data)))"
  using assms by (simp add: Marshal_def Unmarshal_def)

theorem Marshal_Unmarshal_roundtrip_witness:
  "Unmarshal (\<lambda>d. Some \<lparr>Seq = 0, ID = 0, Body = d, MsgKey = 0, UID = 0\<rparr>) ''ab'' = Inr \<lparr>Seq = 0, ID = 0, Body = ''ab'', MsgKey = 0, UID = 0\<rparr>
   \<and> Unmarshal (\<lambda>d. Some \<lparr>Seq = 0, ID = 0, Body = d, MsgKey = 0, UID = 0\<rparr>) [] = Inl (DataTooShort 0)"
  using Marshal_Unmarshal_roundtrip [of "\<lambda>m. Some (Body m)" "\<lparr>Seq = 0, ID = 0, Body = ''ab'', MsgKey = 0, UID = 0\<rparr>" "''ab''"
      "\<lambda>d. Some \<lparr>Seq = 0, ID = 0, Body = d, MsgKey = 0, UID = 0\<rparr>"]
    Marshal_Unmarshal_roundtrip [of "\<lambda>m. Some (Body m)" "\<lparr>Seq = 0, ID = 0, Body = [], MsgKey = 0, UID = 0\<rparr>" "[]"
      "\<lambda>d. Some \<lparr>Seq = 0, ID = 0, Body = d, MsgKey = 0, UID = 0\<rparr>"] by simp

end
