(* ===== verification/GateServer.thy ===== *)
theory GateServer
  imports SessionSpec Utils Processor
begin

text \<open>
  The server of the gate, \<open>gate/server/\<close>: its start and stop, the loop that accepts TCP connections,
  and the page that upgrades to WebSocket connections.
\<close>

section \<open>State\<close>

definition NETYPE_TCP :: string where "NETYPE_TCP = ''tcp''"
definition NETYPE_WS :: string where "NETYPE_WS = ''ws''"

text \<open>The goroutines that \<open>Start\<close> leaves running.\<close>

datatype server_task = RunTcp | RunWs | CallBackLoop

record GateServer =
  gs_Port :: string
  gs_netype :: string
  gs_listening :: bool
  gs_exitCB_closed :: bool
  gs_tasks :: "server_task list"

definition NewServer :: "Options \<Rightarrow> GateServer" where
  "NewServer opts = \<lparr>gs_Port = opt_ServerPort opts, gs_netype = [], gs_listening = False,
     gs_exitCB_closed = False, gs_tasks = []\<rparr>"

text \<open>
  The handler of heartbeats, for a controller that is a session; the message it answers is the one
  it has sent, with the user id that \<open>SendMsg\<close> puts in. It is registered with the processor under a
  controller type of its own: \<open>heartbeat\<close> is the handler as a \<open>DisposeFunc\<close>.
\<close>

definition HandleHeartBeatReq :: "Gate \<Rightarrow> World \<Rightarrow> sref \<Rightarrow> (World \<times> Msg) option" where
  "HandleHeartBeatReq g w r = do {
     s \<leftarrow> w_sessions w r;
     let rst = \<lparr>Seq = 0, ID = Msg_Heartbeat, Body = [], MsgKey = 0, UID = 0\<rparr>;
     (w1, err) \<leftarrow> SendMsg g w r rst;
     Some (w1, if ss_vrifyed s \<and> \<not> conn_down s then rst\<lparr>UID := ss_userId s\<rparr> else rst)
   }"

definition handle_Register :: "'c DisposeFunc \<Rightarrow> 'c Processor \<Rightarrow> 'c Processor option" where
  "handle_Register heartbeat p = Register Msg_Heartbeat (Some heartbeat) p"

definition Server_Start :: "Options \<Rightarrow> 'c DisposeFunc \<Rightarrow> GateServer \<times> 'c Processor \<Rightarrow> (GateServer \<times> 'c Processor) option" where
  "Server_Start opts heartbeat sp = do {
     let (s, p) = sp;
     p1 \<leftarrow> handle_Register heartbeat p;
     let s1 = s\<lparr>gs_netype := opt_NetType opts\<rparr>;
     let run = (if gs_netype s1 = NETYPE_TCP then [RunTcp] else if gs_netype s1 = NETYPE_WS then [RunWs] else []);
     Some (s1\<lparr>gs_tasks := gs_tasks s1 @ run @ [CallBackLoop]\<rparr>, p1)
   }"

text \<open>\<open>Stop\<close> closes the exit channel; closing it again panics, after the sessions have been stopped.\<close>

definition Server_Stop :: "World \<Rightarrow> GateServer \<Rightarrow> (World \<times> GateServer) option" where
  "Server_Stop w s = do {
     w1 \<leftarrow> StopAllSession w;
     let s1 = s\<lparr>gs_listening := False\<rparr>;
     if gs_exitCB_closed s1 then None else Some (w1, s1\<lparr>gs_exitCB_closed := True\<rparr>)
   }"

section \<open>Listening\<close>

text \<open>
  The first part of \<open>run_tcp\<close>: in release mode the listener uses TLS with the certificate of the working
  directory. When the certificate cannot be loaded or the port not be listened on, \<open>Fatalf\<close> of the logger
  ends the process (\<open>None\<close>). The result says whether TLS is used.
\<close>

definition tcp_listen :: "(string \<Rightarrow> string \<Rightarrow> bool) \<Rightarrow> (bool \<Rightarrow> string \<Rightarrow> bool) \<Rightarrow> Options \<Rightarrow> GateServer \<Rightarrow> (bool \<times> GateServer) option" where
  "tcp_listen loadKeyPair listen opts s =
     (if opt_RunMode opts = ''release''
      then (let confPath = opt_WorkDir opts @ ''/config/tls/'' in
        if \<not> loadKeyPair (confPath @ ''server.crt'') (confPath @ ''server.key'') then None
        else if \<not> listen True ('':'' @ gs_Port s) then None
        else Some (True, s\<lparr>gs_listening := True\<rparr>))
      else if \<not> listen False ('':'' @ gs_Port s) then None
      else Some (False, s\<lparr>gs_listening := True\<rparr>))"

text \<open>
  \<open>run_ws\<close> serves the page \<open>/newtbig\<close>, and in release mode over TLS. It sets no listener, so that \<open>Stop\<close> has
  none to close; \<open>serve\<close> says whether it returns without an error.
\<close>

record ws_server =
  ws_path :: string
  ws_addr :: string
  ws_tls :: "(string \<times> string) option"

definition run_ws :: "(ws_server \<Rightarrow> bool) \<Rightarrow> Options \<Rightarrow> GateServer \<Rightarrow> ws_server \<times> bool" where
  "run_ws serve opts s =
     (let confPath = opt_WorkDir opts @ ''/config/tls/'';
          srv = \<lparr>ws_path = ''/newtbig'', ws_addr = '':'' @ gs_Port s,
            ws_tls = (if opt_RunMode opts = ''release'' then Some (confPath @ ''server.crt'', confPath @ ''server.key'') else None)\<rparr>
      in (srv, serve srv))"

section \<open>Accepting connections\<close>

text \<open>
  What \<open>Accept\<close> answers: a connection (whose session will be the given reference), or an error,
  which may be that the listener is closed. Durations are nanoseconds.
\<close>

datatype accepted = NewConn sref | AcceptErr go_error bool

datatype listener_end = Continue | ClosedNil | ReturnErr go_error

definition next_delay :: "i64 \<Rightarrow> i64" where
  "next_delay delay =
     (let d = (if delay = 0 then 5000000 else delay * 2) in if sint d > 1000000000 then 1000000000 else d)"

record Listener =
  l_delay :: i64
  l_slept :: "i64 list"
  l_end :: listener_end

definition accept_turn :: "Gate \<Rightarrow> accepted \<Rightarrow> World \<times> Listener \<Rightarrow> (World \<times> Listener) option" where
  "accept_turn g ans wl = (let (w, l) = wl in
     (case l_end l of
        Continue \<Rightarrow>
          (case ans of
             AcceptErr err closed \<Rightarrow>
               if IsTimeoutError (Some err)
               then (let d = next_delay (l_delay l) in Some (w, l\<lparr>l_delay := d, l_slept := l_slept l @ [d]\<rparr>))
               else if closed then Some (w, l\<lparr>l_end := ClosedNil\<rparr>)
               else Some (w, l\<lparr>l_end := ReturnErr err\<rparr>)
           | NewConn r \<Rightarrow> do { w1 \<leftarrow> accept g w r; Some (w1, l\<lparr>l_delay := 0\<rparr>) })
      | _ \<Rightarrow> Some wl))"

fun run_tcp :: "Gate \<Rightarrow> accepted list \<Rightarrow> World \<times> Listener \<Rightarrow> (World \<times> Listener) option" where
  "run_tcp g [] wl = Some wl"
| "run_tcp g (a # as) wl = do { wl1 \<leftarrow> accept_turn g a wl; run_tcp g as wl1 }"

text \<open>\<open>wsPage\<close>: the connection is not accepted when it cannot be upgraded or its address not be read.\<close>

definition wsPage :: "Gate \<Rightarrow> bool \<Rightarrow> bool \<Rightarrow> World \<Rightarrow> sref \<Rightarrow> World option" where
  "wsPage g upgraded addr_ok w r =
     (if \<not> upgraded then Some w
      else if sint (Count w) > sint (opt_MaxConn (w_opts w)) then Some w
      else if \<not> addr_ok then Some w
      else accept g w r)"

section \<open>Properties\<close>

lemma next_delay_min:
  assumes "delay = 0 \<or> 5000000 \<le> sint delay \<and> sint delay \<le> 1000000000"
  shows "sint (next_delay delay) = (if delay = 0 then 5000000 else min (2 * sint delay) 1000000000)"
proof (cases "delay = 0")
  case False
  have "delay * 2 = delay + delay" by simp
  moreover have "sint (delay + delay) = sint delay + sint delay"
    using assms False by (intro sint_plus_i64) simp_all
  ultimately have "sint (delay * 2) = 2 * sint delay" by presburger
  with False show ?thesis by (simp add: next_delay_def Let_def)
qed (simp add: next_delay_def)

text \<open>
  C39. While \<open>Accept\<close> only times out, the waiting time doubles from 5 milliseconds up to one second and
  stays there; the arithmetic never overflows, and no session is touched.
\<close>

theorem accept_backoff_doubles_to_one_second:
  assumes "l_end l = Continue" and "l_delay l = 0" and "l_slept l = []"
    and "\<forall>e \<in> set errs. IsTimeoutError (Some (fst e))"
  shows "\<exists>l'. run_tcp g (map (\<lambda>(e, c). AcceptErr e c) errs) (w, l) = Some (w, l') \<and> l_end l' = Continue
    \<and> map sint (l_slept l') = map (\<lambda>i. min (5000000 * 2 ^ i) 1000000000) [0..<length errs]"
proof -
  have "\<exists>l'. run_tcp g (map (\<lambda>(e, c). AcceptErr e c) errs) (w, l) = Some (w, l') \<and> l_end l' = Continue
      \<and> map sint (l_slept l') = map (\<lambda>i. min (5000000 * 2 ^ i) 1000000000) [0..<n + length errs]"
    if "\<forall>e \<in> set errs. IsTimeoutError (Some (fst e))" "l_end l = Continue"
      "map sint (l_slept l) = map (\<lambda>i. min (5000000 * 2 ^ i) 1000000000) [0..<n]"
      "if n = 0 then l_delay l = 0 else sint (l_delay l) = min (5000000 * 2 ^ (n - 1)) 1000000000" for n l
    using that
  proof (induction errs arbitrary: n l)
    case (Cons e errs)
    obtain err c where e: "e = (err, c)" by (cases e)
    let ?d = "next_delay (l_delay l)"
    let ?l = "l\<lparr>l_delay := ?d, l_slept := l_slept l @ [?d]\<rparr>"
    have turn: "accept_turn g (AcceptErr err c) (w, l) = Some (w, ?l)"
      using Cons.prems e by (simp add: accept_turn_def Let_def)
    have d: "sint ?d = min (5000000 * 2 ^ n) 1000000000"
    proof (cases n)
      case 0
      then show ?thesis using Cons.prems(4) by (simp add: next_delay_def)
    next
      case (Suc k)
      have one: "1 \<le> (2 :: int) ^ k" by simp
      have del: "sint (l_delay l) = min (5000000 * 2 ^ k) 1000000000" using Cons.prems(4) Suc by simp
      with one have "5000000 \<le> sint (l_delay l)" "sint (l_delay l) \<le> 1000000000" by linarith+
      moreover from this have "l_delay l \<noteq> 0" by auto
      ultimately have "sint ?d = min (2 * sint (l_delay l)) 1000000000" using next_delay_min [of "l_delay l"] by simp
      also have "\<dots> = min (5000000 * 2 ^ n) 1000000000" unfolding del Suc by (simp add: min_def)
      finally show ?thesis .
    qed
    from Cons.IH [of ?l "Suc n"] Cons.prems d turn e show ?case by simp
  qed simp
  from this [of l 0] assms show ?thesis by simp
qed

theorem accept_backoff_doubles_to_one_second_witness:
  "\<exists>l'. run_tcp (open_gate 0) (replicate 10 (AcceptErr (PlainError ''i/o timeout'' (Some True)) False))
      (empty_gate default_options, \<lparr>l_delay = 0, l_slept = [], l_end = Continue\<rparr>) = Some (empty_gate default_options, l')
    \<and> sint (last (l_slept l')) = 1000000000"
proof -
  let ?errs = "replicate 10 (PlainError ''i/o timeout'' (Some True), False)"
  have "\<forall>e \<in> set ?errs. IsTimeoutError (Some (fst e))"
    by (simp add: IsTimeoutError_def Timeout_def)
  from accept_backoff_doubles_to_one_second [OF _ _ _ this,
      of "\<lparr>l_delay = 0, l_slept = [], l_end = Continue\<rparr>" "open_gate 0" "empty_gate default_options"]
  obtain l' where run: "run_tcp (open_gate 0) (map (\<lambda>(e, c). AcceptErr e c) ?errs)
      (empty_gate default_options, \<lparr>l_delay = 0, l_slept = [], l_end = Continue\<rparr>) = Some (empty_gate default_options, l')"
    and slept: "map sint (l_slept l') = map (\<lambda>i. min (5000000 * 2 ^ i) 1000000000) [0..<10]"
    by auto
  have "length (map sint (l_slept l')) = 10" unfolding slept by simp
  then have "l_slept l' \<noteq> []" by auto
  then have "sint (last (l_slept l')) = last (map sint (l_slept l'))" by (simp add: last_map)
  also have "\<dots> = 1000000000"
  proof -
    have "[0..<10] = [0..<9] @ [9 :: nat]" using upt_Suc_append [of 0 9] by simp
    then show ?thesis unfolding slept by (simp only: map_append last_append) simp
  qed
  finally show ?thesis using run by (auto simp: map_replicate)
qed

text \<open>
  The limit on connections is compared with the number of users that have logged in: connections
  that do not verify are accepted without any limit.
\<close>

theorem unverified_connections_unlimited:
  assumes "0 \<le> sint (opt_MaxConn opts)"
  shows "\<exists>w. gate_run (empty_gate opts) (map (\<lambda>r. (g, Accept r)) [0..<n]) = Some w
    \<and> dom (w_sessions w) = {0..<n} \<and> Count w = 0"
proof -
  have "\<exists>w. gate_run w0 (map (\<lambda>r. (g, Accept r)) [k..<n]) = Some w \<and> dom (w_sessions w) = {0..<n} \<and> Count w = 0"
    if "k \<le> n" "dom (w_sessions w0) = {0..<k}" "Count w0 = 0" "w_opts w0 = opts" for k w0
    using that
  proof (induction "n - k" arbitrary: k w0)
    case 0
    then show ?case by simp
  next
    case (Suc m)
    let ?s = "(NewSession g opts)\<lparr>ss_conn := Some False\<rparr>"
    let ?w = "session_upd (session_upd w0 k (NewSession g opts)) k ?s"
    have "w_sessions w0 k = None" using Suc.prems(2) by (metis atLeastLessThan_iff domIff less_irrefl)
    then have "gate_step g w0 (Accept k) = Some ?w"
      using Suc.prems assms by (simp add: gate_step_def accept_def OnStart_def)
    moreover have "dom (w_sessions ?w) = {0..<Suc k}" using Suc.prems(2) by auto
    moreover have "[k..<n] = k # [Suc k..<n]" using Suc.hyps(2) by (simp add: upt_conv_Cons)
    ultimately show ?case
      using Suc.hyps(1) [of "Suc k" ?w] Suc.hyps(2) Suc.prems by (simp add: Count_def)
  qed
  from this [of 0 "empty_gate opts"] show ?thesis by (simp add: empty_gate_def Count_def)
qed

theorem unverified_connections_unlimited_witness:
  "\<exists>w. gate_run (empty_gate (default_options\<lparr>opt_MaxConn := 0\<rparr>)) (map (\<lambda>r. (open_gate 1, Accept r)) [0..<5000]) = Some w
    \<and> dom (w_sessions w) = {0..<5000} \<and> Count w = 0"
  by (rule unverified_connections_unlimited) simp

end
