(* ===== verification/Registration.thy ===== *)
theory Registration
  imports Options Common
begin

text \<open>
  The life of a server in the registry, \<open>service/service.go\<close>: the entry it registers under, the loop
  that renews it, and the order in which a service starts and stops.
\<close>

section \<open>State\<close>

record Status =
  st_Key :: string
  st_Addr :: string
  st_Count :: u32

text \<open>
  What the service asks of the outside, where \<open>True\<close> means no error: the hooks of the server, its
  count, the encoding of the status, whether there is an etcd client, and whether \<open>Put\<close> and \<open>Delete\<close>
  of the client succeed.
\<close>

record Outside =
  o_BeforeStart :: bool
  o_Start :: bool
  o_AfterStart :: bool
  o_BeforeStop :: bool
  o_Stop :: bool
  o_AfterStop :: bool
  o_count :: u32
  o_marshal :: "Status \<Rightarrow> string option"
  o_client :: bool
  o_put :: bool
  o_delete :: bool

datatype sv_action =
    BeforeStart | StartServer | AfterStart | PutEntry | DeleteEntry | BeforeStop | StopServer | AfterStop
  | RegisterErr | RegisterTimeout | StopErr

datatype sv_error = BeforeStartErr | StartErr | MarshalErr | PutErr | AfterStartErr | DeleteErr

text \<open>The service, with the entries of the registry and what it did, in order.\<close>

record sv_state =
  sv_Status :: Status
  sv_kv :: "string \<rightharpoonup> string"
  sv_trace :: "sv_action list"

abbreviation act :: "sv_action \<Rightarrow> sv_state \<Rightarrow> sv_state" where
  "act a s \<equiv> s\<lparr>sv_trace := sv_trace s @ [a]\<rparr>"

section \<open>Operations\<close>

definition NewService :: "Options \<Rightarrow> (string \<rightharpoonup> string) \<Rightarrow> sv_state" where
  "NewService opts kv =
     (let key = opt_AppName opts @ ''/'' @ opt_ServerType opts @ ''/'' @ opt_ServerName opts;
          addr = opt_ServerIPOut opts @ '':'' @ opt_ServerPort opts
      in \<lparr>sv_Status = \<lparr>st_Key = key, st_Addr = addr, st_Count = 0\<rparr>, sv_kv = kv, sv_trace = []\<rparr>)"

definition register :: "Outside \<Rightarrow> sv_state \<Rightarrow> sv_state \<times> sv_error option" where
  "register out s =
     (let s1 = s\<lparr>sv_Status := (sv_Status s)\<lparr>st_Count := o_count out\<rparr>\<rparr>
      in (case o_marshal out (sv_Status s1) of
            None \<Rightarrow> (s1, Some MarshalErr)
          | Some data \<Rightarrow>
              if o_put out then (act PutEntry (s1\<lparr>sv_kv := (sv_kv s1)(st_Key (sv_Status s1) \<mapsto> data)\<rparr>), None)
              else (s1, Some PutErr)))"

definition deregister :: "Outside \<Rightarrow> sv_state \<Rightarrow> sv_state \<times> sv_error option" where
  "deregister out s =
     (if o_client out
      then if o_delete out then (act DeleteEntry (s\<lparr>sv_kv := (sv_kv s)(st_Key (sv_Status s) := None)\<rparr>), None)
           else (s, Some DeleteErr)
      else (s, None))"

text \<open>
  One tick of \<open>run\<close>: the number of failures is counted up, compared with the limit, and set back to
  0 at the end of every tick.
\<close>

definition run_tick :: "Options \<Rightarrow> Outside \<Rightarrow> int \<times> sv_state \<Rightarrow> int \<times> sv_state" where
  "run_tick opts out rs =
     (let (registeTime, s) = rs; (s1, err) = register out s
      in if err \<noteq> None
         then let s2 = act RegisterErr s1; t = registeTime + 1;
                  s3 = (if t > sint (opt_RegisterTTL opts) then act RegisterTimeout s2 else s2)
              in (0, s3)
         else (0, s1))"

definition run :: "Options \<Rightarrow> Outside list \<Rightarrow> sv_state \<Rightarrow> sv_state" where
  "run opts ticks s =
     (if sint (opt_RegisterInterval opts) \<le> 0 then s
      else snd (foldl (\<lambda>rs out. run_tick opts out rs) (0, s) ticks))"

definition Start :: "Outside \<Rightarrow> sv_state \<Rightarrow> sv_state \<times> sv_error option" where
  "Start out s =
     (let s1 = act BeforeStart s in
      if \<not> o_BeforeStart out then (s1, Some BeforeStartErr)
      else let s2 = act StartServer s1 in
      if \<not> o_Start out then (s2, Some StartErr)
      else let (s3, err) = register out s2 in
      if err \<noteq> None then (s3, err)
      else let s4 = act AfterStart s3 in
      if \<not> o_AfterStart out then (s4, Some AfterStartErr)
      else (s4, None))"

definition warn_if :: "bool \<Rightarrow> sv_state \<Rightarrow> sv_state" where
  "warn_if b s = (if b then act StopErr s else s)"

definition Stop :: "Outside \<Rightarrow> sv_state \<Rightarrow> sv_state" where
  "Stop out s =
     (let s1 = warn_if (\<not> o_BeforeStop out) (act BeforeStop s);
          (s2, err) = deregister out s1;
          s3 = warn_if (err \<noteq> None) s2;
          s4 = warn_if (\<not> o_Stop out) (act StopServer s3)
      in warn_if (\<not> o_AfterStop out) (act AfterStop s4))"

text \<open>
  \<open>Run\<close>: the ticks are those before the context is done; an error of the start is returned as it is.
\<close>

definition Run :: "Options \<Rightarrow> Outside \<Rightarrow> Outside list \<Rightarrow> Outside \<Rightarrow> sv_state \<Rightarrow> sv_state \<times> sv_error option" where
  "Run opts out ticks fin s =
     (let (s1, err) = Start out s
      in if err \<noteq> None then (s1, err) else (Stop fin (run opts ticks s1), None))"

section \<open>The registry entry\<close>

text \<open>What the ticks leave in the registry: the status with the count of the last tick that got through.\<close>

definition put_entry :: "Status \<Rightarrow> Outside \<Rightarrow> (string \<rightharpoonup> string) \<Rightarrow> string \<rightharpoonup> string" where
  "put_entry st out kv = (case o_marshal out (st\<lparr>st_Count := o_count out\<rparr>) of
     Some data \<Rightarrow> if o_put out then kv(st_Key st \<mapsto> data) else kv | None \<Rightarrow> kv)"

definition entry_after :: "Status \<Rightarrow> (string \<rightharpoonup> string) \<Rightarrow> Outside list \<Rightarrow> string \<rightharpoonup> string" where
  "entry_after st kv outs = fold (put_entry st) outs kv"

lemma warn_if_fields [simp]:
  "sv_Status (warn_if b s) = sv_Status s" "sv_kv (warn_if b s) = sv_kv s"
  by (simp_all add: warn_if_def)

lemma register_fields:
  assumes "register out s = (s', err)"
  shows "st_Key (sv_Status s') = st_Key (sv_Status s)" "st_Addr (sv_Status s') = st_Addr (sv_Status s)"
    "sv_kv s' = put_entry (sv_Status s) out (sv_kv s)"
    "err = None \<longleftrightarrow> (o_put out \<and> o_marshal out ((sv_Status s)\<lparr>st_Count := o_count out\<rparr>) \<noteq> None)"
  using assms by (auto simp: register_def put_entry_def Let_def split: option.splits if_splits)

lemma put_entry_count [simp]: "put_entry (st\<lparr>st_Count := n\<rparr>) = put_entry st"
  by (intro ext) (simp add: put_entry_def split: option.split)

lemma entry_after_simps [simp]:
  "entry_after st kv [] = kv" "entry_after st kv (out # outs) = entry_after st (put_entry st out kv) outs"
  by (simp_all add: entry_after_def)

lemma entry_after_count [simp]: "entry_after (st\<lparr>st_Count := n\<rparr>) kv outs = entry_after st kv outs"
  by (simp add: entry_after_def)

lemma status_eq: "st_Key a = st_Key b \<Longrightarrow> st_Addr a = st_Addr b \<Longrightarrow> a = b\<lparr>st_Count := st_Count (a :: Status)\<rparr>"
  by (cases a, cases b) simp


definition same_entry :: "sv_state \<Rightarrow> sv_state \<Rightarrow> bool" where
  "same_entry s s' \<longleftrightarrow> st_Key (sv_Status s') = st_Key (sv_Status s) \<and> st_Addr (sv_Status s') = st_Addr (sv_Status s)"

lemma entry_after_same:
  assumes "same_entry s s'"
  shows "entry_after (sv_Status s') kv outs = entry_after (sv_Status s) kv outs"
  using assms status_eq [of "sv_Status s'" "sv_Status s"] by (metis same_entry_def entry_after_count)

lemma run_tick_entry:
  assumes "run_tick opts out (t, s) = (t', s')"
  shows "same_entry s s'" "sv_kv s' = put_entry (sv_Status s) out (sv_kv s)" "t' = 0"
proof -
  obtain s1 err where reg: "register out s = (s1, err)" by force
  note r = register_fields [OF reg]
  show "same_entry s s'" "sv_kv s' = put_entry (sv_Status s) out (sv_kv s)" "t' = 0"
    using assms r by (auto simp: run_tick_def reg Let_def same_entry_def split: if_splits)
qed

lemma run_entry:
  assumes "0 < sint (opt_RegisterInterval opts)"
  shows "same_entry s (run opts ticks s)" "sv_kv (run opts ticks s) = entry_after (sv_Status s) (sv_kv s) ticks"
proof -
  have "same_entry s (snd (foldl (\<lambda>rs out. run_tick opts out rs) (t, s) ticks))
    \<and> sv_kv (snd (foldl (\<lambda>rs out. run_tick opts out rs) (t, s) ticks)) = entry_after (sv_Status s) (sv_kv s) ticks" for t
  proof (induction ticks arbitrary: t s)
    case (Cons out ticks)
    obtain t1 s1 where tick: "run_tick opts out (t, s) = (t1, s1)" by force
    note e = run_tick_entry [OF tick]
    have "entry_after (sv_Status s1) (sv_kv s1) ticks = entry_after (sv_Status s) (sv_kv s) (out # ticks)"
      using e(2) entry_after_same [OF e(1)] by simp
    with Cons.IH [where t = t1 and s = s1] e(1) show ?case
      by (simp add: tick same_entry_def)
  qed (simp add: same_entry_def)
  then show "same_entry s (run opts ticks s)" "sv_kv (run opts ticks s) = entry_after (sv_Status s) (sv_kv s) ticks"
    using assms by (simp_all add: run_def)
qed

text \<open>
  What a service leaves in the registry. When it starts, the entry is kept up with the last tick
  that got through, and it is deleted at the end if the registry can be reached. When it fails to
  start it leaves the registry alone, except when the last hook, \<open>AfterStart\<close>, fails: the entry has
  been put by then, and is not taken back.
\<close>

theorem Run_registry_entry:
  assumes "0 < sint (opt_RegisterInterval opts)" and "s = NewService opts kv"
    and "Run opts out ticks fin s = (s', err)"
  shows "(err = None \<longrightarrow> sv_kv s' = (let kv1 = entry_after (sv_Status s) kv (out # ticks)
      in if o_client fin \<and> o_delete fin then kv1(st_Key (sv_Status s) := None) else kv1))
    \<and> (err = Some AfterStartErr \<longrightarrow> sv_kv s' (st_Key (sv_Status s)) \<noteq> None)
    \<and> (err \<noteq> None \<and> err \<noteq> Some AfterStartErr \<longrightarrow> sv_kv s' = kv)"
proof -
  obtain s1 err1 where start: "Start out s = (s1, err1)" by force
  let ?s2 = "s\<lparr>sv_trace := sv_trace s @ [BeforeStart, StartServer]\<rparr>"
  obtain s3 err3 where reg: "register out ?s2 = (s3, err3)" by force
  note r = register_fields [OF reg]
  have kv: "sv_kv s = kv" by (simp add: assms(2) NewService_def Let_def)
  have kv3: "sv_kv s3 = put_entry (sv_Status s) out kv" using r(3) kv by simp
  show ?thesis
  proof (cases err1)
    case (Some e)
    then have s': "s' = s1" "err = Some e" using assms(3) start by (simp_all add: Run_def)
    have "err3 \<noteq> None \<Longrightarrow> sv_kv s3 = kv \<and> err3 \<noteq> Some AfterStartErr"
      using reg kv by (auto simp: register_def Let_def split: option.splits if_splits)
    moreover have "err3 = None \<Longrightarrow> sv_kv s3 (st_Key (sv_Status s)) \<noteq> None"
      using r(4) kv3 by (auto simp: put_entry_def)
    ultimately show ?thesis
      using start Some kv unfolding s' by (auto simp: Start_def Let_def reg split: if_splits)
  next
    case None
    then have "err3 = None" and s1: "s1 = act AfterStart s3"
      using start by (auto simp: Start_def Let_def reg split: if_splits)
    have same: "same_entry s s1" using r(1,2) s1 by (simp add: same_entry_def)
    have s': "s' = Stop fin (run opts ticks s1)" "err = None" using assms(3) start None by (simp_all add: Run_def)
    note e = run_entry [OF assms(1), where s = s1 and ticks = ticks]
    have "sv_kv (run opts ticks s1) = entry_after (sv_Status s) kv (out # ticks)"
      using e(2) kv3 s1 entry_after_same [OF same] by simp
    moreover have "st_Key (sv_Status (run opts ticks s1)) = st_Key (sv_Status s)"
      using e(1) same by (simp add: same_entry_def)
    ultimately show ?thesis unfolding s' by (simp add: Stop_def deregister_def Let_def)
  qed
qed

definition all_well :: Outside where
  "all_well = \<lparr>o_BeforeStart = True, o_Start = True, o_AfterStart = True, o_BeforeStop = True, o_Stop = True,
     o_AfterStop = True, o_count = 3, o_marshal = (\<lambda>st. Some (st_Addr st)), o_client = True, o_put = True, o_delete = True\<rparr>"

theorem Run_registry_entry_witness:
  "\<exists>s'. Run default_options (all_well\<lparr>o_AfterStart := False\<rparr>) [] all_well (NewService default_options Map.empty)
      = (s', Some AfterStartErr) \<and> sv_kv s' ''//'' \<noteq> None"
proof -
  let ?s = "NewService default_options Map.empty"
  obtain s' where run: "Run default_options (all_well\<lparr>o_AfterStart := False\<rparr>) [] all_well ?s = (s', Some AfterStartErr)"
    by (simp add: Run_def Start_def register_def all_well_def Let_def)
  have "st_Key (sv_Status ?s) = ''//''" by (simp add: NewService_def default_options_def Let_def)
  with Run_registry_entry [OF _ refl run] run show ?thesis
    by (simp add: default_options_def)
qed

text \<open>
  The loop reports a timeout of the registration after more failures in a row than the limit
  allows; but the number is set back on every tick, also after a failure, so that with a limit
  of one or more no number of failures is ever reported.
\<close>

theorem register_timeout_never_reported:
  assumes "1 \<le> sint (opt_RegisterTTL opts)" and "RegisterTimeout \<notin> set (sv_trace s)"
  shows "RegisterTimeout \<notin> set (sv_trace (run opts ticks s))"
proof -
  have "RegisterTimeout \<notin> set (sv_trace (snd (foldl (\<lambda>rs out. run_tick opts out rs) (0, s) ticks)))"
    using assms(2)
  proof (induction ticks arbitrary: s)
    case (Cons out ticks)
    obtain t1 s1 where tick: "run_tick opts out (0, s) = (t1, s1)" by force
    have "RegisterTimeout \<notin> set (sv_trace s1)"
      using tick assms(1) Cons.prems
      by (auto simp: run_tick_def register_def Let_def split: if_splits option.splits)
    with Cons.IH run_tick_entry(3) [OF tick] show ?case by (simp add: tick)
  qed simp
  then show ?thesis using assms(2) by (simp add: run_def)
qed

theorem register_timeout_never_reported_witness:
  "RegisterTimeout \<notin> set (sv_trace (run default_options (replicate 100 (all_well\<lparr>o_put := False\<rparr>))
     (NewService default_options Map.empty)))"
  by (rule register_timeout_never_reported) (simp_all add: default_options_def NewService_def Let_def)

text \<open>
  A service that stops takes its entry out of the registry before the server stops, and does all
  four steps even when some of them fail.
\<close>

theorem Stop_deregisters_first:
  assumes "o_client out" and "o_delete out"
  shows "\<exists>tr. sv_trace (Stop out s) = sv_trace s @ tr
    \<and> filter (\<lambda>a. a \<noteq> StopErr) tr = [BeforeStop, DeleteEntry, StopServer, AfterStop]
    \<and> length (filter (\<lambda>a. a = StopErr) tr)
      = length (filter Not [o_BeforeStop out, o_Stop out, o_AfterStop out])"
  using assms by (simp add: Stop_def deregister_def warn_if_def Let_def)

theorem Stop_deregisters_first_witness:
  "\<exists>tr. sv_trace (Stop (all_well\<lparr>o_Stop := False\<rparr>) (NewService default_options Map.empty)) = tr
    \<and> filter (\<lambda>a. a \<noteq> StopErr) tr = [BeforeStop, DeleteEntry, StopServer, AfterStop]"
  using Stop_deregisters_first [of "all_well\<lparr>o_Stop := False\<rparr>" "NewService default_options Map.empty"]
  by (simp add: all_well_def NewService_def Let_def)

end
