(* ===== verification/Rpc.thy ===== *)
theory Rpc
  imports Session Processor
begin

text \<open>
  The RPC client on NATS, \<open>rpc/rpc.go\<close> and \<open>rpc/mq/\<close>: the subjects a server listens on, publishing and
  requesting, the handlers of what arrives, and closing. The NATS library and the protobuf codec
  are outside: what they answer is given. As for the sessions, \<open>None\<close> means that an operation
  cannot complete: it panics, or sends to a full channel.
\<close>

section \<open>State\<close>

record NatsClient =
  nc_root :: string
  nc_key :: string
  nc_pubKey :: string
  nc_reqKey :: string
  nc_bcKey :: string
  nc_sendKey :: string
  nc_streamSubs :: "string list"
  nc_QMsgLen :: u32
  nc_callBack :: "Msg list"
  nc_msg_send_chan :: "(string \<times> string) list"
  nc_closed :: bool
  nc_conn_closed :: bool

datatype rpc_error =
    HostsNil | ConnectErr | JetStreamErr | EncodeErr | DecodeErr | PublishErr | RequestErr
  | DataNil | SubjectErr string | GateErr session_error | SubscribeErr string | SubscriptionNil string

text \<open>The list of hosts as one string.\<close>

fun join_hosts :: "string \<Rightarrow> string list \<Rightarrow> string" where
  "join_hosts acc [] = acc"
| "join_hosts acc (h # hs) = join_hosts (acc @ '',nats://'' @ h) hs"

definition nats_hosts :: "string list \<Rightarrow> string" where
  "nats_hosts hosts = (case hosts of [] \<Rightarrow> [] | h # hs \<Rightarrow> join_hosts (''nats://'' @ h) hs)"

definition nats_Init :: "Options \<Rightarrow> NatsClient" where
  "nats_Init opts =
     (let root = opt_AppName opts @ ''.'' @ opt_ServerType opts;
          key = root @ ''.'' @ opt_ServerName opts
      in \<lparr>nc_root = root, nc_key = key,
          nc_pubKey = key @ ''.'' @ PUBLISH,
          nc_reqKey = key @ ''_'' @ REQUEST,
          nc_bcKey = key @ ''.'' @ BROATCAST,
          nc_sendKey = key @ ''_'' @ SEND,
          nc_streamSubs = [root @ ''.*''],
          nc_QMsgLen = opt_QMsgLen opts, nc_callBack = [], nc_msg_send_chan = [], nc_closed = False,
          nc_conn_closed = False\<rparr>)"

text \<open>\<open>connect\<close> and \<open>jetstream\<close> say whether the library connects to the hosts and has a stream context.\<close>

definition NewNatsClient :: "(string \<Rightarrow> bool) \<Rightarrow> bool \<Rightarrow> Options \<Rightarrow> rpc_error + NatsClient" where
  "NewNatsClient connect jetstream opts =
     (let hosts = nats_hosts (opt_NatsHosts opts)
      in if hosts = [] then Inl HostsNil
         else if \<not> connect hosts then Inl ConnectErr
         else if \<not> jetstream then Inl JetStreamErr
         else Inr (nats_Init opts))"

section \<open>Sending\<close>

definition PublishMsg :: "(Msg \<Rightarrow> string option) \<Rightarrow> (string \<Rightarrow> string \<Rightarrow> bool) \<Rightarrow> string \<Rightarrow> Msg \<Rightarrow> rpc_error option" where
  "PublishMsg enc publish subj msg = (case enc msg of
     None \<Rightarrow> Some EncodeErr
   | Some data \<Rightarrow> if publish subj data then None else Some PublishErr)"

definition Publish :: "(string \<Rightarrow> string \<Rightarrow> bool) \<Rightarrow> string \<Rightarrow> string \<Rightarrow> rpc_error option" where
  "Publish publish subj data = (if publish subj data then None else Some PublishErr)"

definition RequestMsg :: "(Msg \<Rightarrow> string option) \<Rightarrow> (string \<Rightarrow> Msg option) \<Rightarrow> (string \<Rightarrow> string \<Rightarrow> string option)
    \<Rightarrow> string \<Rightarrow> Msg \<Rightarrow> rpc_error + Msg" where
  "RequestMsg enc dec request subj msg = (case enc msg of
     None \<Rightarrow> Inl EncodeErr
   | Some data \<Rightarrow> (case request subj data of
       None \<Rightarrow> Inl RequestErr
     | Some reply \<Rightarrow> (case dec reply of None \<Rightarrow> Inl DecodeErr | Some rst \<Rightarrow> Inr rst)))"

text \<open>\<open>SendMsg\<close> of the stream half queues the message for the goroutine of the stream.\<close>

definition stream_SendMsg :: "(Msg \<Rightarrow> string option) \<Rightarrow> NatsClient \<Rightarrow> string \<Rightarrow> Msg \<Rightarrow> (NatsClient \<times> rpc_error option) option" where
  "stream_SendMsg enc nc subj msg = (case enc msg of
     None \<Rightarrow> Some (nc, Some EncodeErr)
   | Some data \<Rightarrow>
       if nc_closed nc then None
       else if length (nc_msg_send_chan nc) < unat (nc_QMsgLen nc)
       then Some (nc\<lparr>nc_msg_send_chan := nc_msg_send_chan nc @ [(subj, data)]\<rparr>, None)
       else None)"

text \<open>\<open>Done\<close> closes the channels; closing them again panics.\<close>

definition Done :: "NatsClient \<Rightarrow> NatsClient option" where
  "Done nc = (if nc_closed nc then None else Some (nc\<lparr>nc_closed := True, nc_conn_closed := True\<rparr>))"

section \<open>Receiving\<close>

definition push :: "NatsClient \<Rightarrow> Msg \<Rightarrow> NatsClient option" where
  "push nc msg =
     (if nc_closed nc then None
      else if length (nc_callBack nc) < unat (nc_QMsgLen nc)
      then Some (nc\<lparr>nc_callBack := nc_callBack nc @ [msg]\<rparr>) else None)"

text \<open>The handlers; \<open>gate\<close> is \<open>IsGate\<close> of the application, and a gate works on its sessions.\<close>

definition commonHandler :: "(string \<Rightarrow> Msg option) \<Rightarrow> bool \<Rightarrow> Gate \<Rightarrow> NatsClient \<times> World \<Rightarrow> string
    \<Rightarrow> ((NatsClient \<times> World) \<times> rpc_error option) option" where
  "commonHandler dec gate g ncw data = (let (nc, w) = ncw in (case dec data of
     None \<Rightarrow> Some (ncw, Some DecodeErr)
   | Some msg \<Rightarrow>
       if gate then do { (w1, err) \<leftarrow> Receive g w msg; Some ((nc, w1), map_option GateErr err) }
       else do { nc1 \<leftarrow> push nc msg; Some ((nc1, w), None) }))"

definition broadCastHandler :: "(string \<Rightarrow> Msg option) \<Rightarrow> bool \<Rightarrow> Gate \<Rightarrow> NatsClient \<times> World \<Rightarrow> string
    \<Rightarrow> ((NatsClient \<times> World) \<times> rpc_error option) option" where
  "broadCastHandler dec gate g ncw data = (let (nc, w) = ncw in (case dec data of
     None \<Rightarrow> Some (ncw, Some DecodeErr)
   | Some msg \<Rightarrow>
       if gate then do { w1 \<leftarrow> BroatCast g w msg; Some ((nc, w1), None) }
       else do { nc1 \<leftarrow> push nc msg; Some ((nc1, w), None) }))"

definition streamHandler :: "(string \<Rightarrow> Msg option) \<Rightarrow> NatsClient \<Rightarrow> string \<Rightarrow> (NatsClient \<times> rpc_error option) option" where
  "streamHandler dec nc data = (case dec data of
     None \<Rightarrow> Some (nc, Some DecodeErr)
   | Some msg \<Rightarrow> do { nc1 \<leftarrow> push nc msg; Some (nc1, None) })"

record nats_msg =
  nm_Subject :: string
  nm_Data :: "string option"

definition handler :: "(string \<Rightarrow> Msg option) \<Rightarrow> bool \<Rightarrow> Gate \<Rightarrow> NatsClient \<times> World \<Rightarrow> nats_msg
    \<Rightarrow> ((NatsClient \<times> World) \<times> rpc_error option) option" where
  "handler dec gate g ncw m = (case nm_Data m of
     None \<Rightarrow> Some (ncw, Some DataNil)
   | Some data \<Rightarrow>
       if nm_Subject m = nc_pubKey (fst ncw) then commonHandler dec gate g ncw data
       else if nm_Subject m = nc_bcKey (fst ncw) then broadCastHandler dec gate g ncw data
       else Some (ncw, Some (SubjectErr (nm_Subject m))))"

text \<open>
  One turn of the loop of \<open>StartPublishHandle\<close>. The subscription is asked for a message for a
  minute; when that fails and the subscription is not valid any more, it is renewed, and a failed
  renewal leaves it nil, which is not valid either. Errors of the handler are logged.
\<close>

datatype next_msg = NextTimeout | NextErr | NextNil | NextMsg nats_msg

record Subscriber =
  sub_nc :: "NatsClient \<times> World"
  sub_valid :: bool
  sub_returned :: bool

text \<open>
  \<open>StartPublishHandle\<close> subscribes to every subject with one component behind the key of the server;
  \<open>subscribe\<close> answers an error (\<open>None\<close>), or whether there is a subscription.
\<close>

definition StartPublishHandle :: "(string \<Rightarrow> bool option) \<Rightarrow> NatsClient \<times> World \<Rightarrow> rpc_error + Subscriber" where
  "StartPublishHandle subscribe ncw =
     (let key = nc_key (fst ncw) @ ''.*'' in
      (case subscribe key of
         None \<Rightarrow> Inl (SubscribeErr key)
       | Some False \<Rightarrow> Inl (SubscriptionNil key)
       | Some True \<Rightarrow> Inr \<lparr>sub_nc = ncw, sub_valid = True, sub_returned = False\<rparr>))"

definition publish_turn :: "(string \<Rightarrow> Msg option) \<Rightarrow> bool \<Rightarrow> Gate \<Rightarrow> bool \<Rightarrow> next_msg \<Rightarrow> Subscriber \<Rightarrow> Subscriber option" where
  "publish_turn dec gate g resub next s =
     (if sub_returned s then Some s
      else if nc_closed (fst (sub_nc s)) then Some (s\<lparr>sub_returned := True, sub_valid := False\<rparr>)
      else (case next of
        NextMsg m \<Rightarrow> do { (ncw, err) \<leftarrow> handler dec gate g (sub_nc s) m; Some (s\<lparr>sub_nc := ncw\<rparr>) }
      | NextNil \<Rightarrow> Some s
      | _ \<Rightarrow> Some (if sub_valid s then s else s\<lparr>sub_valid := resub\<rparr>)))"

text \<open>
  The callback of \<open>StartRequestHandle\<close>: the answers it responds with. A handler that answers nil
  leaves the request without a response.
\<close>

definition request_callback :: "(string \<Rightarrow> Msg option) \<Rightarrow> (Msg \<Rightarrow> string option) \<Rightarrow> 'c \<Rightarrow> i64 \<Rightarrow> 'c Processor \<Rightarrow> string option
    \<Rightarrow> ('c Processor \<times> string list) option" where
  "request_callback dec enc ctl dur p m = (case m of
     None \<Rightarrow> Some (p, [])
   | Some data \<Rightarrow> (case dec data of
       None \<Rightarrow> Some (p, [''msg ummarshal err''])
     | Some msg \<Rightarrow> do {
         (p1, rst) \<leftarrow> HandleMsg ctl dur (Some msg) p;
         Some (p1, case rst of
           None \<Rightarrow> []
         | Some r \<Rightarrow> (case enc r of None \<Rightarrow> [''msg marshal err''] | Some answer \<Rightarrow> [answer]))
       }))"

text \<open>
  \<open>StartRequestHandle\<close> subscribes with this callback, and then waits for the client to be done, when it
  unsubscribes and returns.
\<close>

record Responder =
  rq_subject :: string
  rq_subscribed :: bool
  rq_returned :: bool

definition StartRequestHandle :: "(string \<Rightarrow> bool) \<Rightarrow> NatsClient \<Rightarrow> rpc_error + Responder" where
  "StartRequestHandle subscribe nc =
     (if \<not> subscribe (nc_reqKey nc) then Inl (SubscribeErr (nc_reqKey nc))
      else Inr \<lparr>rq_subject = nc_reqKey nc, rq_subscribed = True, rq_returned = False\<rparr>)"

definition request_wait :: "NatsClient \<Rightarrow> Responder \<Rightarrow> Responder" where
  "request_wait nc rq = (if nc_closed nc then rq\<lparr>rq_subscribed := False, rq_returned := True\<rparr> else rq)"

section \<open>Requests\<close>

text \<open>
  A request that travels to a server and back: the caller gets what the handler of the server
  answered, whenever the codec is faithful to the message and to the answer; a handler that
  answers nothing leaves the caller without a reply.
\<close>

theorem Request_roundtrip:
  assumes "enc msg = Some data" and "dec data = Some msg" and "pc_msgInfos p = Some [(ID msg, Some h)]"
    and "\<not> pc_EnablePerf p" and "h ctl msg = Some rst"
    and "\<forall>r. rst = Some r \<longrightarrow> (\<exists>answer. enc r = Some answer \<and> dec answer = Some r)"
  shows "RequestMsg enc dec (\<lambda>subj d. case request_callback dec enc ctl dur p (Some d) of
        Some (p', [answer]) \<Rightarrow> Some answer | _ \<Rightarrow> None) subj msg
      = (case rst of Some r \<Rightarrow> Inr r | None \<Rightarrow> Inl RequestErr)"
  using assms by (cases rst) (auto simp: RequestMsg_def request_callback_def HandleMsg_def Record_def Let_def)

theorem Request_roundtrip_witness:
  "RequestMsg (\<lambda>m. Some (Body m)) (\<lambda>d. Some \<lparr>Seq = 0, ID = 7, Body = d, MsgKey = 0, UID = 0\<rparr>)
      (\<lambda>subj d. case request_callback (\<lambda>d. Some \<lparr>Seq = 0, ID = 7, Body = d, MsgKey = 0, UID = 0\<rparr>) (\<lambda>m. Some (Body m)) () 0
          ((NewProcessor :: unit Processor)\<lparr>pc_msgInfos := Some [(7, Some (\<lambda>_ m. Some (Some (m\<lparr>Body := ''pong''\<rparr>))))]\<rparr>) (Some d) of
        Some (p', [answer]) \<Rightarrow> Some answer | _ \<Rightarrow> None)
      ''a.b.c_req'' \<lparr>Seq = 0, ID = 7, Body = ''ping'', MsgKey = 0, UID = 0\<rparr>
   = Inr \<lparr>Seq = 0, ID = 7, Body = ''pong'', MsgKey = 0, UID = 0\<rparr>"
  using Request_roundtrip [where enc = "\<lambda>m. Some (Body m)" and msg = "\<lparr>Seq = 0, ID = 7, Body = ''ping'', MsgKey = 0, UID = 0\<rparr>"
      and data = "''ping''" and dec = "\<lambda>d. Some \<lparr>Seq = 0, ID = 7, Body = d, MsgKey = 0, UID = 0\<rparr>"
      and p = "(NewProcessor :: unit Processor)\<lparr>pc_msgInfos := Some [(7, Some (\<lambda>_ m. Some (Some (m\<lparr>Body := ''pong''\<rparr>))))]\<rparr>"
      and h = "\<lambda>_ m. Some (Some (m\<lparr>Body := ''pong''\<rparr>))" and ctl = "()" and dur = 0
      and rst = "Some \<lparr>Seq = 0, ID = 7, Body = ''pong'', MsgKey = 0, UID = 0\<rparr>" and subj = "''a.b.c_req''"]
  by (simp add: NewProcessor_def)

section \<open>The stream queue\<close>

fun send_msgs :: "(Msg \<Rightarrow> string option) \<Rightarrow> NatsClient \<Rightarrow> (string \<times> Msg) list \<Rightarrow> NatsClient option" where
  "send_msgs enc nc [] = Some nc"
| "send_msgs enc nc ((subj, m) # ms) = do { (nc1, err) \<leftarrow> stream_SendMsg enc nc subj m; send_msgs enc nc1 ms }"

text \<open>
  Nothing in the program takes messages from the stream queue (its goroutine is never started), so
  that a client can send exactly as many messages as the queue holds: the next one blocks its
  goroutine for ever.
\<close>

theorem stream_queue_fills_up:
  assumes "\<And>m. enc m \<noteq> None"
  shows "send_msgs enc (nats_Init opts) ms \<noteq> None \<longleftrightarrow> length ms \<le> unat (opt_QMsgLen opts)"
proof -
  have "send_msgs enc nc ms \<noteq> None \<longleftrightarrow> length (nc_msg_send_chan nc) + length ms \<le> unat (nc_QMsgLen nc)"
    if "\<not> nc_closed nc" "length (nc_msg_send_chan nc) \<le> unat (nc_QMsgLen nc)" for nc
    using that
  proof (induction ms arbitrary: nc)
    case (Cons sm ms)
    obtain subj m where sm: "sm = (subj, m)" by (cases sm)
    obtain data where data: "enc m = Some data" using assms by blast
    show ?case
    proof (cases "length (nc_msg_send_chan nc) < unat (nc_QMsgLen nc)")
      case True
      with Cons.IH [of "nc\<lparr>nc_msg_send_chan := nc_msg_send_chan nc @ [(subj, data)]\<rparr>"] Cons.prems data
      show ?thesis by (simp add: sm stream_SendMsg_def)
    next
      case False
      with Cons.prems data show ?thesis by (simp add: sm stream_SendMsg_def)
    qed
  qed simp
  from this [of "nats_Init opts"] show ?thesis by (simp add: nats_Init_def Let_def)
qed

theorem stream_queue_fills_up_witness:
  "send_msgs (\<lambda>m. Some (Body m)) (nats_Init (default_options\<lparr>opt_QMsgLen := 2\<rparr>))
     (replicate 3 (''a.b.c.send'', \<lparr>Seq = 0, ID = 7, Body = ''x'', MsgKey = 0, UID = 0\<rparr>)) = None"
  using stream_queue_fills_up [of "\<lambda>m. Some (Body m)" "default_options\<lparr>opt_QMsgLen := 2\<rparr>"
    "replicate 3 (''a.b.c.send'', \<lparr>Seq = 0, ID = 7, Body = ''x'', MsgKey = 0, UID = 0\<rparr>)"] by simp

end
