(* ===== verification/RpcClient.thy ===== *)
theory RpcClient
  imports Rpc Dispatcher Runs
begin

text \<open>
  The RPC client, \<open>rpc/rpc.go\<close>, which asks the dispatcher for the server of a message and hands the
  message to NATS; and the goroutine of the stream, \<open>rpc/mq/mq_nats_stream.go\<close>. Here too \<open>None\<close> is a
  panic or a goroutine that waits for ever, and the NATS library is what it answers.
\<close>

section \<open>Calls\<close>

text \<open>The outside of the client: the codec, and publishing and requesting of the library.\<close>

record Wire =
  wr_enc :: "Msg \<Rightarrow> string option"
  wr_dec :: "string \<Rightarrow> Msg option"
  wr_publish :: "string \<Rightarrow> string \<Rightarrow> bool"
  wr_request :: "string \<Rightarrow> string \<Rightarrow> string option"

datatype call_error = DispErr disp_error | NatsErr rpc_error

text \<open>What a proxy's call does on the client: it answers an error, or nothing, or the reply of a request.\<close>

fun perform :: "Wire \<Rightarrow> NatsClient \<Rightarrow> rpc_call \<Rightarrow> (NatsClient \<times> (call_error + Msg option)) option" where
  "perform wr nc (rpc_call.SendMsg subj msg) = do {
     (nc1, err) \<leftarrow> stream_SendMsg (wr_enc wr) nc subj msg;
     Some (nc1, case err of None \<Rightarrow> Inr None | Some e \<Rightarrow> Inl (NatsErr e))
   }"
| "perform wr nc (rpc_call.PublishMsg subj msg) =
     Some (nc, case Rpc.PublishMsg (wr_enc wr) (wr_publish wr) subj msg of None \<Rightarrow> Inr None | Some e \<Rightarrow> Inl (NatsErr e))"
| "perform wr nc (rpc_call.RequestMsg subj msg) =
     Some (nc, map_sum NatsErr Some (Rpc.RequestMsg (wr_enc wr) (wr_dec wr) (wr_request wr) subj msg))"

definition routed :: "Wire \<Rightarrow> NatsClient \<Rightarrow> (disp_error + rpc_call) option
    \<Rightarrow> (NatsClient \<times> (call_error + Msg option)) option" where
  "routed wr nc r = do {
     res \<leftarrow> r;
     (case res of Inl e \<Rightarrow> Some (nc, Inl (DispErr e)) | Inr call \<Rightarrow> perform wr nc call)
   }"

definition Call :: "Wire \<Rightarrow> Dispatcher \<Rightarrow> NatsClient \<Rightarrow> Msg \<Rightarrow> (NatsClient \<times> (call_error + Msg option)) option" where
  "Call wr d nc msg = routed wr nc (Request d msg)"

definition CallNR :: "Wire \<Rightarrow> Dispatcher \<Rightarrow> NatsClient \<Rightarrow> Msg \<Rightarrow> (NatsClient \<times> (call_error + Msg option)) option" where
  "CallNR wr d nc msg = routed wr nc (Dispatch d msg)"

definition CallS :: "Wire \<Rightarrow> Dispatcher \<Rightarrow> NatsClient \<Rightarrow> Msg \<Rightarrow> (NatsClient \<times> (call_error + Msg option)) option" where
  "CallS wr d nc msg = routed wr nc (Dispatcher_SendMsg d msg)"

text \<open>A broadcast calls every proxy of the service, and drops their errors.\<close>

fun perform_all :: "Wire \<Rightarrow> NatsClient \<Rightarrow> rpc_call list \<Rightarrow> NatsClient option" where
  "perform_all wr nc [] = Some nc"
| "perform_all wr nc (c # cs) = do { (nc1, res) \<leftarrow> perform wr nc c; perform_all wr nc1 cs }"

definition CallB :: "Wire \<Rightarrow> Dispatcher \<Rightarrow> NatsClient \<Rightarrow> Msg \<Rightarrow> (NatsClient \<times> call_error option) option" where
  "CallB wr d nc msg = (case Broadcast d msg of
     Inl e \<Rightarrow> Some (nc, Some (DispErr e))
   | Inr calls \<Rightarrow> do { nc1 \<leftarrow> perform_all wr nc calls; Some (nc1, None) })"

section \<open>Start and stop\<close>

datatype rpc_task = PublishHandle | RequestHandle

record RPCClient =
  rc_nats_client :: "NatsClient option"
  rc_tasks :: "rpc_task list"

definition NewRPCClient :: "(string \<Rightarrow> bool) \<Rightarrow> bool \<Rightarrow> Options \<Rightarrow> rpc_error + RPCClient" where
  "NewRPCClient connect jetstream opts = (case NewNatsClient connect jetstream opts of
     Inl e \<Rightarrow> Inl e
   | Inr nc \<Rightarrow> Inr \<lparr>rc_nats_client = Some nc, rc_tasks = []\<rparr>)"

definition RPC_Start :: "RPCClient \<Rightarrow> RPCClient" where
  "RPC_Start c = c\<lparr>rc_tasks := rc_tasks c @ [PublishHandle, RequestHandle]\<rparr>"

definition RPC_Stop :: "RPCClient \<Rightarrow> RPCClient option" where
  "RPC_Stop c = (case rc_nats_client c of
     None \<Rightarrow> Some c
   | Some nc \<Rightarrow> map_option (\<lambda>nc1. c\<lparr>rc_nats_client := Some nc1\<rparr>) (Done nc))"

section \<open>Streams\<close>

text \<open>
  The stream context of NATS: \<open>js_info\<close> is what the library knows of a stream (nil when it has
  none), \<open>js_add_ok\<close> whether it adds one. \<open>AddStream\<close> answers the information that it found before
  it added the stream.
\<close>

record Js =
  js_info :: "(string \<times> string list) list"
  js_add_ok :: bool
  js_deleted :: "string list"
  js_published :: "(string \<times> string) list"

definition AddStream :: "Js \<Rightarrow> string \<Rightarrow> string list \<Rightarrow> Js \<times> string list option" where
  "AddStream js stream subjects = (case map_of (js_info js) stream of
     Some info \<Rightarrow> (js, Some info)
   | None \<Rightarrow>
       if js_add_ok js then (js\<lparr>js_info := AList.update stream subjects (js_info js)\<rparr>, None)
       else (js, None))"

definition DeleteStream :: "string \<Rightarrow> Js \<Rightarrow> Js" where
  "DeleteStream stream js = js\<lparr>js_info := AList.delete stream (js_info js), js_deleted := js_deleted js @ [stream]\<rparr>"

text \<open>
  The goroutine \<open>InitStreamWithSubjects\<close>: where it is, and the totals it keeps. It waits for
  ever when it sends to \<open>results\<close>: that channel holds nothing, and only this goroutine receives
  from it. What a fetch answers is an error, or a message, whose data may be nil.
\<close>

datatype stream_end = Running | Returned | Blocked

record Streamer =
  sr_nc :: NatsClient
  sr_js :: Js
  sr_end :: stream_end

datatype stream_case = StreamDone | StreamSend | FetchErr | FetchMsg "string option"

definition stream_init :: "Options \<Rightarrow> bool \<Rightarrow> NatsClient \<Rightarrow> Js \<Rightarrow> Streamer" where
  "stream_init opts subscribed nc js =
     (let (js1, info) = AddStream js (opt_AppName opts) (nc_streamSubs nc)
      in if info = None then \<lparr>sr_nc = nc, sr_js = js1, sr_end = Returned\<rparr>
         else if \<not> subscribed then \<lparr>sr_nc = nc, sr_js = DeleteStream (opt_AppName opts) js1, sr_end = Returned\<rparr>
         else \<lparr>sr_nc = nc, sr_js = js1, sr_end = Running\<rparr>)"

definition stream_turn :: "Options \<Rightarrow> (string \<Rightarrow> Msg option) \<Rightarrow> stream_case \<Rightarrow> Streamer \<Rightarrow> Streamer option" where
  "stream_turn opts dec c s =
     (if sr_end s \<noteq> Running then Some s
      else (case c of
        StreamDone \<Rightarrow>
          if nc_closed (sr_nc s)
          then Some (s\<lparr>sr_js := DeleteStream (opt_AppName opts) (sr_js s), sr_end := Returned\<rparr>) else None
      | StreamSend \<Rightarrow> (case nc_msg_send_chan (sr_nc s) of
            [] \<Rightarrow> None
          | (subj, data) # q \<Rightarrow>
              Some (s\<lparr>sr_nc := (sr_nc s)\<lparr>nc_msg_send_chan := q\<rparr>,
                sr_js := (sr_js s)\<lparr>js_published := js_published (sr_js s) @ [(subj, data)]\<rparr>, sr_end := Blocked\<rparr>))
      | FetchErr \<Rightarrow> Some s
      | FetchMsg None \<Rightarrow> Some s
      | FetchMsg (Some data) \<Rightarrow> do {
          (nc1, err) \<leftarrow> streamHandler dec (sr_nc s) data;
          Some (s\<lparr>sr_nc := nc1\<rparr>)
        }))"

fun stream_run :: "Options \<Rightarrow> (string \<Rightarrow> Msg option) \<Rightarrow> stream_case list \<Rightarrow> Streamer \<Rightarrow> Streamer option" where
  "stream_run opts dec [] s = Some s"
| "stream_run opts dec (c # cs) s = do { s1 \<leftarrow> stream_turn opts dec c s; stream_run opts dec cs s1 }"

text \<open>
  The other helpers call the stream context and hand on what it answers, which is the parameter
  \<open>js\<close>; the identifier of a durable subscription is made by a library too. \<open>InitStreamWithSubjects\<close> pulls with
  \<open>CreatNatsSubscriptionPull\<close> on its send key in the group \<open>''group''\<close>, which is what \<open>subscribed\<close> tells of above.
\<close>

datatype js_option = Durable string | DeliverNew

datatype js_call =
    QueueSubscribeSync string string "js_option list"
  | SubscribeSync string "js_option list"
  | PullSubscribe string string
  | CreateKeyValue string i64

definition CreatNatsQueueSubscription :: "(js_call \<Rightarrow> 'r) \<Rightarrow> string \<Rightarrow> string \<Rightarrow> string \<Rightarrow> 'r" where
  "CreatNatsQueueSubscription js uuid subj queue = js (QueueSubscribeSync subj queue [Durable uuid, DeliverNew])"

definition CreatNatsSubscription :: "(js_call \<Rightarrow> 'r) \<Rightarrow> string \<Rightarrow> string \<Rightarrow> 'r" where
  "CreatNatsSubscription js uuid subj = js (SubscribeSync subj [Durable uuid, DeliverNew])"

definition CreatNatsSubscriptionPull :: "(js_call \<Rightarrow> 'r) \<Rightarrow> string \<Rightarrow> string \<Rightarrow> 'r" where
  "CreatNatsSubscriptionPull js subj queue = js (PullSubscribe subj queue)"

definition CreatNatsKeyValue :: "(js_call \<Rightarrow> 'r) \<Rightarrow> string \<Rightarrow> i64 \<Rightarrow> 'r" where
  "CreatNatsKeyValue js bukName ttl = js (CreateKeyValue bukName ttl)"

section \<open>Properties\<close>

lemma perform_all_publish: "perform_all wr nc (map (\<lambda>(k, p). proxy_broadcast p msg) ps) = Some nc"
  by (induction ps) (auto simp: proxy_broadcast_def)

fun call_subject :: "rpc_call \<Rightarrow> string" where
  "call_subject (rpc_call.SendMsg subj msg) = subj"
| "call_subject (rpc_call.PublishMsg subj msg) = subj"
| "call_subject (rpc_call.RequestMsg subj msg) = subj"

lemma perform_dispatched:
  assumes "Dispatch d msg = Some (Inr call)"
  shows "\<exists>p :: proxy. call = rpc_call.PublishMsg (p_pubKey p) msg"
proof -
  obtain s where "service_Dispatch s msg = Some (Inr call)" using assms by (auto simp: Dispatch_def split: sum.splits)
  then obtain r :: "disp_error + proxy" where "map_sum id (\<lambda>p. proxy_publish p msg) r = Inr call"
    by (auto simp: service_Dispatch_def bind_eq_Some_conv)
  then show ?thesis by (cases r) (auto simp: proxy_publish_def)
qed

text \<open>
  A call without a reply reports whether its message was published; a broadcast reports only that
  the service of the message is unknown, and drops the errors of its messages. Neither blocks, and
  neither changes the client: the stream queue is for \<open>CallS\<close> alone.
\<close>

theorem CallNR_CallB_errors:
  "CallNR wr d nc msg = map_option (\<lambda>r. (nc, case r of
      Inl e \<Rightarrow> Inl (DispErr e)
    | Inr call \<Rightarrow> (case wr_enc wr msg of
        None \<Rightarrow> Inl (NatsErr EncodeErr)
      | Some data \<Rightarrow>
          if wr_publish wr (call_subject call) data then Inr None else Inl (NatsErr PublishErr)))) (Dispatch d msg)
  \<and> CallB wr d nc msg = Some (nc, case getService d (Some msg) of Inl e \<Rightarrow> Some (DispErr e) | Inr s \<Rightarrow> None)"
proof
  show "CallB wr d nc msg = Some (nc, case getService d (Some msg) of Inl e \<Rightarrow> Some (DispErr e) | Inr s \<Rightarrow> None)"
    by (cases "getService d (Some msg)")
      (simp_all add: CallB_def Broadcast_def service_Broadcast_def perform_all_publish)
  show "CallNR wr d nc msg = map_option (\<lambda>r. (nc, case r of
      Inl e \<Rightarrow> Inl (DispErr e)
    | Inr call \<Rightarrow> (case wr_enc wr msg of
        None \<Rightarrow> Inl (NatsErr EncodeErr)
      | Some data \<Rightarrow>
          if wr_publish wr (call_subject call) data then Inr None else Inl (NatsErr PublishErr)))) (Dispatch d msg)"
  proof (cases "Dispatch d msg")
    case (Some r)
    then show ?thesis
      by (cases r) (auto simp: CallNR_def routed_def Rpc.PublishMsg_def dest!: perform_dispatched split: option.split)
  qed (simp add: CallNR_def routed_def)
qed

lemma stream_not_running: "sr_end s \<noteq> Running \<Longrightarrow> stream_run opts dec cs s = Some s"
  by (induction cs) (simp_all add: stream_turn_def)

text \<open>Where the goroutine is, by what it has done to the streams of the server.\<close>

definition stream_inv :: "Js \<Rightarrow> Streamer \<Rightarrow> bool" where
  "stream_inv js s \<longleftrightarrow> (case sr_end s of
     Running \<Rightarrow> sr_js s = js
   | Returned \<Rightarrow> js_published (sr_js s) = js_published js
   | Blocked \<Rightarrow> length (js_published (sr_js s)) = Suc (length (js_published js)) \<and> js_deleted (sr_js s) = js_deleted js)"

lemma stream_turn_inv: "stream_inv js s \<Longrightarrow> stream_turn opts dec c s = Some s' \<Longrightarrow> stream_inv js s'"
  by (auto simp: stream_inv_def stream_turn_def bind_eq_Some_conv DeleteStream_def
      split: stream_case.splits stream_end.splits option.splits if_splits list.splits)

interpretation stream: run_invariant "\<lambda>s c. stream_turn opts dec c s" "\<lambda>s cs. stream_run opts dec cs s" "\<lambda>_. True" "stream_inv js"
  for opts dec js
  by unfold_locales (auto dest: stream_turn_inv)

lemma stream_init_inv: "stream_inv js (stream_init opts subscribed nc js)"
  by (auto simp: stream_inv_def stream_init_def AddStream_def DeleteStream_def Let_def split: option.splits)

text \<open>
  The goroutine of the stream publishes at most one message: it waits for ever on its own result
  channel after the first, does not return when the client is closed, and leaves the stream undeleted.
\<close>

theorem stream_publishes_at_most_one:
  assumes "stream_run opts dec cs (stream_init opts subscribed nc js) = Some s"
  shows "length (js_published (sr_js s)) \<le> length (js_published js) + 1
    \<and> (length (js_published (sr_js s)) = length (js_published js) + 1 \<longrightarrow>
        (\<forall>more. stream_run opts dec more s = Some s) \<and> js_deleted (sr_js s) = js_deleted js)"
proof -
  have "stream_inv js s" using stream.run_inv [OF stream_init_inv _ assms] by simp
  then show ?thesis
    using stream_not_running [of s] by (auto simp: stream_inv_def split: stream_end.splits)
qed

definition one_queued :: NatsClient where
  "one_queued = (nats_Init default_options)\<lparr>nc_msg_send_chan := [(''a'', ''x''), (''a'', ''y'')]\<rparr>"

theorem stream_publishes_at_most_one_witness:
  "\<exists>s. stream_run default_options (\<lambda>_. None) [FetchErr, StreamSend, StreamSend]
      (stream_init default_options True one_queued
        \<lparr>js_info = [([], [])], js_add_ok = True, js_deleted = [], js_published = []\<rparr>) = Some s
    \<and> js_published (sr_js s) = [(''a'', ''x'')] \<and> stream_run default_options (\<lambda>_. None) [StreamDone] s = Some s"
proof -
  let ?js = "\<lparr>js_info = [([], [])], js_add_ok = True, js_deleted = [], js_published = []\<rparr>"
  obtain s where s: "stream_run default_options (\<lambda>_. None) [FetchErr, StreamSend, StreamSend]
      (stream_init default_options True one_queued ?js) = Some s" "js_published (sr_js s) = [(''a'', ''x'')]"
    by (simp add: stream_init_def AddStream_def stream_turn_def one_queued_def default_options_def nats_Init_def)
  with stream_publishes_at_most_one [OF s(1)] have "\<forall>more. stream_run default_options (\<lambda>_. None) more s = Some s" by simp
  with s show ?thesis by blast
qed

text \<open>
  Where the stream does not exist yet, the goroutine adds it and gives up: it takes the missing
  information for a failure. The stream stays at the server.
\<close>

theorem first_stream_start_gives_up:
  assumes "map_of (js_info js) (opt_AppName opts) = None" and "js_add_ok js"
  shows "sr_end (stream_init opts subscribed nc js) = Returned
    \<and> map_of (js_info (sr_js (stream_init opts subscribed nc js))) (opt_AppName opts) = Some (nc_streamSubs nc)
    \<and> js_deleted (sr_js (stream_init opts subscribed nc js)) = js_deleted js"
  using assms by (simp add: stream_init_def AddStream_def update_conv')

theorem first_stream_start_gives_up_witness:
  "sr_end (stream_init default_options True one_queued
      \<lparr>js_info = [], js_add_ok = True, js_deleted = [], js_published = []\<rparr>) = Returned"
  using first_stream_start_gives_up [of "\<lparr>js_info = [], js_add_ok = True, js_deleted = [], js_published = []\<rparr>"
    default_options True one_queued] by simp

end
