(* ===== verification/AppServer.thy ===== *)
theory AppServer
  imports Session Processor
begin

text \<open>
  The server of an application, \<open>server/server.go\<close>, which handles the messages that arrive over RPC,
  and its proxy, \<open>server/proxy/proxy.go\<close>, which sends messages on.
\<close>

section \<open>The server\<close>

record AppServer =
  as_keyMap :: "(u64 \<times> u32) list"
  as_exitCB_closed :: bool
  as_proxyCtl_closed :: bool
  as_returned :: bool

definition AppServer_New :: AppServer where
  "AppServer_New = \<lparr>as_keyMap = [], as_exitCB_closed = False, as_proxyCtl_closed = False, as_returned = False\<rparr>"

text \<open>\<open>Stop\<close> closes both control channels; closing one again panics.\<close>

definition AppServer_Stop :: "AppServer \<Rightarrow> AppServer option" where
  "AppServer_Stop s =
     (if as_exitCB_closed s then None
      else if as_proxyCtl_closed s then None
      else Some (s\<lparr>as_exitCB_closed := True, as_proxyCtl_closed := True\<rparr>))"

text \<open>
  A turn of the callback loop: a message (which may be nil) or the end of the channel, or the exit
  channel once it is closed. The answer of the handler is dropped.
\<close>

datatype callback = CbMsg "Msg option" | CbClosed | CbExit

definition incr_key :: "u64 \<Rightarrow> (u64 \<times> u32) list \<Rightarrow> (u64 \<times> u32) list" where
  "incr_key k m = AList.update k ((case map_of m k of None \<Rightarrow> 0 | Some n \<Rightarrow> n) + 1) m"

definition AppServer_turn :: "'c \<Rightarrow> i64 \<Rightarrow> callback \<Rightarrow> AppServer \<times> 'c Processor \<Rightarrow> (AppServer \<times> 'c Processor) option" where
  "AppServer_turn ctl dur cb sp = (let (s, p) = sp in
     if as_returned s then Some sp
     else (case cb of
       CbClosed \<Rightarrow> Some (s\<lparr>as_returned := True\<rparr>, p)
     | CbExit \<Rightarrow> if as_exitCB_closed s then Some (s\<lparr>as_returned := True\<rparr>, p) else None
     | CbMsg None \<Rightarrow> Some sp
     | CbMsg (Some msg) \<Rightarrow> do {
         (p1, rst) \<leftarrow> HandleMsg ctl dur (Some msg) p;
         Some (s\<lparr>as_keyMap := incr_key (MsgKey msg) (as_keyMap s)\<rparr>, p1)
       }))"

fun AppServer_run :: "'c \<Rightarrow> i64 \<Rightarrow> callback list \<Rightarrow> AppServer \<times> 'c Processor \<Rightarrow> (AppServer \<times> 'c Processor) option" where
  "AppServer_run ctl dur [] sp = Some sp"
| "AppServer_run ctl dur (cb # cbs) sp = do { sp1 \<leftarrow> AppServer_turn ctl dur cb sp; AppServer_run ctl dur cbs sp1 }"

definition AppServer_Count :: "AppServer \<Rightarrow> u32" where
  "AppServer_Count s = of_nat (length (as_keyMap s))"

section \<open>The proxy\<close>

record OutProxy =
  op_out :: "Msg list option"
  op_ctl_closed :: bool
  op_returned :: bool

definition NewProxy :: OutProxy where
  "NewProxy = \<lparr>op_out = Some [], op_ctl_closed = False, op_returned = False\<rparr>"

definition Proxy_Close :: "OutProxy \<Rightarrow> OutProxy option" where
  "Proxy_Close p = (if op_ctl_closed p then None else Some (p\<lparr>op_ctl_closed := True\<rparr>))"

datatype proxy_error = OutNil | CallErr

text \<open>\<open>call\<close> is \<open>CallNR\<close> of the RPC client: whether it succeeds. The channel holds 8192.\<close>

definition Proxy_Send :: "(Msg \<Rightarrow> bool) \<Rightarrow> OutProxy \<Rightarrow> Msg \<Rightarrow> proxy_error option \<times> Msg list" where
  "Proxy_Send call p msg =
     (if op_out p = None then (Some OutNil, [])
      else (if call msg then None else Some CallErr, [msg]))"

definition Proxy_SendMsg :: "(Msg \<Rightarrow> bool) \<Rightarrow> OutProxy \<Rightarrow> u32 \<Rightarrow> u32 \<Rightarrow> u64 \<Rightarrow> u64 \<Rightarrow> string \<Rightarrow> Msg list" where
  "Proxy_SendMsg call p seq msgID uid key data =
     snd (Proxy_Send call p \<lparr>Seq = seq, ID = msgID, Body = data, MsgKey = key, UID = uid\<rparr>)"

definition SendSyc1 :: "OutProxy \<Rightarrow> Msg \<Rightarrow> (OutProxy \<times> proxy_error option) option" where
  "SendSyc1 p msg = (case op_out p of
     None \<Rightarrow> Some (p, Some OutNil)
   | Some q \<Rightarrow> if length q < 8192 then Some (p\<lparr>op_out := Some (q @ [msg])\<rparr>, None) else None)"

text \<open>
  A turn of \<open>run\<close> takes a message from the queue: a kick ends the session at the manager, any other
  message is called; or it returns when the control channel is closed.
\<close>

datatype proxy_case = ProxyOut | ProxyCtl

definition Proxy_turn :: "proxy_case \<Rightarrow> OutProxy \<times> World \<Rightarrow> ((OutProxy \<times> World) \<times> Msg list) option" where
  "Proxy_turn c pw = (let (p, w) = pw in
     if op_returned p then Some (pw, [])
     else (case c of
       ProxyOut \<Rightarrow> (case op_out p of
           Some (msg # q) \<Rightarrow>
             if ID msg = Msg_Kick then Some ((p\<lparr>op_out := Some q\<rparr>, DelSession w (UID msg)), [])
             else Some ((p\<lparr>op_out := Some q\<rparr>, w), [msg])
         | _ \<Rightarrow> None)
     | ProxyCtl \<Rightarrow> if op_ctl_closed p then Some ((p\<lparr>op_returned := True\<rparr>, w), []) else None))"

fun Proxy_drain :: "nat \<Rightarrow> OutProxy \<times> World \<Rightarrow> ((OutProxy \<times> World) \<times> Msg list) option" where
  "Proxy_drain 0 pw = Some (pw, [])"
| "Proxy_drain (Suc n) pw = do {
     (pw1, out) \<leftarrow> Proxy_turn ProxyOut pw;
     (pw2, outs) \<leftarrow> Proxy_drain n pw1;
     Some (pw2, out @ outs)
   }"

section \<open>Properties\<close>

lemma incr_key_keys: "fst ` set (incr_key k m) = insert k (fst ` set m)"
  by (simp add: incr_key_def dom_update)

lemma distinct_incr_key: "distinct (map fst m) \<Longrightarrow> distinct (map fst (incr_key k m))"
  by (simp add: incr_key_def distinct_update)

definition msgs :: "callback list \<Rightarrow> Msg list" where
  "msgs cbs = concat (map (\<lambda>cb. case cb of CbMsg (Some m) \<Rightarrow> [m] | _ \<Rightarrow> []) cbs)"

text \<open>
  The load that an application server reports is the number of different keys of all the messages
  it has ever handled: it never decreases, and every key is counted with its number of messages.
\<close>

theorem AppServer_Count_counts_distinct_keys:
  assumes "\<forall>cb \<in> set cbs. cb \<noteq> CbClosed \<and> cb \<noteq> CbExit"
    and "AppServer_run ctl dur cbs (AppServer_New, p) = Some (s, p')"
  shows "AppServer_Count s = of_nat (card (MsgKey ` set (msgs cbs)))
    \<and> (\<forall>k. map_of (as_keyMap s) k =
        (if k \<in> MsgKey ` set (msgs cbs) then Some (of_nat (length (filter (\<lambda>m. MsgKey m = k) (msgs cbs)))) else None))"
proof -
  define counted where "counted ms m \<longleftrightarrow> distinct (map fst m) \<and> fst ` set m = MsgKey ` set ms
    \<and> (\<forall>k. map_of m k = (if k \<in> MsgKey ` set ms then Some (of_nat (length (filter (\<lambda>m. MsgKey m = k) ms))) else None))"
    for ms :: "Msg list" and m :: "(u64 \<times> u32) list"
  have incr: "counted (ms @ [m]) (incr_key (MsgKey m) km)" if "counted ms km" for ms m km
  proof -
    have "map_of (incr_key (MsgKey m) km) k = (if k \<in> MsgKey ` set (ms @ [m])
        then Some (of_nat (length (filter (\<lambda>m. MsgKey m = k) (ms @ [m])))) else None)" for k
    proof (cases "k = MsgKey m")
      case True
      have none: "MsgKey m \<notin> MsgKey ` set ms \<Longrightarrow> filter (\<lambda>m'. MsgKey m' = MsgKey m) ms = []"
        by (intro filter_False ballI notI) (metis image_eqI)
      show ?thesis
        using that True none by (auto simp: counted_def incr_key_def update_conv')
    next
      case False
      then have "map_of (incr_key (MsgKey m) km) k = map_of km k" by (simp add: incr_key_def update_conv')
      with that False show ?thesis by (auto simp: counted_def)
    qed
    with that show ?thesis by (auto simp: counted_def distinct_incr_key incr_key_keys)
  qed
  have "counted (done @ msgs cbs) (as_keyMap s)"
    if "counted done (as_keyMap s0)" "\<not> as_returned s0" "\<forall>cb \<in> set cbs. cb \<noteq> CbClosed \<and> cb \<noteq> CbExit"
      "AppServer_run ctl dur cbs (s0, p0) = Some (s, p')" for "done" s0 p0
    using that
  proof (induction cbs arbitrary: "done" s0 p0)
    case (Cons cb cbs)
    show ?case
    proof (cases cb)
      case (CbMsg m)
      show ?thesis
      proof (cases m)
        case None
        with CbMsg Cons show ?thesis by (auto simp: AppServer_turn_def msgs_def)
      next
        case (Some msg)
        then obtain p1 where run: "AppServer_run ctl dur cbs (s0\<lparr>as_keyMap := incr_key (MsgKey msg) (as_keyMap s0)\<rparr>, p1) = Some (s, p')"
          using CbMsg Cons.prems by (auto simp: AppServer_turn_def bind_eq_Some_conv)
        have "msgs (cb # cbs) = msg # msgs cbs" using CbMsg Some by (simp add: msgs_def)
        with Cons.IH [OF _ _ _ run, of "done @ [msg]"] incr [OF Cons.prems(1)] Cons.prems(2,3)
        show ?thesis by simp
      qed
    qed (use Cons.prems in auto)
  qed (simp add: msgs_def)
  from this [of "[]" AppServer_New p] assms have "counted (msgs cbs) (as_keyMap s)"
    by (simp add: counted_def AppServer_New_def)
  then show ?thesis
    using distinct_card [of "map fst (as_keyMap s)"] by (auto simp: counted_def AppServer_Count_def)
qed

theorem AppServer_Count_counts_distinct_keys_witness:
  "\<exists>s p'. AppServer_run () 0 [CbMsg (Some \<lparr>Seq = 0, ID = 1001, Body = [], MsgKey = 5, UID = 5\<rparr>), CbMsg None,
       CbMsg (Some \<lparr>Seq = 1, ID = 1001, Body = [], MsgKey = 5, UID = 5\<rparr>)] (AppServer_New, NewProcessor) = Some (s, p')
     \<and> AppServer_Count s = 1 \<and> map_of (as_keyMap s) 5 = Some 2"
proof -
  let ?cbs = "[CbMsg (Some \<lparr>Seq = 0, ID = 1001, Body = [], MsgKey = 5, UID = 5\<rparr>), CbMsg None,
       CbMsg (Some \<lparr>Seq = 1, ID = 1001, Body = [], MsgKey = 5, UID = 5\<rparr>)]"
  obtain s p' where run: "AppServer_run () 0 ?cbs (AppServer_New, NewProcessor) = Some (s, p')"
    by (simp add: AppServer_turn_def AppServer_New_def HandleMsg_def NewProcessor_def Record_def Let_def)
  have "msgs ?cbs = [\<lparr>Seq = 0, ID = 1001, Body = [], MsgKey = 5, UID = 5\<rparr>, \<lparr>Seq = 1, ID = 1001, Body = [], MsgKey = 5, UID = 5\<rparr>]"
    by (simp add: msgs_def)
  with AppServer_Count_counts_distinct_keys [OF _ run] run show ?thesis by simp
qed

text \<open>
  The proxy's goroutine forwards the queued messages in order, except the kicks, which it turns
  into the removal of the session at the manager.
\<close>

theorem Proxy_forwards_all_but_kicks:
  assumes "\<not> op_returned p" and "op_out p = Some q"
  shows "Proxy_drain (length q) (p, w) = Some ((p\<lparr>op_out := Some []\<rparr>,
      foldl (\<lambda>w m. DelSession w (UID m)) w (filter (\<lambda>m. ID m = Msg_Kick) q)), filter (\<lambda>m. ID m \<noteq> Msg_Kick) q)"
  using assms
proof (induction q arbitrary: p w)
  case (Cons m q)
  let ?w = "if ID m = Msg_Kick then DelSession w (UID m) else w"
  have "Proxy_turn ProxyOut (p, w) = Some ((p\<lparr>op_out := Some q\<rparr>, ?w), if ID m = Msg_Kick then [] else [m])"
    using Cons.prems by (simp add: Proxy_turn_def)
  with Cons.IH [of "p\<lparr>op_out := Some q\<rparr>" ?w] Cons.prems show ?case by simp
qed simp

theorem Proxy_forwards_all_but_kicks_witness:
  "\<exists>m. ID m \<noteq> Msg_Kick \<and> Proxy_drain 1 (NewProxy\<lparr>op_out := Some [m]\<rparr>, empty_gate default_options)
     = Some ((NewProxy\<lparr>op_out := Some []\<rparr>, empty_gate default_options), [m])"
  using Proxy_forwards_all_but_kicks [of "NewProxy\<lparr>op_out := Some [\<lparr>Seq = 0, ID = 1001, Body = [], MsgKey = 5, UID = 5\<rparr>]\<rparr>"
      "[\<lparr>Seq = 0, ID = 1001, Body = [], MsgKey = 5, UID = 5\<rparr>]" "empty_gate default_options"]
  by (intro exI [of _ "\<lparr>Seq = 0, ID = 1001, Body = [], MsgKey = 5, UID = 5\<rparr>"]) (simp add: NewProxy_def Msg_Kick_def)

end
