(* ===== verification/System.thy ===== *)
theory System
  imports Dispatcher SessionSpec Registration RpcClient
begin

text \<open>
  The components together: the subjects that a dispatcher's proxies publish on are those that the
  servers listen on; a dispatched message arrives at a registered server; and what the gate's
  sessions make of the dispatcher's \<open>CheckRoute\<close>.
\<close>

section \<open>Keys and subjects\<close>

text \<open>Options of a server whose registry key has three plain components.\<close>

definition plain_server :: "Options \<Rightarrow> bool" where
  "plain_server so \<longleftrightarrow> plain (opt_AppName so) \<and> plain (opt_ServerType so) \<and> opt_ServerName so \<noteq> []
     \<and> CHR ''/'' \<notin> set (opt_ServerName so)
     \<and> CHR 0x5C \<notin> set (opt_AppName so) \<and> CHR 0x5C \<notin> set (opt_ServerType so)"

definition server_key :: "Options \<Rightarrow> string" where
  "server_key so = st_Key (sv_Status (NewService so Map.empty))"

lemma server_key_eq: "server_key so = opt_AppName so @ ''/'' @ opt_ServerType so @ ''/'' @ opt_ServerName so"
  by (simp add: server_key_def NewService_def Let_def)

lemma server_key_names:
  assumes "plain_server so"
  shows "service_name (server_key so) = opt_AppName so @ ''/'' @ opt_ServerType so"
    "Base (service_name (server_key so)) = opt_ServerType so" "Base (server_key so) = opt_ServerName so"
proof -
  show name: "service_name (server_key so) = opt_AppName so @ ''/'' @ opt_ServerType so"
  proof -
    have "Dir (server_key so) = opt_AppName so @ ''/'' @ opt_ServerType so"
      unfolding server_key_eq using assms by (intro Dir_key) (auto simp: plain_server_def)
    moreover have "CHR 0x5C \<notin> set (opt_AppName so @ ''/'' @ opt_ServerType so)"
      using assms by (auto simp: plain_server_def)
    ultimately show ?thesis unfolding service_name_def by (metis ReplaceAll_absent)
  qed
  show "Base (service_name (server_key so)) = opt_ServerType so"
    using assms unfolding name by (intro Base_component) (auto simp: plain_server_def plain_def)
  show "Base (server_key so) = opt_ServerName so"
    using assms Base_component [of "opt_ServerName so" "opt_AppName so @ ''/'' @ opt_ServerType so"]
    by (simp add: server_key_eq plain_server_def)
qed

lemma server_subjects:
  assumes "plain_server so" and "opt_AppName opts = opt_AppName so"
  shows "p_pubKey (proxy_init opts (service_name (server_key so)) (server_key so) st) = nc_pubKey (nats_Init so)"
    "p_bcKey (proxy_init opts (service_name (server_key so)) (server_key so) st) = nc_bcKey (nats_Init so)"
    "p_reqKey (proxy_init opts (service_name (server_key so)) (server_key so) st) = nc_reqKey (nats_Init so)"
    "p_sendKey (proxy_init opts (service_name (server_key so)) (server_key so) st) \<noteq> nc_sendKey (nats_Init so)"
  using assms(2) server_key_names [OF assms(1)]
  by (simp_all add: proxy_init_def nats_Init_def Let_def)

lemma routed_proxy:
  assumes "dispatcher_ok d" and "map_of (d_services d) name = Some s" and "RouteById s uid = Some (Inr p)"
  shows "service_name (p_key p) = name" "p = proxy_init (d_opts d) name (p_key p) (p_serStatus p)"
    "statuses d (p_key p) \<noteq> None"
proof -
  note ok = dispatcher_okD(1) [OF assms(1,2)]
  obtain k where k: "map_of (s_proxyMap s) k = Some p"
    using RouteById_answers [OF ok, of uid] assms(3) by auto
  note p = service_ok_proxy [OF ok k]
  have "p_key p = k" using arg_cong [OF p(2), of p_key] by simp
  then show "service_name (p_key p) = name" "p = proxy_init (d_opts d) name (p_key p) (p_serStatus p)"
    "statuses d (p_key p) \<noteq> None"
    using p k assms(2) by (simp_all add: statuses_def)
qed

text \<open>
  A server and the proxy that another server makes of its registry entry agree on the subjects of
  published, broadcast and requested messages, but not on the subject of sent ones: the proxy
  joins it with a dot, the server with an underscore.
\<close>

theorem proxy_and_server_subjects:
  assumes "plain_server so" and "opt_AppName opts = opt_AppName so"
    and "p = proxy_init opts (service_name (server_key so)) (server_key so) st"
  shows "p_pubKey p = nc_pubKey (nats_Init so) \<and> p_bcKey p = nc_bcKey (nats_Init so)
    \<and> p_reqKey p = nc_reqKey (nats_Init so) \<and> p_sendKey p \<noteq> nc_sendKey (nats_Init so)"
  using server_subjects [OF assms(1,2), of st] unfolding assms(3) by simp

definition game_server :: Options where
  "game_server = default_options\<lparr>opt_AppName := ''app'', opt_ServerType := ''game'', opt_ServerName := ''1''\<rparr>"

lemma game_server_plain: "plain_server game_server" "server_key game_server = ''app/game/1''"
  by (simp_all add: plain_server_def plain_def game_server_def server_key_eq default_options_def)

theorem proxy_and_server_subjects_witness:
  "p_pubKey (proxy_init (example_opts ''game|1'') ''app/game'' ''app/game/1'' ''up'') = nc_pubKey (nats_Init game_server)"
proof -
  have "opt_AppName (example_opts ''game|1'') = opt_AppName game_server"
    by (simp add: example_opts_def game_server_def)
  from proxy_and_server_subjects [OF game_server_plain(1) this refl, of "''up''"] show ?thesis
    unfolding game_server_plain(2) example_names by blast
qed

section \<open>Messages reach servers\<close>

text \<open>The message routes, as \<open>RegisteSer\<close> adds them, do not concern the registry.\<close>

definition with_routes :: "(u32 \<times> string) list \<Rightarrow> Dispatcher \<Rightarrow> Dispatcher" where
  "with_routes routes d = foldl (\<lambda>d (mid, key). fst (RegisteSer d mid key)) d routes"

lemma with_routes_update: "\<exists>r. with_routes routes d = d\<lparr>d_route := r\<rparr>"
proof (induction routes arbitrary: d)
  case Nil
  show ?case by (intro exI [of _ "d_route d"]) (simp add: with_routes_def)
next
  case (Cons mk routes)
  obtain mid key where mk: "mk = (mid, key)" by (cases mk)
  have "\<exists>r. fst (RegisteSer d mid key) = d\<lparr>d_route := r\<rparr>"
    by (cases "d_route d") (auto simp: RegisteSer_def intro: exI [of _ "d_route d"])
  then obtain r where "fst (RegisteSer d mid key) = d\<lparr>d_route := r\<rparr>" by blast
  with Cons.IH [of "d\<lparr>d_route := r\<rparr>"] show ?case by (auto simp: with_routes_def mk)
qed

lemma addService_route:
  "addService (d\<lparr>d_route := r\<rparr>) key st = map_option (\<lambda>d. d\<lparr>d_route := r\<rparr>) (addService d key st)"
  by (auto simp: addService_def Let_def not_provided_def route_type_def split: option.splits bind_splits)

lemma removeService_route:
  "removeService (d\<lparr>d_route := r\<rparr>) key = map_option (\<lambda>(d, e). (d\<lparr>d_route := r\<rparr>, e)) (removeService d key)"
  by (auto simp: removeService_def Let_def not_provided_def route_type_def split: option.splits bind_splits)

lemma watcher_route: "watcher (d\<lparr>d_route := r\<rparr>) evs = map_option (\<lambda>d. d\<lparr>d_route := r\<rparr>) (watcher d evs)"
proof (induction evs arbitrary: d)
  case (Cons ev evs)
  have "watch_event (d\<lparr>d_route := r\<rparr>) ev = map_option (\<lambda>d. d\<lparr>d_route := r\<rparr>) (watch_event d ev)"
    by (cases ev) (auto simp: watch_event_def addService_route removeService_route option.map_comp comp_def case_prod_beta)
  then show ?case using Cons by (cases "watch_event d ev") auto
qed simp

lemma started_with_routes:
  assumes "do { d1 \<leftarrow> connectAll (with_routes routes (init opts)) kvs; watcher d1 evs } = Some d"
  shows "dispatcher_ok d" "d_opts d = opts"
    "statuses d = visible (init opts) (registry Map.empty (map (\<lambda>(k, v). PUT k v) kvs @ evs))"
proof -
  obtain r where r: "with_routes routes (init opts) = init opts\<lparr>d_route := r\<rparr>" using with_routes_update by blast
  obtain srvs where srvs: "do { d1 \<leftarrow> connectAll (init opts) kvs; watcher d1 evs } = Some (init opts\<lparr>d_services := srvs\<rparr>)"
    "dispatcher_ok (init opts\<lparr>d_services := srvs\<rparr>)"
    "statuses (init opts\<lparr>d_services := srvs\<rparr>) =
      visible (init opts) (registry Map.empty (map (\<lambda>(k, v). PUT k v) kvs @ evs))"
    using started by metis
  have "d = init opts\<lparr>d_services := srvs, d_route := r\<rparr>"
    using assms srvs(1) unfolding r connectAll_watcher watcher_append [symmetric] by (simp add: watcher_route)
  then show "dispatcher_ok d" "d_opts d = opts"
    "statuses d = visible (init opts) (registry Map.empty (map (\<lambda>(k, v). PUT k v) kvs @ evs))"
    using srvs(2,3) by (simp_all add: dispatcher_ok_def statuses_def not_provided_def route_type_def init_def Let_def fun_eq_iff)
qed

text \<open>A message that is routed goes to a registered server, on the subjects that it listens on.\<close>

lemma routed_server:
  assumes "do { d1 \<leftarrow> connectAll (with_routes routes (init opts)) kvs; watcher d1 evs } = Some d"
    and "\<And>key. registry Map.empty (map (\<lambda>(k, v). PUT k v) kvs @ evs) key \<noteq> None \<Longrightarrow>
      \<exists>so. key = server_key so \<and> plain_server so \<and> opt_AppName so = opt_AppName opts \<and> 0 < opt_QMsgLen so"
    and "getService d (Some msg) = Inr s" and "RouteById s uid = Some (Inr p)"
  obtains so where "registry Map.empty (map (\<lambda>(k, v). PUT k v) kvs @ evs) (server_key so) \<noteq> None"
    "plain_server so" "opt_AppName so = opt_AppName opts"
    "0 < opt_QMsgLen so" "p_pubKey p = nc_pubKey (nats_Init so)" "p_reqKey p = nc_reqKey (nats_Init so)"
proof -
  let ?r = "registry Map.empty (map (\<lambda>(k, v). PUT k v) kvs @ evs)"
  note d = started_with_routes [OF assms(1)]
  obtain name where "map_of (d_services d) name = Some s"
    using assms(3) by (auto simp: getService_def Let_def split: sum.splits option.splits)
  note r = routed_proxy [OF d(1) this assms(4)]
  have key: "?r (p_key p) \<noteq> None" using r(3) unfolding d(3) by (auto simp: visible_def split: if_splits)
  from assms(2) [OF key] obtain so where so: "p_key p = server_key so" "plain_server so"
    "opt_AppName opts = opt_AppName so" "0 < opt_QMsgLen so"
    by metis
  note subj = server_subjects [OF so(2,3), of "p_serStatus p"]
  have "p = proxy_init opts (service_name (server_key so)) (server_key so) (p_serStatus p)"
    using r(1,2) unfolding so(1) d(2) by simp
  with subj(1,3) have "p_pubKey p = nc_pubKey (nats_Init so)" "p_reqKey p = nc_reqKey (nats_Init so)" by metis+
  with that key so show thesis by simp
qed

lemma routed_call:
  assumes "map_option (map_sum (id :: disp_error \<Rightarrow> disp_error) f) (RouteById s uid) = Some (Inr call)"
  obtains p where "RouteById s uid = Some (Inr p)" "call = f p"
proof -
  obtain r where r: "RouteById s uid = Some r" "map_sum id f r = Inr call" using assms by auto
  with that show thesis by (cases r) auto
qed

text \<open>A dispatched message is published, unchanged, on the subject that a registered server listens on.\<close>

lemma dispatched_published:
  assumes "do { d1 \<leftarrow> connectAll (with_routes routes (init opts)) kvs; watcher d1 evs } = Some d"
    and "\<And>key. registry Map.empty (map (\<lambda>(k, v). PUT k v) kvs @ evs) key \<noteq> None \<Longrightarrow>
      \<exists>so. key = server_key so \<and> plain_server so \<and> opt_AppName so = opt_AppName opts \<and> 0 < opt_QMsgLen so"
    and "Dispatch d msg = Some (Inr call)"
  obtains so where "registry Map.empty (map (\<lambda>(k, v). PUT k v) kvs @ evs) (server_key so) \<noteq> None"
    "plain_server so" "opt_AppName so = opt_AppName opts" "0 < opt_QMsgLen so"
    "call = rpc_call.PublishMsg (nc_pubKey (nats_Init so)) msg"
proof -
  obtain s where s: "getService d (Some msg) = Inr s" and "service_Dispatch s msg = Some (Inr call)"
    using assms(3) by (auto simp: Dispatch_def split: sum.splits)
  then have "map_option (map_sum id (\<lambda>p. proxy_publish p msg)) (RouteById s (MsgKey msg)) = Some (Inr call)"
    by (auto simp: service_Dispatch_def Route_def bind_eq_Some_conv)
  then obtain p where p: "RouteById s (MsgKey msg) = Some (Inr p)" and call: "call = rpc_call.PublishMsg (p_pubKey p) msg"
    by (rule routed_call) (simp add: proxy_publish_def)
  from routed_server [OF assms(1,2) s p] that call show thesis by metis
qed

text \<open>
  The client with which the server \<open>so\<close> listens, in any state as long as it is open, and what it does with a message
  that NATS delivers to it on its own subject: a gate hands it to its sessions; another server queues it for its
  handlers, and waits while the queue is full.
\<close>

definition client_of :: "Options \<Rightarrow> NatsClient \<Rightarrow> bool" where
  "client_of so nc \<longleftrightarrow> nc_pubKey nc = nc_pubKey (nats_Init so) \<and> nc_QMsgLen nc = opt_QMsgLen so \<and> \<not> nc_closed nc"

lemma client_of_kept:
  "client_of so (nats_Init so)"
  "client_of so nc \<Longrightarrow> handler dec gate g (nc, w) m = Some ((nc', w'), err) \<Longrightarrow> client_of so nc'"
  "client_of so nc \<Longrightarrow> stream_SendMsg enc nc subj msg = Some (nc', err) \<Longrightarrow> client_of so nc'"
  by (auto simp: client_of_def nats_Init_def Let_def handler_def commonHandler_def broadCastHandler_def push_def stream_SendMsg_def
      bind_eq_Some_conv split: option.splits if_splits)

lemma handler_own_subject:
  assumes "client_of so nc" and "dec data = Some msg"
  shows "handler dec gate g (nc, w) \<lparr>nm_Subject = nc_pubKey (nats_Init so), nm_Data = Some data\<rparr>
    = (if gate then map_option (\<lambda>(w1, err). ((nc, w1), map_option GateErr err)) (Receive g w msg)
       else if length (nc_callBack nc) < unat (opt_QMsgLen so) then Some ((nc\<lparr>nc_callBack := nc_callBack nc @ [msg]\<rparr>, w), None)
       else None)"
  using assms by (cases "Receive g w msg") (auto simp: client_of_def handler_def commonHandler_def push_def)

lemma PublishMsg_encoded:
  "enc msg = Some data \<Longrightarrow> Rpc.PublishMsg enc publish subj msg = (if publish subj data then None else Some PublishErr)"
  by (simp add: Rpc.PublishMsg_def)

text \<open>
  C3. End to end: when the registry holds only entries of servers of the same application, with plain names, a
  message that the dispatcher dispatches is published on a subject that one of the registered servers takes for
  its own. Whatever the state of that server's client, as long as it is open: a gate hands the message
  to the session of its user; another server appends it, unchanged, to the queue of its handlers, when there is
  room, and waits otherwise.
\<close>

theorem dispatched_message_reaches_server:
  assumes "do { d1 \<leftarrow> connectAll (with_routes routes (init opts)) kvs; watcher d1 evs } = Some d"
    and "\<And>key. registry Map.empty (map (\<lambda>(k, v). PUT k v) kvs @ evs) key \<noteq> None \<Longrightarrow>
      \<exists>so. key = server_key so \<and> plain_server so \<and> opt_AppName so = opt_AppName opts \<and> 0 < opt_QMsgLen so"
    and "Dispatch d msg = Some (Inr call)" and "enc msg = Some data" and "dec data = Some msg"
  shows "\<exists>so subj. call = rpc_call.PublishMsg subj msg
    \<and> (\<forall>publish. Rpc.PublishMsg enc publish subj msg = (if publish subj data then None else Some PublishErr))
    \<and> registry Map.empty (map (\<lambda>(k, v). PUT k v) kvs @ evs) (server_key so) \<noteq> None
    \<and> client_of so (nats_Init so)
    \<and> (\<forall>gate g nc w. client_of so nc \<longrightarrow> handler dec gate g (nc, w) \<lparr>nm_Subject = subj, nm_Data = Some data\<rparr>
        = (if gate then map_option (\<lambda>(w1, err). ((nc, w1), map_option GateErr err)) (Receive g w msg)
           else if length (nc_callBack nc) < unat (opt_QMsgLen so) then Some ((nc\<lparr>nc_callBack := nc_callBack nc @ [msg]\<rparr>, w), None)
           else None))"
proof -
  obtain so where "registry Map.empty (map (\<lambda>(k, v). PUT k v) kvs @ evs) (server_key so) \<noteq> None"
    "call = rpc_call.PublishMsg (nc_pubKey (nats_Init so)) msg"
    using dispatched_published [OF assms(1-3)] by metis
  then show ?thesis
    using PublishMsg_encoded [of enc msg data, OF assms(4)] client_of_kept(1) [of so]
      handler_own_subject [where dec = dec and data = data, OF _ assms(5)]
    by (intro exI [of _ so] exI [of _ "nc_pubKey (nats_Init so)"] conjI allI impI) assumption+
qed

definition game_msg :: Msg where
  "game_msg = \<lparr>Seq = 1, ID = 1001, Body = ''x'', MsgKey = 42, UID = 42\<rparr>"

text \<open>One server in the registry, of a service that is routed by hash.\<close>

lemma single_routed:
  assumes "service_name key = opt_AppName opts @ ''/'' @ ty" and "route_type (init opts) (service_name key) = Hash"
    and "\<not> not_provided (init opts) (service_name key)" and "opt_DisRep opts \<noteq> 0"
    and "GetMsgKey (with_routes routes (init opts)) (ID msg) = Inr ty"
  obtains d p where "do { d1 \<leftarrow> connectAll (with_routes routes (init opts)) []; watcher d1 [PUT key st] } = Some d"
    "Dispatch d msg = Some (Inr (rpc_call.PublishMsg (p_pubKey p) msg))"
    "Request d msg = Some (Inr (rpc_call.RequestMsg (p_reqKey (p :: proxy)) msg))"
proof -
  obtain d s where d: "watcher (init opts) [PUT key st] = Some d" "dispatcher_ok d"
    "d = (init opts)\<lparr>d_services := [(service_name key, s)]\<rparr>" "s_routeType s = Hash" "s_Count s = 1"
    "\<exists>hr. s_hashring s = Some hr \<and> m_RingMap hr \<noteq> []"
    using single_entry [OF refl assms(2-4), of st] by metis
  then obtain hr where hr: "s_hashring s = Some hr" "m_RingMap hr \<noteq> []" by blast
  have s: "map_of (d_services d) (service_name key) = Some s" by (simp add: d(3))
  have "s_Count s \<noteq> 0" using d(5) by simp
  from hash_routed [OF d(2) s d(4) hr this, of "MsgKey msg"] obtain p where p: "RouteById s (MsgKey msg) = Some (Inr p)" by blast
  obtain r where r: "with_routes routes (init opts) = (init opts)\<lparr>d_route := r\<rparr>" using with_routes_update by blast
  let ?d = "d\<lparr>d_route := r\<rparr>"
  have run: "do { d1 \<leftarrow> connectAll (with_routes routes (init opts)) []; watcher d1 [PUT key st] } = Some ?d"
  proof -
    have "watcher ((init opts)\<lparr>d_route := r\<rparr>) [PUT key st] = Some ?d" unfolding watcher_route d(1) by simp
    then show ?thesis unfolding r connectAll.simps bind.bind_lunit .
  qed
  have get: "getService ?d (Some msg) = Inr s"
  proof -
    have "GetMsgKey ?d (ID msg) = Inr ty" using assms(5) by (simp add: r GetMsgKey_def)
    moreover have "d_root ?d = opt_AppName opts" by (simp add: d(3) init_def Let_def)
    ultimately show ?thesis using s assms(1) by (simp add: getService_def Let_def)
  qed
  have "Dispatch ?d msg = Some (Inr (rpc_call.PublishMsg (p_pubKey p) msg))"
    "Request ?d msg = Some (Inr (rpc_call.RequestMsg (p_reqKey p) msg))"
    using p by (simp_all add: Dispatch_def Request_def get service_Dispatch_def service_Request_def Route_def
        proxy_publish_def proxy_request_def)
  with run that show thesis by blast
qed

lemma example_routed:
  obtains d p where "do { d1 \<leftarrow> connectAll (with_routes [(1001, ''game'')] (init (example_opts ''game|1''))) [];
      watcher d1 [PUT ''app/game/1'' ''up''] } = Some d"
    "Dispatch d game_msg = Some (Inr (rpc_call.PublishMsg (p_pubKey p) game_msg))"
    "Request d game_msg = Some (Inr (rpc_call.RequestMsg (p_reqKey (p :: proxy)) game_msg))"
proof -
  let ?o = "example_opts ''game|1''"
  have "GetMsgKey (with_routes [(1001, ''game'')] (init ?o)) (ID game_msg) = Inr ''game''"
    by (simp add: with_routes_def RegisteSer_def init_def GetMsgKey_def game_msg_def Let_def)
  moreover have "service_name ''app/game/1'' = opt_AppName ?o @ ''/'' @ ''game''" "opt_DisRep ?o \<noteq> 0"
    by (simp_all add: example_names example_opts_def default_options_def)
  ultimately show thesis
    using single_routed [of "''app/game/1''" ?o "''game''" "[(1001, ''game'')]" game_msg "''up''"] example_route_type(1,2) that
    by (auto simp: example_names)
qed

lemma example_registry:
  "registry Map.empty (map (\<lambda>(k, v). PUT k v) [] @ [PUT ''app/game/1'' ''up'']) key \<noteq> None \<Longrightarrow>
    \<exists>so. key = server_key so \<and> plain_server so \<and> opt_AppName so = opt_AppName (example_opts ''game|1'') \<and> 0 < opt_QMsgLen so"
  using game_server_plain
  by (intro exI [of _ game_server]) (auto simp: example_opts_def game_server_def default_options_def split: if_splits)

theorem dispatched_message_reaches_server_witness:
  "\<exists>d so subj. do { d1 \<leftarrow> connectAll (with_routes [(1001, ''game'')] (init (example_opts ''game|1''))) [];
      watcher d1 [PUT ''app/game/1'' ''up''] } = Some d
    \<and> Dispatch d game_msg = Some (Inr (rpc_call.PublishMsg subj game_msg))
    \<and> (0 < opt_QMsgLen so \<longrightarrow> handler (\<lambda>_. Some game_msg) False (open_gate 0) (nats_Init so, empty_gate game_server)
        \<lparr>nm_Subject = subj, nm_Data = Some ''x''\<rparr>
      = Some (((nats_Init so)\<lparr>nc_callBack := [game_msg]\<rparr>, empty_gate game_server), None))"
proof -
  obtain d p where d: "do { d1 \<leftarrow> connectAll (with_routes [(1001, ''game'')] (init (example_opts ''game|1''))) [];
      watcher d1 [PUT ''app/game/1'' ''up''] } = Some d"
    "Dispatch d game_msg = Some (Inr (rpc_call.PublishMsg (p_pubKey (p :: proxy)) game_msg))"
    by (rule example_routed)
  from dispatched_message_reaches_server [OF d(1) example_registry d(2), of "\<lambda>_. Some ''x''" "''x''" "\<lambda>_. Some game_msg"]
  obtain so where so: "client_of so (nats_Init so)"
    "\<And>gate g nc w. client_of so nc \<Longrightarrow> handler (\<lambda>_. Some game_msg) gate g (nc, w) \<lparr>nm_Subject = p_pubKey p, nm_Data = Some ''x''\<rparr>
        = (if gate then map_option (\<lambda>(w1, err). ((nc, w1), map_option GateErr err)) (Receive g w game_msg)
           else if length (nc_callBack nc) < unat (opt_QMsgLen so) then Some ((nc\<lparr>nc_callBack := nc_callBack nc @ [game_msg]\<rparr>, w), None)
           else None)"
    by blast
  have "nc_callBack (nats_Init so) = []" by (simp add: nats_Init_def Let_def)
  then show ?thesis
    using so(2) [OF so(1), where gate = False and g = "open_gate 0" and w = "empty_gate game_server"] d
    by (intro exI [of _ d] exI [of _ so] exI [of _ "p_pubKey p"]) (simp add: unat_gt_0 word_neq_0_conv)
qed


section \<open>Requests are answered\<close>

text \<open>
  C15. End to end: the library delivers a request to the server that listens on its subject, which
  answers what its handler returns. Then a call that the dispatcher can route returns to the caller
  the answer of the handler of one of the registered servers.
\<close>

theorem call_answered_by_server:
  assumes "do { d1 \<leftarrow> connectAll (with_routes routes (init opts)) kvs; watcher d1 evs } = Some d"
    and "\<And>key. registry Map.empty (map (\<lambda>(k, v). PUT k v) kvs @ evs) key \<noteq> None \<Longrightarrow>
      \<exists>so. key = server_key so \<and> plain_server so \<and> opt_AppName so = opt_AppName opts \<and> 0 < opt_QMsgLen so"
    and "Request d msg = Some (Inr call)" and "wr_enc wr msg = Some data" and "wr_dec wr data = Some msg"
    and "\<And>so. plain_server so \<Longrightarrow> wr_request wr (nc_reqKey (nats_Init so)) data
      = (case request_callback (wr_dec wr) (wr_enc wr) ctl dur (procs (server_key so)) (Some data) of
           Some (p', [answer]) \<Rightarrow> Some answer | _ \<Rightarrow> None)"
    and "\<And>key. registry Map.empty (map (\<lambda>(k, v). PUT k v) kvs @ evs) key \<noteq> None \<Longrightarrow>
      \<exists>p' rst answer. HandleMsg ctl dur (Some msg) (procs key) = Some (p', Some rst)
        \<and> wr_enc wr rst = Some answer \<and> wr_dec wr answer = Some rst"
  shows "\<exists>key p' rst. registry Map.empty (map (\<lambda>(k, v). PUT k v) kvs @ evs) key \<noteq> None
    \<and> HandleMsg ctl dur (Some msg) (procs key) = Some (p', Some rst)
    \<and> Call wr d nc msg = Some (nc, Inr (Some rst))"
proof -
  obtain s where s: "getService d (Some msg) = Inr s" and "service_Request s msg = Some (Inr call)"
    using assms(3) by (auto simp: Request_def split: sum.splits)
  then have "map_option (map_sum id (\<lambda>p. proxy_request p msg)) (RouteById s (MsgKey msg)) = Some (Inr call)"
    by (auto simp: service_Request_def Route_def bind_eq_Some_conv)
  then obtain p where p: "RouteById s (MsgKey msg) = Some (Inr p)" and call: "call = rpc_call.RequestMsg (p_reqKey p) msg"
    by (rule routed_call) (simp add: proxy_request_def)
  obtain so where so: "registry Map.empty (map (\<lambda>(k, v). PUT k v) kvs @ evs) (server_key so) \<noteq> None"
    "plain_server so" "p_reqKey p = nc_reqKey (nats_Init so)"
    using routed_server [OF assms(1,2) s p] by metis
  from assms(7) [OF so(1)] obtain p' rst answer where h: "HandleMsg ctl dur (Some msg) (procs (server_key so)) = Some (p', Some rst)"
    "wr_enc wr rst = Some answer" "wr_dec wr answer = Some rst"
    by blast
  have "wr_request wr (p_reqKey p) data = Some answer"
    using assms(5) h unfolding so(3) assms(6) [OF so(2)] by (simp add: request_callback_def)
  then have "Call wr d nc msg = Some (nc, Inr (Some rst))"
    using assms(3,4) h(3) by (simp add: Call_def routed_def call Rpc.RequestMsg_def)
  with so(1) h(1) show ?thesis by blast
qed

definition echo_wire :: Wire where
  "echo_wire = \<lparr>wr_enc = (\<lambda>_. Some ''x''), wr_dec = (\<lambda>_. Some game_msg), wr_publish = (\<lambda>_ _. True),
     wr_request = (\<lambda>_ _. Some ''x'')\<rparr>"

definition echo_processor :: "unit Processor" where
  "echo_processor = NewProcessor\<lparr>pc_msgInfos := Some [(1001, Some (\<lambda>_ m. Some (Some m)))]\<rparr>"

lemma echo_HandleMsg: "HandleMsg () 0 (Some game_msg) echo_processor = Some (echo_processor, Some game_msg)"
  by (simp add: HandleMsg_def echo_processor_def NewProcessor_def game_msg_def Record_def Let_def)

theorem call_answered_by_server_witness:
  "\<exists>d nc. do { d1 \<leftarrow> connectAll (with_routes [(1001, ''game'')] (init (example_opts ''game|1''))) [];
      watcher d1 [PUT ''app/game/1'' ''up''] } = Some d
    \<and> Call echo_wire d nc game_msg = Some (nc, Inr (Some game_msg))"
proof -
  obtain d p where d: "do { d1 \<leftarrow> connectAll (with_routes [(1001, ''game'')] (init (example_opts ''game|1''))) [];
      watcher d1 [PUT ''app/game/1'' ''up''] } = Some d"
    "Request d game_msg = Some (Inr (rpc_call.RequestMsg (p_reqKey (p :: proxy)) game_msg))"
    by (rule example_routed)
  have "wr_request echo_wire subj ''x''
      = (case request_callback (wr_dec echo_wire) (wr_enc echo_wire) () 0 echo_processor (Some ''x'') of
           Some (p', [answer]) \<Rightarrow> Some answer | _ \<Rightarrow> None)" for subj
    by (simp add: request_callback_def echo_wire_def echo_HandleMsg)
  then have "\<exists>key p' rst. HandleMsg () 0 (Some game_msg) echo_processor = Some (p', Some rst)
      \<and> Call echo_wire d (nats_Init game_server) game_msg = Some (nats_Init game_server, Inr (Some rst))"
    using call_answered_by_server [OF d(1) example_registry d(2), of echo_wire "''x''" "()" 0 "\<lambda>_. echo_processor" "nats_Init game_server"]
    by (auto simp: echo_wire_def echo_HandleMsg)
  then show ?thesis using d(1) by (auto simp: echo_HandleMsg)
qed

section \<open>Rerouting\<close>

text \<open>Whatever the registry holds, the dispatcher routes no user to its own server.\<close>

lemma CheckRoute_never:
  assumes "do { d1 \<leftarrow> connectAll (init opts) kvs; watcher d1 evs } = Some d"
  shows "CheckRoute d uid = Some False"
proof -
  obtain srvs where d: "d = init opts\<lparr>d_services := srvs\<rparr>" "dispatcher_ok d"
    using started [of opts kvs evs] assms by (metis option.inject)
  have "d_myName d = []" by (simp add: d(1) init_def Let_def)
  then show ?thesis
    using getProxy_answers [OF d(2), of "d_myType d" uid] Base_nonempty [THEN not_sym]
    by (auto simp: CheckRoute_def split: sum.splits)
qed

abbreviation kick_rst :: "u64 \<Rightarrow> Msg" where
  "kick_rst uid \<equiv> \<lparr>Seq = 0, ID = Msg_Kick_Rst, Body = [], MsgKey = uid, UID = uid\<rparr>"

definition room :: "World \<Rightarrow> (u64 \<times> sref) list \<Rightarrow> bool" where
  "room w es \<longleftrightarrow> (\<forall>(uid, r) \<in> set es. \<forall>s. w_sessions w r = Some s \<longrightarrow> length (ss_out s) < unat (opt_MaxMsgChanLen (w_opts w)))"

text \<open>A session that is routed elsewhere is told so and stopped, unless its queue is full.\<close>

lemma reroute_live:
  assumes "w_sessions w r = Some s" and "live s uid" and "ID msg = Msg_ReRoute"
    and "\<not> g_check_route g uid" and "g_marshal g (kick_rst uid) = Some data"
  shows "Session.Broadcast g w r msg = (if length (ss_out s) < unat (opt_MaxMsgChanLen (w_opts w))
    then Some (session_upd (CallKick (DelSession w uid) s) r (stopped (s\<lparr>ss_out := ss_out s @ [data]\<rparr>)), None) else None)"
proof -
  let ?s = "s\<lparr>ss_out := ss_out s @ [data]\<rparr>"
  let ?w = "session_upd w r ?s"
  have uid: "ss_userId s = uid" using assms(2) by (simp add: live_def)
  have sig: "(sign s Msg_Kick_Rst)\<lparr>UID := uid\<rparr> = kick_rst uid" by (simp add: sign_def uid)
  have send: "SendSign g w r Msg_Kick_Rst
      = (if length (ss_out s) < unat (opt_MaxMsgChanLen (w_opts w)) then Some (?w, None) else None)"
    using assms(1,2,5) sig by (simp add: SendSign_def SendMsg_def live_def conn_down_def)
  have "OnStop ?w r = Some (session_upd (CallKick (DelSession w uid) s) r (stopped ?s))"
    using assms(2) by (simp add: OnStop_eq live_def DelSession_def GetSession_def CallKick_def sign_def)
  then show ?thesis
    using assms(1,3,4) uid send by (simp add: Session.Broadcast_def Msg_ReRoute_def)
qed

lemma reroute_loop:
  assumes "w_mgr w = es" and "distinct (map fst es)" and "all_live w es" and "ID msg = Msg_ReRoute"
    and "\<And>uid. \<not> g_check_route g uid" and "\<And>uid. g_marshal g (kick_rst uid) = Some (kick uid)"
  shows "if room w es then \<exists>w'. broadcast_loop g w es msg = Some w' \<and> w_mgr w' = [] \<and> Count w' = Count w - of_nat (length es)
      \<and> (\<forall>q. w_sessions w' q = map_option (\<lambda>s. if q \<in> snd ` set es
          then stopped (s\<lparr>ss_out := ss_out s @ [kick (ss_userId s)]\<rparr>) else s) (w_sessions w q))
    else broadcast_loop g w es msg = None"
  using assms(1-3)
proof (induction es arbitrary: w)
  case Nil
  then show ?case by (simp add: room_def option.map_ident)
next
  case (Cons e es)
  obtain uid r where e: "e = (uid, r)" by (cases e)
  from Cons.prems(3) e obtain s where s: "w_sessions w r = Some s" "live s uid" by (auto simp: all_live_def)
  have uid: "ss_userId s = uid" using s(2) by (simp add: live_def)
  have mgr: "w_mgr w = (uid, r) # es" and fresh: "map_of es uid = None"
    using Cons.prems e by (auto simp: map_of_eq_None_iff)
  let ?s = "stopped (s\<lparr>ss_out := ss_out s @ [kick uid]\<rparr>)"
  let ?w1 = "session_upd (CallKick (DelSession w uid) s) r ?s"
  note one = reroute_live [OF s assms(4-6)]
  have w1: "w_mgr ?w1 = es" "Count ?w1 = Count w - 1" "w_opts ?w1 = w_opts w"
    using s(2) mgr fresh by (simp_all add: DelSession_def GetSession_def live_def delete_absent Count_def)
  have new: "r \<notin> snd ` set es"
  proof
    assume "r \<in> snd ` set es"
    then obtain uid' where "(uid', r) \<in> set es" by auto
    with Cons.prems(3) s have "uid' = uid" by (auto simp: all_live_def live_def)
    with \<open>(uid', r) \<in> set es\<close> fresh show False by (auto simp: map_of_eq_None_iff image_iff)
  qed
  have others: "all_live ?w1 es" using Cons.prems(3) new by (force simp: all_live_def)
  have room: "room w (e # es) \<longleftrightarrow> length (ss_out s) < unat (opt_MaxMsgChanLen (w_opts w)) \<and> room ?w1 es"
    using new s(1) w1(3) by (force simp: room_def e)
  note IH = Cons.IH [OF w1(1) _ others]
  show ?case
  proof (cases "length (ss_out s) < unat (opt_MaxMsgChanLen (w_opts w))")
    case True
    then have loop: "broadcast_loop g w (e # es) msg = broadcast_loop g ?w1 es msg" using one by (simp add: e)
    show ?thesis
    proof (cases "room ?w1 es")
      case room1: True
      with IH Cons.prems(2) obtain w' where w': "broadcast_loop g ?w1 es msg = Some w'" "w_mgr w' = []"
        "Count w' = Count ?w1 - of_nat (length es)"
        "\<forall>q. w_sessions w' q = map_option (\<lambda>s. if q \<in> snd ` set es
          then stopped (s\<lparr>ss_out := ss_out s @ [kick (ss_userId s)]\<rparr>) else s) (w_sessions ?w1 q)"
        by auto
      have "\<forall>q. w_sessions w' q = map_option (\<lambda>s. if q \<in> snd ` set (e # es)
          then stopped (s\<lparr>ss_out := ss_out s @ [kick (ss_userId s)]\<rparr>) else s) (w_sessions w q)"
        using w'(4) new s(1) uid by (auto simp: e)
      moreover have "Count w' = Count w - of_nat (length (e # es))" using w'(3) unfolding w1(2) by simp
      moreover have "room w (e # es)" using room room1 True by blast
      ultimately show ?thesis using w'(1,2) loop by simp
    next
      case False
      with IH Cons.prems(2) loop room show ?thesis by auto
    qed
  next
    case False
    then have "broadcast_loop g w (e # es) msg = None" using one by (simp add: e)
    with False room show ?thesis by simp
  qed
qed

text \<open>
  C34. A broadcast that asks the gates to check their sessions is meant to stop the sessions that are routed
  elsewhere. With the dispatcher's answer, whatever the registry holds, it stops every session that the
  manager holds (they live, and the notice can be encoded): each client is told that it was kicked, its session is
  stopped, and the manager is empty afterwards. If the queue of one of them is full, the broadcast waits
  for it, and does not return before there is room.
\<close>

theorem reroute_broadcast_stops_every_session:
  assumes "do { d1 \<leftarrow> connectAll (init opts) kvs; watcher d1 evs } = Some d"
    and "g_check_route g = (\<lambda>uid. CheckRoute d uid = Some True)"
    and "distinct (map fst (w_mgr w))" and "all_live w (w_mgr w)" and "ID msg = Msg_ReRoute"
    and "\<And>uid. g_marshal g (kick_rst uid) = Some (kick uid)"
  shows "if room w (w_mgr w) then \<exists>w'. BroatCast g w msg = Some w' \<and> w_mgr w' = []
      \<and> Count w' = Count w - of_nat (length (w_mgr w))
      \<and> (\<forall>(uid, r) \<in> set (w_mgr w). \<forall>s. w_sessions w r = Some s \<longrightarrow>
          w_sessions w' r = Some (stopped (s\<lparr>ss_out := ss_out s @ [kick uid]\<rparr>)))
    else BroatCast g w msg = None"
proof -
  have "\<not> g_check_route g uid" for uid using CheckRoute_never [OF assms(1)] by (simp add: assms(2))
  from reroute_loop [OF refl assms(3-5) this assms(6)] show ?thesis
    using assms(4) by (force simp: BroatCast_def all_live_def live_def image_iff split: if_splits)
qed

theorem reroute_broadcast_stops_every_session_witness:
  "\<exists>d w'. do { d1 \<leftarrow> connectAll (init (example_opts ''game|1'')) [(''app/game/1'', ''up'')]; watcher d1 [] } = Some d
    \<and> BroatCast ((open_gate 100)\<lparr>g_check_route := (\<lambda>uid. CheckRoute d uid = Some True)\<rparr>) two_logins
        \<lparr>Seq = 0, ID = Msg_ReRoute, Body = [], MsgKey = 0, UID = 0\<rparr> = Some w'
    \<and> w_mgr w' = [] \<and> Count w' = 0"
proof -
  obtain d where d: "do { d1 \<leftarrow> connectAll (init (example_opts ''game|1'')) [(''app/game/1'', ''up'')]; watcher d1 [] } = Some d"
    using started [of "example_opts ''game|1''" "[(''app/game/1'', ''up'')]" "[]"] by metis
  let ?g = "(open_gate 100)\<lparr>g_check_route := (\<lambda>uid. CheckRoute d uid = Some True)\<rparr>"
  have "g_marshal ?g (kick_rst uid) = Some (FormatUint (unat Msg_Kick_Rst))" for uid
    by (simp add: open_gate_def)
  moreover have "w_mgr two_logins = [(7, 0)]" by (simp add: two_logins_def)
  moreover have "room two_logins (w_mgr two_logins)" "all_live two_logins (w_mgr two_logins)"
    using live_live_session [of 7] two_logins_fields by (simp_all add: room_def all_live_def two_logins_def default_options_def empty_gate_def)
  ultimately show ?thesis
    using reroute_broadcast_stops_every_session [OF d, of ?g two_logins
        "\<lparr>Seq = 0, ID = Msg_ReRoute, Body = [], MsgKey = 0, UID = 0\<rparr>" "\<lambda>_. FormatUint (unat Msg_Kick_Rst)"]
      d two_logins_fields by auto
qed

end
