(* ===== verification/App.thy ===== *)
theory App
  imports RpcClient Registration AppServer GateServer System
begin

text \<open>
  The application, \<open>app/app.go\<close>, and the gate, \<open>app/gate.go\<close>: how they are made, the order in which
  they start and stop their parts, and where handlers can be registered; with the etcd client,
  \<open>etcdclient/etcd_client.go\<close>, and the start of the dispatcher.
\<close>

section \<open>The etcd client\<close>

text \<open>
  What the host and the etcd and NATS libraries answer: files and certificates, whether a client
  can be made and can write, the entries under a prefix, and whether NATS connects.
\<close>

record Host =
  h_Hostname :: string
  h_Pid :: string
  h_ReadFile :: "string \<Rightarrow> string option"
  h_X509KeyPair :: "string \<Rightarrow> string \<Rightarrow> bool"
  h_etcd_New :: "string list \<Rightarrow> bool"
  h_etcd_Put :: "string \<Rightarrow> string \<Rightarrow> bool"
  h_etcd_Get :: "string \<Rightarrow> (string \<times> string) list option"
  h_nats_Connect :: "string \<Rightarrow> bool"
  h_nats_JetStream :: bool

text \<open>\<open>ec_client\<close> is nil, or whether the client is open.\<close>

record ETCDClient =
  ec_Endpoints :: "string list"
  ec_DialTimeout :: i64
  ec_TLS :: "(string \<times> string) option"
  ec_client :: "bool option"

datatype etcd_error = CertFileErr | KeyFileErr | KeyPairErr | NewClientErr | TestPutErr

definition etcd_tls :: "Host \<Rightarrow> string \<Rightarrow> string \<Rightarrow> etcd_error + (string \<times> string) option" where
  "etcd_tls h certFile keyFile =
     (if certFile \<noteq> [] \<and> keyFile \<noteq> []
      then (case h_ReadFile h certFile of
              None \<Rightarrow> Inl CertFileErr
            | Some certPem \<Rightarrow> (case h_ReadFile h keyFile of
                None \<Rightarrow> Inl KeyFileErr
              | Some keyPem \<Rightarrow>
                  if h_X509KeyPair h certPem keyPem then Inr (Some (certPem, keyPem)) else Inl KeyPairErr))
      else Inr None)"

definition ETCD_Init :: "Host \<Rightarrow> string list \<Rightarrow> string \<Rightarrow> string \<Rightarrow> ETCDClient \<times> etcd_error option" where
  "ETCD_Init h hosts certFile keyFile =
     (let ec = \<lparr>ec_Endpoints = hosts, ec_DialTimeout = 5000000000, ec_TLS = None, ec_client = None\<rparr>
      in (case etcd_tls h certFile keyFile of
            Inl e \<Rightarrow> (ec, Some e)
          | Inr tls \<Rightarrow>
              let ec1 = ec\<lparr>ec_TLS := tls\<rparr>
              in if \<not> h_etcd_New h hosts then (ec1, Some NewClientErr)
                 else if \<not> h_etcd_Put h ''newtbig_etcd_test1_key'' ''newtbig_etcd_test_value''
                 then (ec1\<lparr>ec_client := Some True\<rparr>, Some TestPutErr)
                 else (ec1\<lparr>ec_client := Some True\<rparr>, None)))"

text \<open>
  \<open>Watch\<close> asks for the current revision of the registry and watches from the next one on: of the
  events of the registry, by revision, it delivers those after.
\<close>

definition Watch :: "nat \<Rightarrow> event list \<Rightarrow> event list" where
  "Watch revision log = drop revision log"

text \<open>
  \<open>Start\<close> of the dispatcher: \<open>connectAll\<close> adds the entries that it gets, where an error is only
  logged, and the watcher follows the events from its own request on.
\<close>

definition Dispatcher_Start :: "(string \<times> string) list option \<Rightarrow> event list \<Rightarrow> Dispatcher \<Rightarrow> Dispatcher option" where
  "Dispatcher_Start answer events d = do {
     d1 \<leftarrow> (case answer of None \<Rightarrow> Some d | Some kvs \<Rightarrow> connectAll d kvs);
     watcher d1 events
   }"

section \<open>Applications\<close>

datatype app_action =
    EtcdStart | ProcessInit | CallRegiste | RpcNew | RpcStart | DispatcherStart
  | Serv sv_action | RpcStop | DispatcherStop | EtcdClose

text \<open>
  An application or a gate. \<open>ap_process\<close> is the processor that \<open>opts.Process\<close> refers to,
  \<open>ap_serStoped\<close> whether the channel of that name is closed, \<open>ap_trace\<close> what was done, in order.
\<close>

record 'c App =
  ap_isGate :: bool
  ap_opts :: Options
  ap_process :: "'c Processor"
  ap_etcd :: "ETCDClient option"
  ap_dispatcher :: Dispatcher
  ap_rpc :: "RPCClient option"
  ap_serStoped :: bool
  ap_Verify :: "(Msg \<Rightarrow> bool) option"
  ap_trace :: "app_action list"

datatype app_error = EtcdErr etcd_error | ProcessNil | RpcErr rpc_error

abbreviation app_act :: "app_action \<Rightarrow> 'c App \<Rightarrow> 'c App" where
  "app_act x a \<equiv> a\<lparr>ap_trace := ap_trace a @ [x]\<rparr>"

definition make_app :: "bool \<Rightarrow> Options \<Rightarrow> 'c App" where
  "make_app gate options =
     (let opts = options\<lparr>opt_Serv := Some 0\<rparr>
      in \<lparr>ap_isGate = gate, ap_opts = opts, ap_process = NewProcessor, ap_etcd = None, ap_dispatcher = init opts,
          ap_rpc = None, ap_serStoped = False, ap_Verify = None, ap_trace = []\<rparr>)"

text \<open>\<open>NewApp\<close> and \<open>NewGate\<close> make their object once, and answer it from then on; \<open>None\<close> is a panic.\<close>

definition NewApp :: "Env \<Rightarrow> Flags \<Rightarrow> Option list \<Rightarrow> 'c App option \<Rightarrow> 'c App option" where
  "NewApp env flags os app = (case app of
     Some a \<Rightarrow> Some a
   | None \<Rightarrow> map_option (make_app False) (newOptions env flags os))"

definition NewGate :: "Env \<Rightarrow> Flags \<Rightarrow> Option list \<Rightarrow> 'c App option \<Rightarrow> 'c App option" where
  "NewGate env flags os gate = (case gate of
     Some a \<Rightarrow> Some a
   | None \<Rightarrow> map_option (make_app True) (newOptions env flags os))"

definition SetVerify :: "(Msg \<Rightarrow> bool) \<Rightarrow> 'c App \<Rightarrow> 'c App" where
  "SetVerify f a = a\<lparr>ap_Verify := Some f\<rparr>"

definition GetAPPID :: "'c App \<Rightarrow> string" where
  "GetAPPID a = opt_ServerType (ap_opts a) @ ''/'' @ opt_ServerName (ap_opts a)"

definition App_UpdateOptions :: "Option list \<Rightarrow> 'c App \<Rightarrow> 'c App" where
  "App_UpdateOptions os a = a\<lparr>ap_opts := UpdateOptions (ap_opts a) os\<rparr>"

definition App_Register :: "u32 \<Rightarrow> 'c DisposeFunc option \<Rightarrow> 'c App \<Rightarrow> 'c App option" where
  "App_Register mid h a =
     (if opt_Process (ap_opts a) = None then None
      else map_option (\<lambda>p. a\<lparr>ap_process := p\<rparr>) (Register mid h (ap_process a)))"

definition App_RegisteSer :: "u32 \<Rightarrow> string \<Rightarrow> 'c App \<Rightarrow> 'c App \<times> disp_error option" where
  "App_RegisteSer mid ser a =
     (let (d, err) = RegisteSer (ap_dispatcher a) mid ser in (a\<lparr>ap_dispatcher := d\<rparr>, err))"

text \<open>The last steps of \<open>OnInit\<close>: the RPC client and the dispatcher.\<close>

definition start_parts :: "Host \<Rightarrow> event list \<Rightarrow> 'c App \<Rightarrow> ('c App \<times> app_error option) option" where
  "start_parts h events a = (case NewRPCClient (h_nats_Connect h) (h_nats_JetStream h) (ap_opts a) of
     Inl e \<Rightarrow> Some (a, Some (RpcErr e))
   | Inr c \<Rightarrow> do {
       let a1 = app_act RpcStart (app_act RpcNew (a\<lparr>ap_rpc := Some (RPC_Start c)\<rparr>));
       d \<leftarrow> Dispatcher_Start (h_etcd_Get h (d_root (ap_dispatcher a1))) events (ap_dispatcher a1);
       Some (app_act DispatcherStart (a1\<lparr>ap_dispatcher := d\<rparr>), None)
     })"

text \<open>
  \<open>OnInit\<close>. \<open>registe\<close> is the function given to \<open>OnRegiste\<close>, or nil, \<open>events\<close> what the watcher is sent.
\<close>

definition OnInit :: "('c App \<Rightarrow> 'c App option) option \<Rightarrow> Host \<Rightarrow> event list \<Rightarrow> 'c App
    \<Rightarrow> ('c App \<times> app_error option) option" where
  "OnInit registe h events a =
     (let a1 = a\<lparr>ap_opts := (ap_opts a)\<lparr>opt_HostName := h_Hostname h, opt_PID := h_Pid h\<rparr>\<rparr>;
          opts = ap_opts a1;
          (ec, err) = ETCD_Init h (opt_ETCDHosts opts) (opt_ETCDCertFile opts) (opt_ETCDKeyFile opts);
          a2 = app_act EtcdStart (a1\<lparr>ap_etcd := Some ec\<rparr>)
      in (case err of
            Some e \<Rightarrow> Some (a2, Some (EtcdErr e))
          | None \<Rightarrow>
              if opt_Process opts = None then Some (a2, Some ProcessNil)
              else do {
                let a3 = app_act ProcessInit (a2\<lparr>ap_process := Processor_Init (opt_MaxPacketSize opts) (ap_process a2)\<rparr>);
                a4 \<leftarrow> (case registe of None \<Rightarrow> Some a3 | Some f \<Rightarrow> map_option (app_act CallRegiste) (f a3));
                start_parts h events a4
              }))"

text \<open>
  \<open>OnDestroy\<close> waits for the service to have stopped (\<open>None\<close>: for ever), and recovers from a panic
  by doing nothing more.
\<close>

definition OnDestroy :: "'c App \<Rightarrow> 'c App option" where
  "OnDestroy a =
     (if \<not> ap_serStoped a then None
      else Some (case Option.bind (ap_rpc a) RPC_Stop of
        None \<Rightarrow> a
      | Some c \<Rightarrow>
          let a1 = app_act RpcStop (a\<lparr>ap_rpc := Some c\<rparr>)
          in (case Dispatcher.Stop (ap_dispatcher a1) of
                None \<Rightarrow> a1
              | Some d \<Rightarrow>
                  let a2 = app_act DispatcherStop (a1\<lparr>ap_dispatcher := d\<rparr>)
                  in (case ap_etcd a2 of
                        None \<Rightarrow> a2
                      | Some ec \<Rightarrow> if ec_client ec = None then a2
                                   else app_act EtcdClose (a2\<lparr>ap_etcd := Some (ec\<lparr>ec_client := Some False\<rparr>)\<rparr>)))))"

text \<open>
  \<open>Run\<close>: the service registers when the application has started, and renews its entry on the ticks
  until a signal ends the context; then it stops, and the application is destroyed. An error of the
  service is only logged. The time that \<open>Run\<close> waits for \<open>OnDestroy\<close> is taken to be enough, and a renewal
  to be over when the service stops; the theory \<open>Shutdown\<close> has the other runs. Options that are given to
  \<open>Run\<close> are not used.
\<close>

definition App_Run :: "Option list \<Rightarrow> ('c App \<Rightarrow> 'c App option) option \<Rightarrow> Host \<Rightarrow> event list \<Rightarrow> Outside \<Rightarrow> Outside list
    \<Rightarrow> Outside \<Rightarrow> (string \<rightharpoonup> string) \<Rightarrow> 'c App \<Rightarrow> ('c App \<times> (string \<rightharpoonup> string) \<times> app_error option) option" where
  "App_Run os registe h events out ticks fin kv a = do {
     (a1, err) \<leftarrow> OnInit registe h events a;
     if err \<noteq> None then Some (a1, kv, err)
     else do {
       let (s, serr) = Registration.Run (ap_opts a1) out ticks fin (NewService (ap_opts a1) kv);
       let a2 = a1\<lparr>ap_trace := ap_trace a1 @ map Serv (sv_trace s), ap_serStoped := True\<rparr>;
       a3 \<leftarrow> OnDestroy a2;
       Some (a3, sv_kv s, None)
     }
   }"

section \<open>Starting\<close>

text \<open>What a function given to \<open>OnRegiste\<close> is meant to do: register handlers and message routes.\<close>

definition registers :: "('c App \<Rightarrow> 'c App option) option \<Rightarrow> bool" where
  "registers registe = (\<forall>f a a1. registe = Some f \<longrightarrow> f a = Some a1 \<longrightarrow>
     (\<exists>p r. a1 = a\<lparr>ap_process := p, ap_dispatcher := (ap_dispatcher a)\<lparr>d_route := r\<rparr>\<rparr>))"

lemma registersD:
  assumes "registers (Some f)" and "f a = Some a1"
  obtains p r where "a1 = a\<lparr>ap_process := p, ap_dispatcher := (ap_dispatcher a)\<lparr>d_route := r\<rparr>\<rparr>"
  using assms unfolding registers_def by blast

lemma registers_None [simp]: "registers None"
  by (simp add: registers_def)

lemma registers_Register: "registers (Some (App_Register mid (h :: 'c DisposeFunc option)))"
proof -
  have "\<exists>p r. a1 = a\<lparr>ap_process := p, ap_dispatcher := (ap_dispatcher a)\<lparr>d_route := r\<rparr>\<rparr>"
    if "App_Register mid h a = Some a1" for a a1 :: "'c App"
  proof -
    from that obtain p where "a1 = a\<lparr>ap_process := p\<rparr>" by (auto simp: App_Register_def split: if_splits)
    then have "a1 = a\<lparr>ap_process := p, ap_dispatcher := (ap_dispatcher a)\<lparr>d_route := d_route (ap_dispatcher a)\<rparr>\<rparr>"
      by simp
    then show ?thesis by blast
  qed
  then show ?thesis by (simp add: registers_def)
qed

lemma NewRPCClient_eq:
  "NewRPCClient connect js opts = map_sum id (\<lambda>nc. \<lparr>rc_nats_client = Some nc, rc_tasks = []\<rparr>) (NewNatsClient connect js opts)"
  by (simp add: NewRPCClient_def split: sum.split)

lemma NewNatsClient_opts:
  "NewNatsClient connect js (opts\<lparr>opt_Serv := s, opt_HostName := hn, opt_PID := pid\<rparr>) = NewNatsClient connect js opts"
  by (simp add: NewNatsClient_def nats_Init_def Let_def)

text \<open>The application after each stage of \<open>OnInit\<close>.\<close>

definition app_opts :: "Host \<Rightarrow> Options \<Rightarrow> Options" where
  "app_opts h opts = opts\<lparr>opt_Serv := Some 0, opt_HostName := h_Hostname h, opt_PID := h_Pid h\<rparr>"

lemma app_opts_fields [simp]:
  "opt_AppName (app_opts h opts) = opt_AppName opts" "opt_ServerType (app_opts h opts) = opt_ServerType opts"
  "opt_ServerName (app_opts h opts) = opt_ServerName opts" "opt_Process (app_opts h opts) = opt_Process opts"
  "opt_RegisterInterval (app_opts h opts) = opt_RegisterInterval opts"
  "opt_ETCDHosts (app_opts h opts) = opt_ETCDHosts opts" "opt_ETCDCertFile (app_opts h opts) = opt_ETCDCertFile opts"
  "opt_ETCDKeyFile (app_opts h opts) = opt_ETCDKeyFile opts" "opt_MaxPacketSize (app_opts h opts) = opt_MaxPacketSize opts"
  by (simp_all add: app_opts_def)

lemma OnInit_cases:
  assumes "OnInit registe h events (make_app gate opts) = Some (a, err)" and "registers registe"
  obtains (Etcd) e where "snd (ETCD_Init h (opt_ETCDHosts opts) (opt_ETCDCertFile opts) (opt_ETCDKeyFile opts)) = Some e"
      "err = Some (EtcdErr e)" "ap_rpc a = None" "ap_trace a = [EtcdStart]"
  | (Process) "snd (ETCD_Init h (opt_ETCDHosts opts) (opt_ETCDCertFile opts) (opt_ETCDKeyFile opts)) = None"
      "opt_Process opts = None" "err = Some ProcessNil" "ap_rpc a = None" "ap_trace a = [EtcdStart]"
  | (Rpc) e where "snd (ETCD_Init h (opt_ETCDHosts opts) (opt_ETCDCertFile opts) (opt_ETCDKeyFile opts)) = None"
      "opt_Process opts \<noteq> None" "NewNatsClient (h_nats_Connect h) (h_nats_JetStream h) opts = Inl e"
      "err = Some (RpcErr e)" "ap_rpc a = None"
      "ap_trace a = [EtcdStart, ProcessInit] @ (if registe = None then [] else [CallRegiste])"
  | (Started) nc ec p r d where "snd (ETCD_Init h (opt_ETCDHosts opts) (opt_ETCDCertFile opts) (opt_ETCDKeyFile opts)) = None"
      "opt_Process opts \<noteq> None" "NewNatsClient (h_nats_Connect h) (h_nats_JetStream h) opts = Inr nc" "err = None"
      "ETCD_Init h (opt_ETCDHosts opts) (opt_ETCDCertFile opts) (opt_ETCDKeyFile opts) = (ec, None)"
      "Dispatcher_Start (h_etcd_Get h (opt_AppName opts)) events ((init (opts\<lparr>opt_Serv := Some 0\<rparr>))\<lparr>d_route := r\<rparr>) = Some d"
      "a = \<lparr>ap_isGate = gate, ap_opts = app_opts h opts, ap_process = p, ap_etcd = Some ec, ap_dispatcher = d,
        ap_rpc = Some \<lparr>rc_nats_client = Some nc, rc_tasks = [PublishHandle, RequestHandle]\<rparr>,
        ap_serStoped = False, ap_Verify = None,
        ap_trace = [EtcdStart, ProcessInit] @ (if registe = None then [] else [CallRegiste])
          @ [RpcNew, RpcStart, DispatcherStart]\<rparr>"
proof -
  let ?os = "opts\<lparr>opt_Serv := Some 0\<rparr>"
  obtain ec e where ec: "ETCD_Init h (opt_ETCDHosts opts) (opt_ETCDCertFile opts) (opt_ETCDKeyFile opts) = (ec, e)" by force
  let ?a3 = "\<lparr>ap_isGate = gate, ap_opts = app_opts h opts, ap_process = Processor_Init (opt_MaxPacketSize opts) NewProcessor,
    ap_etcd = Some ec, ap_dispatcher = init ?os, ap_rpc = None, ap_serStoped = False, ap_Verify = None,
    ap_trace = [EtcdStart, ProcessInit]\<rparr>"
  show thesis
  proof (cases e)
    case (Some e)
    then show thesis using assms(1) ec Etcd by (auto simp: OnInit_def make_app_def Let_def)
  next
    case e: None
    show thesis
    proof (cases "opt_Process opts = None")
      case True
      then show thesis using assms(1) ec e Process by (auto simp: OnInit_def make_app_def Let_def)
    next
      case False
      have opts: "opts\<lparr>opt_Serv := Some 0, opt_HostName := h_Hostname h, opt_PID := h_Pid h\<rparr> = app_opts h opts"
        by (simp add: app_opts_def)
      have "do {
          a4 \<leftarrow> (case registe of None \<Rightarrow> Some ?a3 | Some f \<Rightarrow> map_option (app_act CallRegiste) (f ?a3));
          start_parts h events a4
        } = Some (a, err)"
        using assms(1) ec e False by (simp add: OnInit_def make_app_def opts Let_def app_opts_def [symmetric])
      then obtain a4 where a4: "(case registe of None \<Rightarrow> Some ?a3 | Some f \<Rightarrow> map_option (app_act CallRegiste) (f ?a3)) = Some a4"
        and rest: "start_parts h events a4 = Some (a, err)"
        unfolding bind_eq_Some_conv by blast
      obtain p r where a4': "a4 = ?a3\<lparr>ap_process := p, ap_dispatcher := (init ?os)\<lparr>d_route := r\<rparr>,
        ap_trace := [EtcdStart, ProcessInit] @ (if registe = None then [] else [CallRegiste])\<rparr>"
      proof (cases registe)
        case None
        then have "a4 = ?a3" using a4 by simp
        moreover have upd: "(init ?os)\<lparr>d_route := d_route (init ?os)\<rparr> = init ?os" by simp
        ultimately show thesis
          by (intro that [of "d_route (init ?os)" "ap_process ?a3"]) (simp add: None upd)
      next
        case (Some f)
        with a4 obtain a1 where a1: "f ?a3 = Some a1" "a4 = app_act CallRegiste a1" by auto
        from assms(2) have "registers (Some f)" using Some by simp
        from this a1(1) obtain p r where "a1 = ?a3\<lparr>ap_process := p, ap_dispatcher := (init ?os)\<lparr>d_route := r\<rparr>\<rparr>"
          by (auto elim!: registersD)
        then show thesis using a1(2) by (intro that [of r p]) (simp add: Some)
      qed
      show thesis
      proof (cases "NewNatsClient (h_nats_Connect h) (h_nats_JetStream h) opts")
        case (Inl x)
        then show thesis using rest ec e False a4' Rpc
          by (auto simp: start_parts_def NewRPCClient_eq app_opts_def NewNatsClient_opts)
      next
        case (Inr nc)
        then obtain d where "Dispatcher_Start (h_etcd_Get h (opt_AppName opts)) events ((init ?os)\<lparr>d_route := r\<rparr>) = Some d"
          "err = None" "a = app_act DispatcherStart (app_act RpcStart (app_act RpcNew
            (a4\<lparr>ap_rpc := Some (RPC_Start \<lparr>rc_nats_client = Some nc, rc_tasks = []\<rparr>), ap_dispatcher := d\<rparr>)))"
          using rest a4' by (auto simp: start_parts_def NewRPCClient_eq app_opts_def NewNatsClient_opts Let_def bind_eq_Some_conv init_def)
        with Started ec e False Inr a4' show thesis
          by (simp add: RPC_Start_def)
      qed
    qed
  qed
qed

text \<open>
  \<open>OnInit\<close> fails with the error of its first step that fails, and has then started neither the RPC
  client nor the dispatcher.
\<close>

theorem OnInit_fails_before_starting:
  assumes "OnInit registe h events (make_app gate opts) = Some (a, err)" and "registers registe"
  shows "err = (case snd (ETCD_Init h (opt_ETCDHosts opts) (opt_ETCDCertFile opts) (opt_ETCDKeyFile opts)) of
        Some e \<Rightarrow> Some (EtcdErr e)
      | None \<Rightarrow> if opt_Process opts = None then Some ProcessNil
                else (case NewNatsClient (h_nats_Connect h) (h_nats_JetStream h) opts of
                        Inl e \<Rightarrow> Some (RpcErr e) | Inr nc \<Rightarrow> None))
    \<and> (err \<noteq> None \<longrightarrow> ap_rpc a = None \<and> set (ap_trace a) \<subseteq> {EtcdStart, ProcessInit, CallRegiste})"
  using assms by (cases rule: OnInit_cases) auto

definition good_host :: Host where
  "good_host = \<lparr>h_Hostname = ''box'', h_Pid = ''1'', h_ReadFile = (\<lambda>_. None), h_X509KeyPair = (\<lambda>_ _. True),
     h_etcd_New = (\<lambda>_. True), h_etcd_Put = (\<lambda>_ _. True), h_etcd_Get = (\<lambda>_. Some []),
     h_nats_Connect = (\<lambda>_. True), h_nats_JetStream = True\<rparr>"

theorem OnInit_fails_before_starting_witness:
  "\<exists>a. OnInit None good_host [] (make_app True default_options :: unit App) = Some (a, Some (RpcErr HostsNil))
     \<and> ap_rpc a = None"
proof -
  obtain a err where a: "OnInit None good_host [] (make_app True default_options :: unit App) = Some (a, err)"
    by (simp add: OnInit_def start_parts_def NewRPCClient_def NewNatsClient_def nats_hosts_def ETCD_Init_def etcd_tls_def
        good_host_def make_app_def default_options_def Let_def)
  from OnInit_fails_before_starting [OF a registers_None] have "err = Some (RpcErr HostsNil) \<and> ap_rpc a = None"
    by (auto simp: NewNatsClient_def nats_hosts_def ETCD_Init_def etcd_tls_def good_host_def default_options_def Let_def)
  with a show ?thesis by blast
qed

text \<open>
  Handlers have to be registered in the function given to \<open>OnRegiste\<close>: before the application runs
  a registration panics, as the processor has no table yet; those of the function are there when
  the application has started.
\<close>

theorem handlers_register_in_callback:
  assumes "OnInit (Some (App_Register mid f)) h events (make_app gate opts) = Some (a, None)"
  shows "App_Register mid f (make_app gate opts) = None \<and> GetMsgInfo mid (ap_process a) = Some f"
proof -
  have keep: "ap_process a = ap_process a4" if "start_parts h events a4 = Some (a, None)" for a4
    using that by (auto simp: start_parts_def Let_def bind_eq_Some_conv split: sum.splits)
  obtain ec e where ec: "ETCD_Init h (opt_ETCDHosts opts) (opt_ETCDCertFile opts) (opt_ETCDKeyFile opts) = (ec, e)" by force
  have e: "e = None" "opt_Process opts \<noteq> None"
    using assms ec by (auto simp: OnInit_def make_app_def Let_def split: option.splits if_splits)
  then have "GetMsgInfo mid (ap_process a) = Some f"
    using assms ec
    by (auto simp: OnInit_def make_app_def Let_def App_Register_def Register_def Processor_Init_def GetMsgInfo_def
        update_conv' dest!: keep)
  moreover have "App_Register mid f (make_app gate opts) = None"
    by (simp add: App_Register_def make_app_def Register_def NewProcessor_def Let_def)
  ultimately show ?thesis by blast
qed

definition started_host :: Host where
  "started_host = good_host\<lparr>h_etcd_Get := (\<lambda>_. None)\<rparr>"

definition one_nats :: Options where
  "one_nats = default_options\<lparr>opt_NatsHosts := [''h'']\<rparr>"

lemma started_app:
  "\<exists>a. OnInit (Some (App_Register mid f)) started_host [] (make_app gate one_nats) = Some (a, None)"
  by (simp add: OnInit_def start_parts_def NewRPCClient_def NewNatsClient_def nats_hosts_def ETCD_Init_def etcd_tls_def
      started_host_def good_host_def make_app_def one_nats_def default_options_def Dispatcher_Start_def App_Register_def Register_def
      Processor_Init_def Let_def)

theorem handlers_register_in_callback_witness:
  "\<exists>a. OnInit (Some (App_Register 7 (Some (\<lambda>ctl m. Some None)))) started_host [] (make_app False one_nats :: unit App) = Some (a, None)
    \<and> GetMsgInfo 7 (ap_process a) = Some (Some (\<lambda>ctl m. Some None))"
  using started_app [of 7 "Some (\<lambda>ctl m. Some None)" False] handlers_register_in_callback by blast

section \<open>Stopping\<close>

lemma Dispatcher_Start_exit:
  assumes "Dispatcher_Start answer events ((init opts)\<lparr>d_route := r\<rparr>) = Some d"
  shows "\<not> d_exit d"
proof -
  obtain kvs where "do { d1 \<leftarrow> connectAll ((init opts)\<lparr>d_route := r\<rparr>) kvs; watcher d1 events } = Some d"
  proof (cases answer)
    case None
    with assms that [of "[]"] show thesis by (simp add: Dispatcher_Start_def)
  next
    case (Some kvs)
    with assms that [of kvs] show thesis by (simp add: Dispatcher_Start_def)
  qed
  then have "watcher ((init opts)\<lparr>d_route := r\<rparr>) (map (\<lambda>(k, v). PUT k v) kvs @ events) = Some d"
    unfolding connectAll_watcher watcher_append [symmetric] .
  moreover obtain srvs where "watcher (init opts) (map (\<lambda>(k, v). PUT k v) kvs @ events) = Some (init opts\<lparr>d_services := srvs\<rparr>)"
    using started [of opts kvs events] unfolding connectAll_watcher watcher_append [symmetric] by metis
  ultimately have "d = init opts\<lparr>d_services := srvs, d_route := r\<rparr>" by (simp add: watcher_route)
  then show ?thesis by (simp add: init_def Let_def)
qed

lemma Run_takes_entry_back:
  assumes "0 < sint (opt_RegisterInterval opts)" and "Registration.Run opts out ticks fin s = (s', None)"
    and "o_client fin" and "o_delete fin"
  shows "sv_kv s' (st_Key (sv_Status s)) = None
    \<and> (\<exists>tr. filter (\<lambda>x. x \<noteq> StopErr) (sv_trace s') = tr @ [BeforeStop, DeleteEntry, StopServer, AfterStop])"
proof -
  obtain s1 where start: "Registration.Start out s = (s1, None)" and s': "s' = Registration.Stop fin (Registration.run opts ticks s1)"
    using assms(2) by (auto simp: Run_def Let_def split: prod.splits if_splits)
  have "st_Key (sv_Status s1) = st_Key (sv_Status s)"
    using start by (auto simp: Registration.Start_def register_def Let_def split: prod.splits if_splits option.splits)
  moreover have "same_entry s1 (Registration.run opts ticks s1)" by (rule run_entry [OF assms(1)])
  ultimately have "st_Key (sv_Status (Registration.run opts ticks s1)) = st_Key (sv_Status s)" by (simp add: same_entry_def)
  then show ?thesis using assms(3,4) unfolding s' by (simp add: Registration.Stop_def deregister_def warn_if_def Let_def)
qed

text \<open>
  An application that has started stops its parts in order: the service takes its entry out of the
  registry and stops the server, and only then the RPC client, the dispatcher and the etcd client
  are closed, also when the service had failed. An application whose service ran leaves no entry in
  the registry, as long as the entry can be deleted.
\<close>

theorem App_stops_in_order:
  assumes "App_Run os registe h events out ticks fin kv (make_app gate opts) = Some (a, kv', None)"
    and "registers registe" and "0 < sint (opt_RegisterInterval opts)"
    and "Registration.Run (ap_opts a) out ticks fin (NewService (ap_opts a) kv) = (s, serr)"
  shows "ap_trace a = [EtcdStart, ProcessInit] @ (if registe = None then [] else [CallRegiste])
        @ [RpcNew, RpcStart, DispatcherStart] @ map Serv (sv_trace s) @ [RpcStop, DispatcherStop, EtcdClose]
    \<and> (\<exists>nc. Option.bind (ap_rpc a) rc_nats_client = Some nc \<and> nc_closed nc) \<and> d_exit (ap_dispatcher a)
    \<and> (serr = None \<and> o_client fin \<and> o_delete fin \<longrightarrow>
        kv' (opt_AppName opts @ ''/'' @ opt_ServerType opts @ ''/'' @ opt_ServerName opts) = None
        \<and> (\<exists>tr. filter (\<lambda>x. x \<noteq> StopErr) (sv_trace s) = tr @ [BeforeStop, DeleteEntry, StopServer, AfterStop]))"
proof -
  obtain a1 where a1: "OnInit registe h events (make_app gate opts) = Some (a1, None)"
    using assms(1) by (auto simp: App_Run_def bind_eq_Some_conv Let_def split: prod.splits if_splits)
  from a1 assms(2) show ?thesis
  proof (cases rule: OnInit_cases)
    case (Started nc ec p r d)
    have ec: "ec_client ec = Some True" using Started(5)
      by (auto simp: ETCD_Init_def Let_def split: sum.splits if_splits)
    have nc: "\<not> nc_closed nc" using Started(3)
      by (auto simp: NewNatsClient_def nats_Init_def Let_def split: if_splits)
    obtain s1 serr1 where run: "Registration.Run (app_opts h opts) out ticks fin (NewService (app_opts h opts) kv) = (s1, serr1)"
      by force
    have a: "a = a1\<lparr>ap_serStoped := True, ap_rpc := Some \<lparr>rc_nats_client = Some (nc\<lparr>nc_closed := True, nc_conn_closed := True\<rparr>),
          rc_tasks = [PublishHandle, RequestHandle]\<rparr>, ap_dispatcher := d\<lparr>d_exit := True\<rparr>,
        ap_etcd := Some (ec\<lparr>ec_client := Some False\<rparr>),
        ap_trace := ap_trace a1 @ map Serv (sv_trace s1) @ [RpcStop, DispatcherStop, EtcdClose]\<rparr>" "kv' = sv_kv s1"
      using assms(1) a1 run ec nc Dispatcher_Start_exit [OF Started(6)]
      by (simp_all add: App_Run_def OnDestroy_def RPC_Stop_def Done_def Dispatcher.Stop_def Started(7) Let_def)
    have "ap_opts a = app_opts h opts" by (simp add: a(1) Started(7))
    with run assms(4) have s: "s1 = s" "serr1 = serr" by auto
    have "st_Key (sv_Status (NewService (app_opts h opts) kv))
        = opt_AppName opts @ ''/'' @ opt_ServerType opts @ ''/'' @ opt_ServerName opts"
      by (simp add: NewService_def Let_def)
    with Run_takes_entry_back [of "app_opts h opts" out ticks fin "NewService (app_opts h opts) kv" s1] run assms(3) a s
    show ?thesis by (auto simp: Started(7))
  qed simp_all
qed

theorem App_stops_in_order_witness:
  "\<exists>a kv' tr. App_Run [] (Some (App_Register 7 None)) started_host [] all_well [] all_well Map.empty
      (make_app False one_nats :: unit App) = Some (a, kv', None)
    \<and> ap_trace a = [EtcdStart, ProcessInit, CallRegiste, RpcNew, RpcStart, DispatcherStart] @ tr
        @ [RpcStop, DispatcherStop, EtcdClose] \<and> d_exit (ap_dispatcher a)"
proof -
  obtain a1 where a1: "OnInit (Some (App_Register 7 None)) started_host [] (make_app False one_nats :: unit App) = Some (a1, None)"
    using started_app by blast
  obtain s1 serr1 where "Registration.Run (ap_opts a1) all_well [] all_well (NewService (ap_opts a1) Map.empty) = (s1, serr1)"
    by force
  with a1 obtain a kv' where run: "App_Run [] (Some (App_Register 7 None)) started_host [] all_well [] all_well Map.empty
      (make_app False one_nats :: unit App) = Some (a, kv', None)"
    by (auto simp: App_Run_def OnDestroy_def Let_def)
  obtain s serr where "Registration.Run (ap_opts a) all_well [] all_well (NewService (ap_opts a) Map.empty) = (s, serr)"
    by force
  from App_stops_in_order [OF run registers_Register _ this] run show ?thesis
    by (auto simp: one_nats_def default_options_def)
qed

section \<open>Following the registry\<close>

lemma registry_kvs:
  "distinct (map fst kvs) \<Longrightarrow> registry r (map (\<lambda>(k, v). PUT k v) kvs) = r ++ map_of kvs"
proof (induction kvs arbitrary: r)
  case (Cons kv kvs)
  obtain k v where kv: "kv = (k, v)" by (cases kv)
  have "registry r (map (\<lambda>(k, v). PUT k v) (kv # kvs)) = r(k \<mapsto> v) ++ map_of kvs"
    using Cons by (simp add: kv)
  also have "map_of kvs k = None" using Cons.prems by (simp add: kv map_of_eq_None_iff)
  then have "r(k \<mapsto> v) ++ map_of kvs = r ++ map_of (kv # kvs)"
    by (auto simp: kv map_add_def fun_eq_iff split: option.split)
  finally show ?case .
qed simp

text \<open>
  C33. The dispatcher gets the entries at one revision \<open>i\<close> of the registry, and watches from the revision
  \<open>j\<close> at which the watcher asks again. It then shows the registry as if the events between the two
  had not happened: an entry that was deleted there stays, one that was put there is never seen.
\<close>

theorem Start_misses_events_before_watch:
  assumes "map_of kvs = registry Map.empty (take i log)" and "distinct (map fst kvs)"
  shows "\<exists>d. Dispatcher_Start (Some kvs) (Watch j log) (init opts) = Some d
    \<and> statuses d = visible (init opts) (registry Map.empty (take i log @ drop j log))
    \<and> (i = j \<longrightarrow> statuses d = visible (init opts) (registry Map.empty log))"
proof -
  obtain srvs where "do { d1 \<leftarrow> connectAll (init opts) kvs; watcher d1 (drop j log) } = Some (init opts\<lparr>d_services := srvs\<rparr>)"
    "statuses (init opts\<lparr>d_services := srvs\<rparr>) =
      visible (init opts) (registry Map.empty (map (\<lambda>(k, v). PUT k v) kvs @ drop j log))"
    using started [of opts kvs "drop j log"] by metis
  moreover have "registry (registry Map.empty (take j log)) (drop j log) = registry Map.empty log"
    unfolding registry_append [symmetric] by simp
  ultimately show ?thesis
    using assms by (auto simp: Dispatcher_Start_def Watch_def registry_append registry_kvs)
qed

theorem Start_misses_events_before_watch_witness:
  "\<exists>d. Dispatcher_Start (Some [(''a/g/1'', ''up'')]) (Watch 2 [PUT ''a/g/1'' ''up'', DELETE ''a/g/1'']) (init default_options) = Some d
    \<and> statuses d ''a/g/1'' = Some ''up'' \<and> registry Map.empty [PUT ''a/g/1'' ''up'', DELETE ''a/g/1''] = Map.empty"
  using Start_misses_events_before_watch [of "[(''a/g/1'', ''up'')]" 1 "[PUT ''a/g/1'' ''up'', DELETE ''a/g/1'']" 2 default_options]
  by (auto simp: visible_def not_provided_def init_def default_options_def fun_upd_def fun_eq_iff)

end
