(* ===== verification/Sorting.thy ===== *)
theory Sorting
  imports Containers "HOL-Library.Multiset"
begin

text \<open>
  The interface of a container, \<open>dispatcher/hash/containers/containers.go\<close>, and the sorting of its
  values with a comparator, \<open>dispatcher/hash/containers/sort.go\<close>: the three methods of \<open>sortable\<close> and
  the library's sort on top of them, which only sees the values through these methods.
\<close>

section \<open>The sortable slice\<close>

record sortable =
  so_values :: "iface list"
  so_comparator :: comparator

definition sortable_Len :: "sortable \<Rightarrow> nat" where
  "sortable_Len s = length (so_values s)"

text \<open>An index out of range panics.\<close>

definition sortable_Swap :: "sortable \<Rightarrow> nat \<Rightarrow> nat \<Rightarrow> sortable option" where
  "sortable_Swap s i j =
     (if i < length (so_values s) \<and> j < length (so_values s)
      then Some (s\<lparr>so_values := (so_values s)[i := so_values s ! j, j := so_values s ! i]\<rparr>)
      else None)"

definition sortable_Less :: "sortable \<Rightarrow> nat \<Rightarrow> nat \<Rightarrow> bool option" where
  "sortable_Less s i j =
     (if i < length (so_values s) \<and> j < length (so_values s)
      then map_option (\<lambda>c. c < 0) (so_comparator s (so_values s ! i) (so_values s ! j))
      else None)"

section \<open>The library's sort\<close>

text \<open>
  \<open>sort.Sort\<close> calls these methods and nothing else. It is the insertion sort that the library runs on
  short slices: each element in turn is swapped towards the front while it is less than the one
  before it. On longer ones the library makes other comparisons, and may order equal elements
  differently; the properties below are of the values, which do not depend on that.
\<close>

fun sink :: "sortable \<Rightarrow> nat \<Rightarrow> sortable option" where
  "sink s 0 = Some s"
| "sink s (Suc j) = do {
     l \<leftarrow> sortable_Less s (Suc j) j;
     if l then do { s1 \<leftarrow> sortable_Swap s (Suc j) j; sink s1 j } else Some s
   }"

fun insertion :: "sortable \<Rightarrow> nat \<Rightarrow> nat \<Rightarrow> sortable option" where
  "insertion s i 0 = Some s"
| "insertion s i (Suc n) = do { s1 \<leftarrow> sink s i; insertion s1 (Suc i) n }"

definition sort_Sort :: "sortable \<Rightarrow> sortable option" where
  "sort_Sort s = insertion s 1 (sortable_Len s - 1)"

definition Sort :: "iface list \<Rightarrow> comparator \<Rightarrow> iface list option" where
  "Sort values cmp = map_option so_values (sort_Sort \<lparr>so_values = values, so_comparator = cmp\<rparr>)"

section \<open>Containers\<close>

text \<open>
  A container is seen through its methods. \<open>GetSortedValues\<close> sorts the slice that \<open>Values\<close> returns in
  place, so that it is the container's business to return a fresh one.
\<close>

record Container =
  ct_Empty :: bool
  ct_Size :: int
  ct_Values :: "iface list"

definition GetSortedValues :: "Container \<Rightarrow> comparator \<Rightarrow> iface list option" where
  "GetSortedValues container cmp =
     (let values = ct_Values container
      in if length values < 2 then Some values else Sort values cmp)"

section \<open>Insertion\<close>

text \<open>The same on lists: an element joins a prefix given in reverse, and a list is consumed.\<close>

fun insert_last :: "('k \<Rightarrow> 'k \<Rightarrow> int option) \<Rightarrow> 'k list \<Rightarrow> 'k \<Rightarrow> 'k list option" where
  "insert_last cmp [] x = Some [x]"
| "insert_last cmp (y # ys) x = do {
     c \<leftarrow> cmp x y;
     if c < 0 then map_option (\<lambda>r. y # r) (insert_last cmp ys x) else Some (x # y # ys)
   }"

fun insert_all :: "('k \<Rightarrow> 'k \<Rightarrow> int option) \<Rightarrow> 'k list \<Rightarrow> 'k list \<Rightarrow> 'k list option" where
  "insert_all cmp ys [] = Some ys"
| "insert_all cmp ys (x # xs) = do { ys1 \<leftarrow> insert_last cmp ys x; insert_all cmp ys1 xs }"

lemma swap_at: "length p = j \<Longrightarrow> (p @ y # x # zs)[j := x, Suc j := y] = p @ x # y # zs"
  by (auto simp: list_update_append split: nat.splits)

lemma length_insert_last: "insert_last cmp ys x = Some r \<Longrightarrow> length r = Suc (length ys)"
  by (induction ys arbitrary: r) (auto simp: bind_eq_Some_conv split: if_splits)

lemma sink_insert_last:
  "sink \<lparr>so_values = rev ys @ x # zs, so_comparator = cmp\<rparr> (length ys)
   = map_option (\<lambda>r. \<lparr>so_values = rev r @ zs, so_comparator = cmp\<rparr>) (insert_last cmp ys x)"
proof (induction ys arbitrary: zs)
  case (Cons y ys)
  have at: "(rev ys @ y # x # zs) ! Suc (length ys) = x" "(rev ys @ y # x # zs) ! length ys = y"
    by (simp_all add: nth_append)
  have swap: "(rev ys @ y # x # zs)[Suc (length ys) := y, length ys := x] = rev ys @ x # y # zs"
    using swap_at [of "rev ys" "length ys" y x zs] by (simp add: list_update_swap)
  show ?case
    using Cons.IH [of "y # zs"]
    by (cases "cmp x y") (auto simp: sortable_Less_def sortable_Swap_def at swap option.map_comp comp_def)
qed simp

lemma insertion_insert_all:
  "insertion \<lparr>so_values = rev ys @ xs, so_comparator = cmp\<rparr> (length ys) (length xs)
   = map_option (\<lambda>r. \<lparr>so_values = rev r, so_comparator = cmp\<rparr>) (insert_all cmp ys xs)"
proof (induction xs arbitrary: ys)
  case (Cons x xs)
  show ?case
  proof (cases "insert_last cmp ys x")
    case None
    then show ?thesis by (simp add: sink_insert_last)
  next
    case (Some r)
    with Cons.IH [of r] show ?thesis by (simp add: sink_insert_last length_insert_last)
  qed
qed simp

lemma Sort_insert_all:
  "Sort (x # xs) cmp = map_option rev (insert_all cmp [x] xs)"
  using insertion_insert_all [of "[x]" xs cmp]
  by (simp add: Sort_def sort_Sort_def sortable_Len_def option.map_comp comp_def)

context comparator_order
begin

lemma insert_last_sorted:
  assumes "set (x # ys) \<subseteq> K" and "sorted_wrt (\<lambda>a b. rank b \<le> rank a) ys"
  shows "\<exists>r. insert_last cmp ys x = Some r \<and> mset r = add_mset x (mset ys) \<and> sorted_wrt (\<lambda>a b. rank b \<le> rank a) r"
  using assms
proof (induction ys)
  case (Cons y ys)
  then obtain r where r: "insert_last cmp ys x = Some r" "mset r = add_mset x (mset ys)"
    "sorted_wrt (\<lambda>a b. rank b \<le> rank a) r" by auto
  then have "set r = insert x (set ys)" by (metis set_mset_add_mset_insert set_mset_mset)
  have "\<forall>b \<in> set ys. rank b \<le> rank y" using Cons.prems(2) by simp
  have "x \<in> K" "y \<in> K" using Cons.prems by auto
  then show ?case
  proof (cases rule: cmp_cases)
    case (LT c)
    with r Cons.prems \<open>set r = insert x (set ys)\<close> show ?thesis by simp
  next
    case (EQ c)
    with Cons.prems(2) show ?thesis by (auto intro: order.trans)
  next
    case (GT c)
    with Cons.prems(2) \<open>\<forall>b \<in> set ys. rank b \<le> rank y\<close> show ?thesis by (auto intro: order.trans less_imp_le)
  qed
qed simp

lemma insert_all_sorted:
  assumes "set (ys @ xs) \<subseteq> K" and "sorted_wrt (\<lambda>a b. rank b \<le> rank a) ys"
  shows "\<exists>r. insert_all cmp ys xs = Some r \<and> mset r = mset ys + mset xs \<and> sorted_wrt (\<lambda>a b. rank b \<le> rank a) r"
  using assms
proof (induction xs arbitrary: ys)
  case (Cons x xs)
  then obtain r where r: "insert_last cmp ys x = Some r" "mset r = add_mset x (mset ys)"
    "sorted_wrt (\<lambda>a b. rank b \<le> rank a) r" using insert_last_sorted [of x ys] by auto
  then have "set r = insert x (set ys)" by (metis set_mset_add_mset_insert set_mset_mset)
  with Cons.prems have "set (r @ xs) \<subseteq> K" by auto
  from Cons.IH [OF this r(3)] r show ?case by auto
qed simp

end

section \<open>Sorted values\<close>

lemma Sort_sorted:
  assumes "comparator_order cmp K rank" and "set vals \<subseteq> K"
  shows "\<exists>vs. Sort vals cmp = Some vs \<and> mset vs = mset vals \<and> sorted_wrt (\<lambda>a b. rank a \<le> rank b) vs"
proof (cases vals)
  case Nil
  then show ?thesis by (simp add: Sort_def sort_Sort_def sortable_Len_def)
next
  case (Cons x xs)
  with comparator_order.insert_all_sorted [OF assms(1), of "[x]" xs] assms(2)
  obtain r where "insert_all cmp [x] xs = Some r" "mset r = mset vals" "sorted_wrt (\<lambda>a b. rank b \<le> rank a) r"
    by auto
  then show ?thesis by (intro exI [of _ "rev r"]) (simp add: Cons Sort_insert_all sorted_wrt_rev)
qed

text \<open>A value outside the type of the comparator is compared with another one, which panics.\<close>

lemma insert_all_typed:
  assumes "\<And>a b. cmp a b \<noteq> None \<longleftrightarrow> a \<in> K \<and> b \<in> K" and "insert_all cmp ys xs = Some r"
    and "ys \<noteq> []" and "xs \<noteq> []"
  shows "hd ys \<in> K \<and> set xs \<subseteq> K"
  using assms(2-4)
proof (induction xs arbitrary: ys)
  case (Cons x xs)
  obtain y ys' where ys: "ys = y # ys'" using Cons.prems(2) by (cases ys) auto
  from Cons.prems(1) obtain ys1 where ys1: "insert_last cmp ys x = Some ys1" "insert_all cmp ys1 xs = Some r"
    by (auto simp: bind_eq_Some_conv)
  then have "cmp x y \<noteq> None" by (auto simp: ys bind_eq_Some_conv)
  then have xy: "x \<in> K" "y \<in> K" using assms(1) by blast+
  have "ys1 \<noteq> []" using length_insert_last [OF ys1(1)] by auto
  with Cons.IH [OF ys1(2)] xy show ?case by (cases xs) (auto simp: ys)
qed simp

text \<open>
  C40. For a comparator whose domain are the values of a type: two or more values are sorted exactly when
  they all have that type, and then the result is the ascending arrangement of the same values; any
  other mixture panics, but a single value of any type passes.
\<close>

theorem GetSortedValues_sorts:
  assumes "comparator_order cmp K rank" and "\<And>a b. cmp a b \<noteq> None \<longleftrightarrow> a \<in> K \<and> b \<in> K"
  shows "case GetSortedValues container cmp of
      None \<Rightarrow> \<not> set (ct_Values container) \<subseteq> K \<and> 2 \<le> length (ct_Values container)
    | Some vs \<Rightarrow> mset vs = mset (ct_Values container)
        \<and> (2 \<le> length vs \<longrightarrow> set vs \<subseteq> K) \<and> sorted_wrt (\<lambda>a b. rank a \<le> rank b) vs"
proof (cases "length (ct_Values container) < 2")
  case True
  then consider "ct_Values container = []" | x where "ct_Values container = [x]"
    by (metis One_nat_def length_0_conv length_Suc_conv less_2_cases)
  then show ?thesis by cases (simp_all add: GetSortedValues_def)
next
  case False
  then obtain x y xs where vals: "ct_Values container = x # y # xs"
    by (cases "ct_Values container"; cases "tl (ct_Values container)") auto
  then have eq: "GetSortedValues container cmp = Sort (x # y # xs) cmp" by (simp add: GetSortedValues_def)
  show ?thesis
  proof (cases "set (ct_Values container) \<subseteq> K")
    case True
    with Sort_sorted [OF assms(1) True] obtain vs where vs: "GetSortedValues container cmp = Some vs"
      "mset vs = mset (ct_Values container)" "sorted_wrt (\<lambda>a b. rank a \<le> rank b) vs" by (auto simp: eq vals)
    moreover have "set vs \<subseteq> K" using True mset_eq_setD [OF vs(2)] by blast
    ultimately show ?thesis by simp
  next
    case False
    have "insert_all cmp [x] (y # xs) = None"
    proof (rule ccontr)
      assume "insert_all cmp [x] (y # xs) \<noteq> None"
      then obtain r where "insert_all cmp [x] (y # xs) = Some r" by blast
      from insert_all_typed [OF assms(2) this] False vals show False by simp
    qed
    then show ?thesis using False unfolding eq Sort_insert_all by (simp add: vals)
  qed
qed

theorem GetSortedValues_sorts_witness:
  "GetSortedValues \<lparr>ct_Empty = False, ct_Size = 2, ct_Values = [IUInt32 9, IUInt32 4]\<rparr> UInt32Comparator = Some [IUInt32 4, IUInt32 9]
   \<and> GetSortedValues \<lparr>ct_Empty = False, ct_Size = 2, ct_Values = [IUInt32 9, IString ''a'']\<rparr> UInt32Comparator = None"
proof -
  let ?mix = "[IUInt32 9, IString ''a'']"
  have dom: "UInt32Comparator a b \<noteq> None \<longleftrightarrow> a \<in> range IUInt32 \<and> b \<in> range IUInt32" for a b
    by (auto simp: UInt32Comparator_def split: iface.splits)
  note inst = GetSortedValues_sorts [OF uint32_cmp.comparator_order_axioms dom]
  have "GetSortedValues \<lparr>ct_Empty = False, ct_Size = 2, ct_Values = [IUInt32 9, IUInt32 4]\<rparr> UInt32Comparator = Some [IUInt32 4, IUInt32 9]"
    by (simp add: GetSortedValues_def Sort_insert_all UInt32Comparator_def switch3_def)
  moreover have "GetSortedValues \<lparr>ct_Empty = False, ct_Size = 2, ct_Values = ?mix\<rparr> UInt32Comparator = None"
  proof (rule ccontr)
    assume "GetSortedValues \<lparr>ct_Empty = False, ct_Size = 2, ct_Values = ?mix\<rparr> UInt32Comparator \<noteq> None"
    then obtain vs where vs: "mset vs = mset ?mix" "2 \<le> length vs \<longrightarrow> set vs \<subseteq> range IUInt32"
      using inst [of "\<lparr>ct_Empty = False, ct_Size = 2, ct_Values = ?mix\<rparr>"] by auto
    with mset_eq_length [OF vs(1)] mset_eq_setD [OF vs(1)] show False by auto
  qed
  ultimately show ?thesis by blast
qed

end
