(* ===== verification/MapsLoops.thy ===== *)
theory MapsLoops
  imports MapsPaths
begin

text \<open>
  Termination of the loops of \<open>maps.go\<close>. The model of each loop may run for ever; here it is given a
  number of iterations that it may not exceed. On a well-formed map all of them end in a number of
  iterations that is logarithmic in the number of entries.
\<close>

section \<open>Loops that may make so many iterations\<close>

text \<open>
  \<open>None\<close> means that the loop has not ended yet, and \<open>Some None\<close> that an iteration panicked; the bodies
  are those of the loops they are named after.
\<close>

fun lookup_within :: "nat \<Rightarrow> ('k, 'v) Map \<Rightarrow> 'k \<Rightarrow> ptr \<Rightarrow> ptr option option" where
  "lookup_within n m key None = Some (Some None)"
| "lookup_within 0 m key (Some r) = None"
| "lookup_within (Suc n) m key (Some r) = (case deref m (Some r) of
     None \<Rightarrow> Some None
   | Some d \<Rightarrow> (case Comparator m key (Key d) of
       None \<Rightarrow> Some None
     | Some c \<Rightarrow> if c = 0 then Some (Some (Some r))
                 else if c < 0 then lookup_within n m key (Left d)
                 else lookup_within n m key (Right d)))"

fun floor_within :: "nat \<Rightarrow> ('k, 'v) Map \<Rightarrow> 'k \<Rightarrow> ptr \<Rightarrow> ptr \<Rightarrow> ptr option option" where
  "floor_within n m key None fl = Some (Some fl)"
| "floor_within 0 m key (Some r) fl = None"
| "floor_within (Suc n) m key (Some r) fl = (case deref m (Some r) of
     None \<Rightarrow> Some None
   | Some d \<Rightarrow> (case Comparator m key (Key d) of
       None \<Rightarrow> Some None
     | Some c \<Rightarrow> if c = 0 then Some (Some (Some r))
                 else if c < 0 then floor_within n m key (Left d) fl
                 else floor_within n m key (Right d) (Some r)))"

fun ceiling_within :: "nat \<Rightarrow> ('k, 'v) Map \<Rightarrow> 'k \<Rightarrow> ptr \<Rightarrow> ptr \<Rightarrow> ptr option option" where
  "ceiling_within n m key None cl = Some (Some cl)"
| "ceiling_within 0 m key (Some r) cl = None"
| "ceiling_within (Suc n) m key (Some r) cl = (case deref m (Some r) of
     None \<Rightarrow> Some None
   | Some d \<Rightarrow> (case Comparator m key (Key d) of
       None \<Rightarrow> Some None
     | Some c \<Rightarrow> if c = 0 then Some (Some (Some r))
                 else if c < 0 then ceiling_within n m key (Left d) (Some r)
                 else ceiling_within n m key (Right d) cl))"

fun left_within :: "nat \<Rightarrow> ('k, 'v) Map \<Rightarrow> ptr \<Rightarrow> ptr \<Rightarrow> ptr option option" where
  "left_within n m parent None = Some (Some parent)"
| "left_within 0 m parent (Some r) = None"
| "left_within (Suc n) m parent (Some r) = (case getLeft m (Some r) of
     None \<Rightarrow> Some None | Some l \<Rightarrow> left_within n m (Some r) l)"

fun right_within :: "nat \<Rightarrow> ('k, 'v) Map \<Rightarrow> ptr \<Rightarrow> ptr \<Rightarrow> ptr option option" where
  "right_within n m parent None = Some (Some parent)"
| "right_within 0 m parent (Some r) = None"
| "right_within (Suc n) m parent (Some r) = (case getRight m (Some r) of
     None \<Rightarrow> Some None | Some l \<Rightarrow> right_within n m (Some r) l)"

text \<open>The loop of \<open>Put\<close> is only entered on a node.\<close>

fun put_within :: "nat \<Rightarrow> ('k, 'v) Map \<Rightarrow> 'k \<Rightarrow> 'v \<Rightarrow> ptr
    \<Rightarrow> (('k, 'v) Map \<times> (ptr \<times> ptr) option) option option" where
  "put_within 0 m key val node = None"
| "put_within (Suc n) m key val node = (case deref m node of
     None \<Rightarrow> Some None
   | Some d \<Rightarrow> (case Comparator m key (Key d) of
       None \<Rightarrow> Some None
     | Some c \<Rightarrow>
         if c = 0 then Some (do {
           m1 \<leftarrow> update_node m node (Key_update (\<lambda>_. key));
           m2 \<leftarrow> update_node m1 node (Value_update (\<lambda>_. val));
           Some (m2, None) })
         else if c < 0 then
           (if Left d = None then Some (do {
              let (m1, r) = new_node m key val;
              m2 \<leftarrow> setLeft m1 node r;
              Some (m2, Some (r, node)) })
            else put_within n m key val (Left d))
         else
           (if Right d = None then Some (do {
              let (m1, r) = new_node m key val;
              m2 \<leftarrow> setRight m1 node r;
              Some (m2, Some (r, node)) })
            else put_within n m key val (Right d))))"

section \<open>They are the loops\<close>

lemma lookup_within_loop: "lookup_within n m key node = Some r \<Longrightarrow> lookup_loop m key node = r"
  by (induction n m key node rule: lookup_within.induct)
    (auto simp: lookup_loop.simps [of m key "Some r'" for m key r'] lookup_loop.simps [of m key None for m key]
      split: option.splits if_splits)

lemma floor_within_loop: "floor_within n m key node fl = Some r \<Longrightarrow> floor_loop m key node fl = r"
  by (induction n m key node fl rule: floor_within.induct)
    (auto simp: floor_loop.simps [of m key "Some r'" for m key r'] floor_loop.simps [of m key None for m key]
      split: option.splits if_splits)

lemma ceiling_within_loop: "ceiling_within n m key node cl = Some r \<Longrightarrow> ceiling_loop m key node cl = r"
  by (induction n m key node cl rule: ceiling_within.induct)
    (auto simp: ceiling_loop.simps [of m key "Some r'" for m key r'] ceiling_loop.simps [of m key None for m key]
      split: option.splits if_splits)

lemma left_within_loop: "left_within n m p node = Some r \<Longrightarrow> left_loop m p node = r"
  by (induction n m p node rule: left_within.induct)
    (auto simp: left_loop.simps [of m p "Some r'" for m p r'] left_loop.simps [of m p None for m p]
      split: option.splits if_splits)

lemma right_within_loop: "right_within n m p node = Some r \<Longrightarrow> right_loop m p node = r"
  by (induction n m p node rule: right_within.induct)
    (auto simp: right_loop.simps [of m p "Some r'" for m p r'] right_loop.simps [of m p None for m p]
      split: option.splits if_splits)

lemma put_within_loop: "put_within n m key val node = Some r \<Longrightarrow> put_loop m key val node = r"
proof (induction n arbitrary: node)
  case (Suc n)
  from Suc.prems show ?case
    by (subst put_loop.simps)
      (auto dest: Suc.IH split: option.splits if_splits cong del: bind_weak_cong)
qed simp

section \<open>They end\<close>

context comparator_order
begin

lemma searches_end:
  assumes "Comparator m = cmp" and "key \<in> K"
    and "is_tree (store m) p t" and "fst ` set (inorder t) \<subseteq> K" and "rheight t \<le> n"
  shows "lookup_within n m key (rootp t) \<noteq> None \<and> floor_within n m key (rootp t) fl \<noteq> None
    \<and> ceiling_within n m key (rootp t) fl \<noteq> None \<and> (t \<noteq> Leaf \<longrightarrow> put_within n m key val (rootp t) \<noteq> None)"
  using assms(3-5)
proof (induction t arbitrary: p n fl)
  case (Br r c k v a b)
  then obtain n' where n: "n = Suc n'" "rheight a \<le> n'" "rheight b \<le> n'" by (cases n) auto
  have sub: "is_tree (store m) (Some r) a" "is_tree (store m) (Some r) b"
    "fst ` set (inorder a) \<subseteq> K" "fst ` set (inorder b) \<subseteq> K" using Br.prems by auto
  note a = Br.IH(1) [OF sub(1,3) n(2)] and b = Br.IH(2) [OF sub(2,4) n(3)]
  have d: "deref m (Some r) = Some \<lparr>Key = k, Value = v, color = c, Left = rootp a, Right = rootp b, Parent = p\<rparr>"
    using Br.prems(1) by (simp add: deref_def)
  obtain x where x: "cmp key k = Some x" using cmp_answers [OF assms(2), of k] Br.prems(2) by auto
  have "rootp t = None \<longleftrightarrow> t = Leaf" for t :: "('a, 'b) rtree" by (cases t) auto
  with a b show ?case by (simp add: n d x assms(1))
qed simp

end

lemma walks_end:
  "is_tree (store m) p t \<Longrightarrow> rheight t \<le> n
   \<Longrightarrow> left_within n m q (rootp t) \<noteq> None \<and> right_within n m q (rootp t) \<noteq> None"
proof (induction t arbitrary: p n q)
  case (Br r c k v a b)
  then obtain n' where n: "n = Suc n'" "rheight a \<le> n'" "rheight b \<le> n'" by (cases n) auto
  have "left_within n' m (Some r) (rootp a) \<noteq> None" "right_within n' m (Some r) (rootp b) \<noteq> None"
    using Br.IH(1) [of "Some r" n' "Some r"] Br.IH(2) [of "Some r" n' "Some r"] Br.prems(1) n by simp_all
  with Br.prems(1) show ?case by (simp add: n(1) getLeft_def getRight_def deref_def)
qed simp

lemma height_within:
  assumes "is_map K rank m xs" and "(Size m + 1) ^ 2 < 2 ^ (n + 1)"
  obtains t where "rep m t" "inorder t = xs" "rheight t \<le> n"
proof -
  from assms(1) obtain t where t: "rep m t" "rbt t" "inorder t = xs" "msize m = int (length xs)"
    by (auto simp: is_map_def)
  have "int (2 ^ rheight t) \<le> int ((length xs + 1) ^ 2)" using rbt_height [OF t(2)] t(3) by (simp only: of_nat_le_iff)
  also have "\<dots> < 2 ^ (n + 1)" using assms(2) t(4) by (simp add: Size_def add.commute)
  finally have "(2 :: int) ^ rheight t < 2 ^ (n + 1)" by simp
  then have "rheight t < n + 1" by (rule power_less_imp_less_exp [rotated]) simp
  with t that show thesis by simp
qed

lemma ended: "w \<noteq> None \<Longrightarrow> (\<And>r. w = Some r \<Longrightarrow> l = r) \<Longrightarrow> w = Some l"
  by auto

text \<open>
  C25. Every loop of the map that walks down the tree ends: on a well-formed map with \<open>n\<close> entries the
  searches of \<open>Get\<close> and \<open>Remove\<close>, \<open>Floor\<close>, \<open>Ceiling\<close> and \<open>Put\<close> and the walks of \<open>Left\<close> and \<open>Right\<close> make at
  most \<open>k\<close> iterations as soon as \<open>2 ^ (k + 1)\<close> exceeds the square of \<open>n + 1\<close>, and the
  unbounded loops then return the same.
\<close>

theorem Map_loops_terminate:
  assumes "is_map K rank m xs" and "key \<in> K" and "(Size m + 1) ^ 2 < 2 ^ (k + 1)"
  shows "lookup_within k m key (Root m) = Some (lookup m key)
    \<and> floor_within k m key (Root m) None = Some (Floor m key)
    \<and> ceiling_within k m key (Root m) None = Some (Ceiling m key)
    \<and> left_within k m None (Root m) = Some (Map_Left m)
    \<and> right_within k m None (Root m) = Some (Map_Right m)
    \<and> (Root m \<noteq> None \<longrightarrow> put_within k m key val (Root m) = Some (put_loop m key val (Root m)))"
proof -
  obtain t where t: "rep m t" "inorder t = xs" "rheight t \<le> k" by (rule height_within [OF assms(1,3)])
  then have root: "Root m = rootp t" "is_tree (store m) None t" by (auto simp: rep_def)
  have cmp: "comparator_order (Comparator m) K rank" and keys: "fst ` set (inorder t) \<subseteq> K"
    using assms(1) t(2) by (auto simp: is_map_def)
  have leaf: "Root m \<noteq> None \<longrightarrow> t \<noteq> Leaf" by (auto simp: root)
  have srch: "lookup_within k m key (Root m) \<noteq> None \<and> floor_within k m key (Root m) None \<noteq> None
      \<and> ceiling_within k m key (Root m) None \<noteq> None \<and> (t \<noteq> Leaf \<longrightarrow> put_within k m key val (Root m) \<noteq> None)"
    unfolding root(1) using comparator_order.searches_end [OF cmp refl assms(2) root(2) keys t(3)] .
  have walk: "left_within k m None (Root m) \<noteq> None \<and> right_within k m None (Root m) \<noteq> None"
    unfolding root(1) using walks_end [OF root(2) t(3)] .
  show ?thesis
    unfolding lookup_def Floor_def Ceiling_def Map_Left_def Map_Right_def
    using srch walk leaf
    by (intro conjI impI ended) (blast intro: lookup_within_loop floor_within_loop ceiling_within_loop
      left_within_loop right_within_loop put_within_loop)+
qed

theorem Map_loops_terminate_witness:
  "\<exists>m. map_run NewWithIntComparator [PutOp (IInt 7) ''g'', PutOp (IInt 3) ''c''] = Some m
    \<and> lookup_within 3 m (IInt 5) (Root m) = Some (lookup m (IInt 5))"
proof -
  obtain m where m: "is_map (range IInt) num_rank m [(IInt 3, ''c''), (IInt 7, ''g'')]"
    "map_run NewWithIntComparator [PutOp (IInt 7) ''g'', PutOp (IInt 3) ''c''] = Some m"
    by (rule example_map)
  have "(Size m + 1) ^ 2 < 2 ^ (3 + 1)" using Size_is_map [OF m(1)] by simp
  with Map_loops_terminate [OF m(1), of "IInt 5" 3 "''x''"] m(2) show ?thesis by blast
qed

end
