(* ===== verification/RingTypes.thy ===== *)
theory RingTypes
  imports HashRing MapsPaths
begin

text \<open>
  The dynamic types in the hash ring of \<open>dispatcher/hash/hash_ring.go\<close>: its ordered map stores keys of
  type \<open>interface{}\<close>, which \<open>Get\<close> and \<open>Get64\<close> assert to be \<open>uint32\<close>.
\<close>

lemma links_node:
  "links m (rootp t) k (Some q) \<Longrightarrow> is_tree (store m) p t \<Longrightarrow> \<exists>n. deref m (Some q) = Some n \<and> Key n \<in> fst ` set (inorder t)"
proof (induction t arbitrary: p k)
  case Leaf
  then show ?case by (auto simp: deref_def elim: linksE)
next
  case (Br r c key v a b)
  from Br.prems(1) show ?case
  proof cases
    case here
    with Br.prems(2) show ?thesis by (auto simp: deref_def)
  next
    case (left n k')
    with Br.prems(2) Br.IH(1) [of k' "Some r"] show ?thesis by (fastforce simp: deref_def)
  next
    case (right n k')
    with Br.prems(2) Br.IH(2) [of k' "Some r"] show ?thesis by (fastforce simp: deref_def)
  qed
qed

text \<open>
  C36. Whatever members are added to and removed from a new ring, every node that the child pointers of
  its ordered map reach exists and has a key of type \<open>uint32\<close>, so that the type assertions of \<open>Get\<close> and
  \<open>Get64\<close> succeed: neither of them panics for any argument.
\<close>

theorem ring_keys_are_uint32:
  assumes "ring_run (NewHashRing repeat len) ops = Some hr"
  shows "(\<forall>k q. links (m_SortedKeys hr) (Root (m_SortedKeys hr)) k (Some q)
      \<longrightarrow> (\<exists>n. deref (m_SortedKeys hr) (Some q) = Some n \<and> as_uint32 (Key n) \<noteq> None))
    \<and> Ring_Get hr name \<noteq> None \<and> Ring_Get64 hr val \<noteq> None"
proof -
  have ok: "ring_ok hr" using ring_run_ok [OF New_ring_ok, of repeat len ops] assms by auto
  then have "holds_keys (m_SortedKeys hr) (points hr)" by (rule ring_okD)
  then obtain xs where xs: "is_map (range IUInt32) num_rank (m_SortedKeys hr) xs" by (rule holds_keysE) 
  then obtain t where t: "rep (m_SortedKeys hr) t" "inorder t = xs" "fst ` set xs \<subseteq> range IUInt32" by (auto simp: is_map_def)
  have "\<exists>n. deref (m_SortedKeys hr) (Some q) = Some n \<and> as_uint32 (Key n) \<noteq> None"
    if "links (m_SortedKeys hr) (Root (m_SortedKeys hr)) k (Some q)" for k q
    using that t links_node [of "m_SortedKeys hr" t k q None] by (fastforce simp: rep_def as_uint32_def)
  moreover have "Ring_Get hr nm \<noteq> None" for nm using Ring_Get_owner [OF ok, of nm] by simp
  ultimately show ?thesis
    unfolding Get64_hashes_Get by (simp add: option.map_disc_iff)
qed

theorem ring_keys_are_uint32_witness:
  "\<exists>hr. ring_run (NewHashRing 2 20) [AddOp ''/game/1'', AddOp ''/game/2'', ring_op.RemoveOp ''/game/1''] = Some hr
    \<and> Ring_Get hr ''42'' \<noteq> None"
proof -
  obtain hr where hr: "ring_run (NewHashRing 2 20) [AddOp ''/game/1'', AddOp ''/game/2'', ring_op.RemoveOp ''/game/1''] = Some hr"
    using ring_run_ok [OF New_ring_ok, of 2 20] by blast
  with ring_keys_are_uint32 [OF hr] show ?thesis by blast
qed

end
