(* ===== verification/Placement.thy ===== *)
theory Placement
  imports System
begin

text \<open>
  Where users are placed: as long as no two virtual nodes collide, a hash ring depends on its members
  only, not on how they came and went, and different servers that follow the registry choose the same
  server for a user.
\<close>

section \<open>Rings without collisions\<close>

text \<open>The virtual nodes of a member with \<open>r\<close> replicas.\<close>

definition id_set :: "u32 \<Rightarrow> string \<Rightarrow> u32 set" where
  "id_set r elt = (\<lambda>i. hashKey (eltKey elt i)) ` {0..<unat r}"

lemma ids_id_set: "ids hr elt = id_set (rRep hr) elt"
  by (simp add: ids_def id_set_def)

definition collision_free :: "u32 \<Rightarrow> string set \<Rightarrow> bool" where
  "collision_free r D \<longleftrightarrow> (\<forall>a \<in> D. \<forall>b \<in> D. a \<noteq> b \<longrightarrow> id_set r a \<inter> id_set r b = {})"

text \<open>A ring whose members are all in \<open>D\<close> and have all their virtual nodes.\<close>

definition full :: "u32 \<Rightarrow> string set \<Rightarrow> HashRing \<Rightarrow> bool" where
  "full r D hr \<longleftrightarrow> ring_ok hr \<and> rRep hr = r \<and> (\<forall>e. HasMember hr e \<longrightarrow> e \<in> D
     \<and> (\<forall>vid \<in> id_set r e. map_of (m_RingMap hr) vid = Some e))"

lemma full_New: "full r D (NewHashRing r len)"
  by (simp add: full_def New_ring_ok HasMember_def)

lemma full_add:
  assumes "full r D hr" and "collision_free r D" and "elt \<in> D" and "add hr elt = Some (hr', rst)"
  shows "full r D hr'"
proof -
  have ok: "ring_ok hr" "rRep hr = r" using assms(1) by (simp_all add: full_def)
  from add_ring_ok [OF ok(1), of elt] assms(4) have 1: "ring_ok hr'" "rRep hr' = r"
    "\<And>e. HasMember hr' e \<longleftrightarrow> e = elt \<or> HasMember hr e"
    "map_of (m_RingMap hr') = (\<lambda>vid. if vid \<in> id_set r elt then Some elt else map_of (m_RingMap hr) vid)"
    by (auto simp: ids_id_set ok(2))
  have "e \<in> D \<and> (\<forall>vid \<in> id_set r e. map_of (m_RingMap hr') vid = Some e)" if "HasMember hr' e" for e
  proof (cases "e = elt")
    case False
    with that have "e \<in> D" "\<forall>vid \<in> id_set r e. map_of (m_RingMap hr) vid = Some e"
      using assms(1) 1(3) by (auto simp: full_def)
    moreover from this(1) have "id_set r e \<inter> id_set r elt = {}"
      using assms(2,3) False by (auto simp: collision_free_def)
    ultimately show ?thesis unfolding 1(4) by (auto simp: disjoint_iff)
  qed (use assms(3) 1(4) in simp)
  with 1(1,2) show ?thesis by (simp add: full_def)
qed

lemma full_remove:
  assumes "full r D hr" and "collision_free r D" and "elt \<in> D" and "remove hr elt = Some hr'"
  shows "full r D hr'"
proof -
  have ok: "ring_ok hr" "rRep hr = r" using assms(1) by (simp_all add: full_def)
  from remove_ring_ok [OF ok(1), of elt] assms(4) have 1: "ring_ok hr'" "rRep hr' = r"
    "\<And>e. HasMember hr' e \<longleftrightarrow> e \<noteq> elt \<and> HasMember hr e"
    "map_of (m_RingMap hr') = (\<lambda>vid. if vid \<in> id_set r elt then None else map_of (m_RingMap hr) vid)"
    by (auto simp: ids_id_set ok(2))
  have "e \<in> D \<and> (\<forall>vid \<in> id_set r e. map_of (m_RingMap hr') vid = Some e)" if "HasMember hr' e" for e
  proof -
    from that have e: "e \<noteq> elt" "e \<in> D" "\<forall>vid \<in> id_set r e. map_of (m_RingMap hr) vid = Some e"
      using assms(1) 1(3) by (auto simp: full_def)
    then have "id_set r e \<inter> id_set r elt = {}" using assms(2,3) by (auto simp: collision_free_def)
    with e show ?thesis unfolding 1(4) by (auto simp: disjoint_iff)
  qed
  with 1(1,2) show ?thesis by (simp add: full_def)
qed

text \<open>Full rings with the same members are the same ring, for every search.\<close>

lemma full_same:
  assumes "full r D hr1" and "full r D hr2" and "\<And>e. HasMember hr1 e \<longleftrightarrow> HasMember hr2 e"
  shows "map_of (m_RingMap hr1) = map_of (m_RingMap hr2)"
proof -
  have sub: "map_of (m_RingMap hr') vid = Some e"
    if "full r D hr" "full r D hr'" "\<And>e. HasMember hr e \<longleftrightarrow> HasMember hr' e" "map_of (m_RingMap hr) vid = Some e"
    for hr hr' vid e
  proof -
    from that(1) have "ring_ok hr" "rRep hr = r" by (simp_all add: full_def)
    from ring_okD(4) [OF this(1)] that(4) this(2) have "HasMember hr e" "vid \<in> id_set r e"
      by (auto simp: ids_id_set [symmetric] dest: ring_okD(5) [OF \<open>ring_ok hr\<close>])
    with that(2,3) show ?thesis by (auto simp: full_def)
  qed
  show ?thesis
  proof
    fix vid
    show "map_of (m_RingMap hr1) vid = map_of (m_RingMap hr2) vid"
    proof (cases "map_of (m_RingMap hr1) vid")
      case None
      moreover have "map_of (m_RingMap hr2) vid \<noteq> Some e" for e
        using None sub [OF assms(2,1) assms(3) [symmetric], of vid e] by (metis option.distinct(1))
      ultimately show ?thesis by (metis option.exhaust)
    next
      case (Some e)
      then show ?thesis using sub [OF assms(1,2,3) Some] by simp
    qed
  qed
qed

lemma full_Get:
  assumes "full r D hr1" and "full r D hr2" and "\<And>e. HasMember hr1 e \<longleftrightarrow> HasMember hr2 e"
  shows "Ring_Get hr1 name = Ring_Get hr2 name"
proof -
  note same = full_same [OF assms]
  have "ring_ok hr1" "ring_ok hr2" using assms(1,2) by (simp_all add: full_def)
  moreover have "m_RingMap hr1 = [] \<longleftrightarrow> m_RingMap hr2 = []" unfolding no_entries same ..
  moreover have "owner hr1 name = owner hr2 name" by (simp add: owner_def ring_at_def same)
  ultimately show ?thesis by (simp add: Ring_Get_owner)
qed

section \<open>Histories\<close>

fun op_key :: "ring_op \<Rightarrow> string" where
  "op_key (AddOp e) = e"
| "op_key (ring_op.RemoveOp e) = e"

lemma full_run:
  assumes "full r D hr" and "collision_free r D" and "op_key ` set ops \<subseteq> D" and "ring_run hr ops = Some hr'"
  shows "full r D hr'"
  using assms(1,3,4)
proof (induction ops arbitrary: hr)
  case (Cons op ops)
  show ?case
  proof (cases op)
    case (AddOp e)
    with Cons.prems obtain hr1 rst where "add hr e = Some (hr1, rst)" "ring_run hr1 ops = Some hr'"
      by (auto simp: bind_eq_Some_conv)
    moreover have "e \<in> D" "op_key ` set ops \<subseteq> D" using AddOp Cons.prems(2) by auto
    ultimately show ?thesis using Cons.IH full_add [OF Cons.prems(1) assms(2)] by metis
  next
    case (RemoveOp e)
    with Cons.prems obtain hr1 where "remove hr e = Some hr1" "ring_run hr1 ops = Some hr'"
      by (auto simp: bind_eq_Some_conv)
    moreover have "e \<in> D" "op_key ` set ops \<subseteq> D" using RemoveOp Cons.prems(2) by auto
    ultimately show ?thesis using Cons.IH full_remove [OF Cons.prems(1) assms(2)] by metis
  qed
qed simp

text \<open>
  C16. A hash ring forgets its history: two rings that were given members and lost them in different
  orders, but have the same members in the end, answer the same for every name, as long as the
  virtual nodes of all the members they ever had are different.
\<close>

theorem Ring_forgets_history:
  assumes "ring_run (NewHashRing r len1) ops1 = Some hr1" and "ring_run (NewHashRing r len2) ops2 = Some hr2"
    and "member_run {} ops1 = member_run {} ops2" and "collision_free r (op_key ` set (ops1 @ ops2))"
  shows "Ring_Get hr1 name = Ring_Get hr2 name"
proof -
  let ?D = "op_key ` set (ops1 @ ops2)"
  have members: "{e. HasMember hr e} = member_run {} ops" if "ring_run (NewHashRing r len) ops = Some hr" for hr ops len
    using ring_run_ok [OF New_ring_ok, of r len ops] that by (auto simp: HasMember_def)
  have "HasMember hr1 e \<longleftrightarrow> HasMember hr2 e" for e
    using members [OF assms(1)] members [OF assms(2)] assms(3) by auto
  moreover have "full r ?D hr1" using full_run [OF full_New assms(4) _ assms(1)] by auto
  moreover have "full r ?D hr2" using full_run [OF full_New assms(4) _ assms(2)] by auto
  ultimately show ?thesis using full_Get by metis
qed

theorem Ring_forgets_history_witness:
  "\<exists>hr1 hr2. ring_run (NewHashRing 2 20) [AddOp ''/game/1'', AddOp ''/game/2''] = Some hr1
    \<and> ring_run (NewHashRing 2 20) [AddOp ''/game/2'', AddOp ''/game/1'', ring_op.RemoveOp ''/game/2'', AddOp ''/game/2''] = Some hr2
    \<and> Ring_Get hr1 ''42'' = Ring_Get hr2 ''42''"
proof -
  let ?a = "[AddOp ''/game/1'', AddOp ''/game/2'']"
  let ?b = "[AddOp ''/game/2'', AddOp ''/game/1'', ring_op.RemoveOp ''/game/2'', AddOp ''/game/2'']"
  obtain hr1 where 1: "ring_run (NewHashRing 2 20) ?a = Some hr1" using ring_run_ok [OF New_ring_ok, of 2 20 ?a] by metis
  obtain hr2 where 2: "ring_run (NewHashRing 2 20) ?b = Some hr2" using ring_run_ok [OF New_ring_ok, of 2 20 ?b] by metis
  have ids2: "id_set 2 x = {hashKey (eltKey x 0), hashKey (eltKey x 1)}" for x
  proof -
    have "{0..<2::nat} = {0, 1}" by auto
    then show ?thesis by (simp add: id_set_def)
  qed
  have "id_set 2 ''/game/1'' \<inter> id_set 2 ''/game/2'' = {}"
    unfolding ids2 by (simp add: hashKey_is_checksum eltKey_def Itoa_def nat_digits.simps crc_eval)
  then have "collision_free 2 (op_key ` set (?a @ ?b))"
    by (auto simp: collision_free_def Int_commute)
  moreover have "member_run {} ?a = member_run {} ?b" by auto
  ultimately have "Ring_Get hr1 ''42'' = Ring_Get hr2 ''42''" using Ring_forgets_history [OF 1 2] by blast
  with 1 2 show ?thesis by blast
qed

section \<open>Services without collisions\<close>

fun ev_key :: "event \<Rightarrow> string" where
  "ev_key (PUT k st) = k"
| "ev_key (DELETE k) = k"

text \<open>The ring of the service \<open>name\<close>, if there is one, is full.\<close>

definition service_full :: "string set \<Rightarrow> string \<Rightarrow> Dispatcher \<Rightarrow> bool" where
  "service_full D name d \<longleftrightarrow> (\<forall>s. map_of (d_services d) name = Some s \<longrightarrow>
     (\<exists>hr. s_hashring s = Some hr \<and> full (opt_DisRep (d_opts d)) D hr))"

lemma addService_full:
  assumes "dispatcher_ok d" and "route_type d name = Hash" and "collision_free (opt_DisRep (d_opts d)) D"
    and "service_full D name d" and "service_name key = name \<Longrightarrow> key \<in> D" and "addService d key st = Some d'"
  shows "service_full D name d'"
proof (cases "service_name key = name \<and> \<not> not_provided d name")
  case False
  then show ?thesis using assms(4,6)
    by (auto simp: addService_def service_full_def Let_def update_conv' bind_eq_Some_conv split: if_splits option.splits)
next
  case True
  define s where "s = (case map_of (d_services d) name of
    Some s \<Rightarrow> s | None \<Rightarrow> service_init (d_opts d) name (route_type d name))"
  have s: "\<exists>hr. s_hashring s = Some hr \<and> full (opt_DisRep (d_opts d)) D hr" "s_routeType s = Hash"
    using assms(2,4) dispatcher_okD(2) [OF assms(1), of name] full_New
    by (auto simp: s_def service_full_def service_init_def split: option.splits)
  then obtain hr where hr: "s_hashring s = Some hr" "full (opt_DisRep (d_opts d)) D hr" by blast
  have key: "key \<in> D" using True assms(5) by blast
  show ?thesis
  proof (cases "GetProxy s key")
    case None
    with True assms(6) obtain s1 ids where s1: "CreateProxy s (d_opts d) key st = Some (s1, ids)"
      "d' = d\<lparr>d_services := AList.update name s1 (d_services d)\<rparr>"
      by (auto simp: addService_def s_def Let_def bind_eq_Some_conv)
    then obtain hr1 rst where "add hr key = Some (hr1, rst)" "s_hashring s1 = Some hr1"
      using s(2) hr(1) by (auto simp: CreateProxy_def AddProxy_def proxy_init_fields Let_def bind_eq_Some_conv split: if_splits)
    with full_add [OF hr(2) assms(3) key] s1(2) show ?thesis by (simp add: service_full_def update_conv')
  next
    case (Some p)
    with True assms(6) have "d' = d\<lparr>d_services := AList.update name
        (s\<lparr>s_proxyMap := AList.update key (proxy_update p st) (s_proxyMap s)\<rparr>) (d_services d)\<rparr>"
      by (auto simp: addService_def s_def Let_def)
    with hr show ?thesis by (simp add: service_full_def update_conv')
  qed
qed

lemma removeService_full:
  assumes "dispatcher_ok d" and "route_type d name = Hash" and "collision_free (opt_DisRep (d_opts d)) D"
    and "service_full D name d" and "service_name key = name \<Longrightarrow> key \<in> D" and "removeService d key = Some (d', err)"
  shows "service_full D name d'"
proof (cases "service_name key = name \<and> \<not> not_provided d name \<and> map_of (d_services d) name \<noteq> None")
  case False
  then show ?thesis using assms(4,6)
    by (auto simp: removeService_def service_full_def Let_def update_conv' bind_eq_Some_conv split: if_splits option.splits)
next
  case True
  then obtain s where s: "map_of (d_services d) name = Some s" by blast
  with assms(4) obtain hr where hr: "s_hashring s = Some hr" "full (opt_DisRep (d_opts d)) D hr"
    by (auto simp: service_full_def)
  have rt: "s_routeType s = Hash" using dispatcher_okD(2) [OF assms(1) s] assms(2) by simp
  have key: "key \<in> D" using True assms(5) by blast
  obtain s1 where s1: "DelProxy s key = Some s1" "d' = d\<lparr>d_services := AList.update name s1 (d_services d)\<rparr>"
    using True s assms(6) by (auto simp: removeService_def Let_def bind_eq_Some_conv)
  then obtain hr1 where "remove hr key = Some hr1" "s_hashring s1 = Some hr1"
    using rt hr(1) by (auto simp: DelProxy_def bind_eq_Some_conv)
  with full_remove [OF hr(2) assms(3) key] s1(2) show ?thesis by (simp add: service_full_def update_conv')
qed

lemma watcher_full:
  assumes "dispatcher_ok d" and "route_type d name = Hash" and "collision_free (opt_DisRep (d_opts d)) D"
    and "service_full D name d" and "\<And>ev. ev \<in> set evs \<Longrightarrow> service_name (ev_key ev) = name \<Longrightarrow> ev_key ev \<in> D"
    and "watcher d evs = Some d'"
  shows "service_full D name d'"
  using assms
proof (induction evs arbitrary: d)
  case (Cons ev evs)
  from Cons.prems(6) obtain d1 where d1: "watch_event d ev = Some d1" "watcher d1 evs = Some d'"
    by (auto simp: bind_eq_Some_conv)
  have ok: "dispatcher_ok d1" using watch_event_ok [OF Cons.prems(1), of ev] d1(1) by auto
  have "service_full D name d1 \<and> (\<exists>srvs. d1 = d\<lparr>d_services := srvs\<rparr>)"
  proof (cases ev)
    case (PUT key st)
    then have "addService d key st = Some d1" using d1(1) by (simp add: watch_event_def)
    with addService_full [OF Cons.prems(1-4) _ this] addService_ok [OF Cons.prems(1), of key st] Cons.prems(5) [of ev] PUT
    show ?thesis by auto
  next
    case (DELETE key)
    then obtain err where "removeService d key = Some (d1, err)" using d1(1) by (auto simp: watch_event_def)
    with removeService_full [OF Cons.prems(1-4) _ this] removeService_ok [OF Cons.prems(1), of key] Cons.prems(5) [of ev] DELETE
    show ?thesis by auto
  qed
  then obtain srvs where "service_full D name d1" "d1 = d\<lparr>d_services := srvs\<rparr>" by blast
  with Cons.IH [OF ok _ _ _ _ d1(2)] Cons.prems(2,3,5) show ?case by (simp add: route_type_def)
qed simp

section \<open>Servers agree\<close>

definition history :: "(string \<times> string) list \<Rightarrow> event list \<Rightarrow> event list" where
  "history kvs evs = map (\<lambda>(k, v). PUT k v) kvs @ evs"

text \<open>The keys of the service \<open>name\<close> in a history.\<close>

definition keys_of :: "string \<Rightarrow> event list \<Rightarrow> string set" where
  "keys_of name evs = {k \<in> ev_key ` set evs. service_name k = name}"

lemma service_keys:
  assumes "dispatcher_ok d" and "map_of (d_services d) name = Some s"
  shows "map_of (s_proxyMap s) k = Some p \<longleftrightarrow> service_name k = name \<and> p = proxy_init (d_opts d) name k (p_serStatus p)
    \<and> statuses d k = Some (p_serStatus p)"
proof
  note ok = dispatcher_okD(1) [OF assms]
  assume "map_of (s_proxyMap s) k = Some p"
  with service_ok_proxy [OF ok this] assms(2)
  show "service_name k = name \<and> p = proxy_init (d_opts d) name k (p_serStatus p) \<and> statuses d k = Some (p_serStatus p)"
    by (simp add: statuses_def)
next
  note ok = dispatcher_okD(1) [OF assms]
  assume p: "service_name k = name \<and> p = proxy_init (d_opts d) name k (p_serStatus p) \<and> statuses d k = Some (p_serStatus p)"
  with assms(2) obtain p' where "map_of (s_proxyMap s) k = Some p'" "p_serStatus p' = p_serStatus p"
    by (auto simp: statuses_def)
  with service_ok_proxy(2) [OF ok this(1)] p show "map_of (s_proxyMap s) k = Some p" by metis
qed

lemma service_dom:
  assumes "dispatcher_ok d" and "map_of (d_services d) name = Some s"
  shows "map_of (s_proxyMap s) k \<noteq> None \<longleftrightarrow> service_name k = name \<and> statuses d k \<noteq> None"
proof
  assume "map_of (s_proxyMap s) k \<noteq> None"
  then obtain p where "map_of (s_proxyMap s) k = Some p" by blast
  then show "service_name k = name \<and> statuses d k \<noteq> None" using service_keys [OF assms] by simp
next
  assume "service_name k = name \<and> statuses d k \<noteq> None"
  then obtain st where "statuses d k = Some st" "service_name k = name" by blast
  then show "map_of (s_proxyMap s) k \<noteq> None"
    using service_keys [OF assms, of k "proxy_init (d_opts d) name k st"] by simp
qed

lemma same_domain_length:
  assumes "distinct (map fst xs)" and "distinct (map fst ys)" and "\<And>k. map_of xs k \<noteq> None \<longleftrightarrow> map_of ys k \<noteq> None"
  shows "length xs = length ys"
proof -
  have "set (map fst xs) = set (map fst ys)" using assms(3) by (auto simp: map_of_eq_None_iff)
  with distinct_card [OF assms(1)] distinct_card [OF assms(2)] show ?thesis by simp
qed

text \<open>What a dispatcher with hash routing for \<open>name\<close> has made of its history.\<close>

lemma started_full:
  assumes "do { d1 \<leftarrow> connectAll (with_routes routes (init opts)) kvs; watcher d1 evs } = Some d"
    and "route_type (init opts) name = Hash" and "collision_free (opt_DisRep opts) D"
    and "keys_of name (history kvs evs) \<subseteq> D" and "known_deletes Map.empty (history kvs evs)"
  shows "dispatcher_ok d" "service_full D name d" "d_opts d = opts" "counted d"
    "\<And>key. service_name key = name \<Longrightarrow> statuses d key = registry Map.empty (history kvs evs) key"
    "\<exists>r srvs. d = (init opts)\<lparr>d_services := srvs, d_route := r\<rparr>"
proof -
  obtain r where r: "with_routes routes (init opts) = (init opts)\<lparr>d_route := r\<rparr>" using with_routes_update by blast
  let ?d0 = "(init opts)\<lparr>d_route := r\<rparr>"
  have fields: "d_opts (init opts) = opts" "d_services (init opts) = []" by (simp_all add: init_def Let_def)
  have run: "watcher ?d0 (history kvs evs) = Some d"
    using assms(1) unfolding r connectAll_watcher watcher_append [symmetric] history_def .
  have prov: "\<not> not_provided (init opts) name" using assms(2) by (simp add: not_provided_def Hash_def)
  have ok0: "dispatcher_ok ?d0" "service_full D name ?d0"
    by (simp_all add: dispatcher_ok_def service_full_def fields)
  have ev: "ev_key e \<in> D" if "e \<in> set (history kvs evs)" "service_name (ev_key e) = name" for e
    using assms(4) that by (auto simp: keys_of_def)
  have rt: "route_type ?d0 name = Hash" using assms(2) by (simp add: route_type_def)
  show "service_full D name d"
    by (rule watcher_full [OF ok0(1) rt _ ok0(2) ev run]) (simp_all add: fields assms(3))
  obtain srvs where 1: "do { d1 \<leftarrow> connectAll (init opts) kvs; watcher d1 evs } = Some (init opts\<lparr>d_services := srvs\<rparr>)"
    "counted (init opts\<lparr>d_services := srvs\<rparr>)"
    using started [of opts kvs evs] assms(5) unfolding history_def by metis
  have "watcher (init opts) (history kvs evs) = Some (init opts\<lparr>d_services := srvs\<rparr>)"
    using 1(1) unfolding connectAll_watcher watcher_append [symmetric] history_def .
  then have d: "d = (init opts)\<lparr>d_services := srvs, d_route := r\<rparr>" using run by (simp add: watcher_route)
  then show "\<exists>r srvs. d = (init opts)\<lparr>d_services := srvs, d_route := r\<rparr>" by blast
  show "counted d" using 1(2) by (simp add: d counted_def)
  note s = started_with_routes [OF assms(1)]
  show "dispatcher_ok d" "d_opts d = opts" by (fact s)+
  show "statuses d key = registry Map.empty (history kvs evs) key" if "service_name key = name" for key
    using that prov unfolding s(3) history_def by (simp add: visible_def)
qed

text \<open>
  The servers agree on where a user belongs. When the login server tells a client the status of the
  gate for its user, and another server sends a message with the user's id as its key to the gates, then
  the message is published to that same gate, and the status is the one that this gate has in the
  registry: provided that both follow a registry with the same gates in the end, route to the gates by
  hash with the same number of replicas, and no virtual nodes of gates collide. Neither the order in
  which they heard of the gates nor when they started matters.
\<close>

lemma servers_agree_on_gate:
  assumes "do { d1 \<leftarrow> connectAll (init ol) kvs1; watcher d1 evs1 } = Some dl"
    and "do { d1 \<leftarrow> connectAll (with_routes routes (init oa)) kvs2; watcher d1 evs2 } = Some da"
    and "d_gKey (init ol) = name" and "route_type (init ol) name = Hash" and "route_type (init oa) name = Hash"
    and "opt_DisRep oa = opt_DisRep ol"
    and "known_deletes Map.empty (history kvs1 evs1)" and "known_deletes Map.empty (history kvs2 evs2)"
    and "\<And>key. service_name key = name \<Longrightarrow>
      registry Map.empty (history kvs1 evs1) key = registry Map.empty (history kvs2 evs2) key"
    and "collision_free (opt_DisRep ol) (keys_of name (history kvs1 evs1 @ history kvs2 evs2))"
    and "GetGate dl uid = Some (Inr st)"
    and "GetMsgKey da (ID msg) = Inr ty" and "name = opt_AppName oa @ ''/'' @ ty" and "MsgKey msg = uid"
  shows "\<exists>key. service_name key = name \<and> registry Map.empty (history kvs1 evs1) key = Some st
    \<and> Dispatch da msg = Some (Inr (rpc_call.PublishMsg (p_pubKey (proxy_init oa name key st)) msg))"
proof -
  let ?D = "keys_of name (history kvs1 evs1 @ history kvs2 evs2)"
  have start1: "do { d1 \<leftarrow> connectAll (with_routes [] (init ol)) kvs1; watcher d1 evs1 } = Some dl"
    using assms(1) by (simp add: with_routes_def)
  have sub: "keys_of name (history kvs1 evs1) \<subseteq> ?D" "keys_of name (history kvs2 evs2) \<subseteq> ?D"
    by (auto simp: keys_of_def)
  note l = started_full [OF start1 assms(4,10) sub(1) assms(7)]
  have free: "collision_free (opt_DisRep oa) ?D" using assms(6,10) by simp
  note a = started_full [OF assms(2,5) free sub(2) assms(8)]
  have same: "statuses dl key = statuses da key" if "service_name key = name" for key
    using l(5) [OF that] a(5) [OF that] assms(9) [OF that] by simp
  have gkey: "d_gKey dl = name" using l(6) assms(3) by auto
  obtain s1 where s1: "map_of (d_services dl) name = Some s1" and r1: "uid \<noteq> 0"
    using assms(11) by (auto simp: GetGate_def GetServer_def getProxy_def gkey bind_eq_Some_conv split: if_splits option.splits)
  then obtain p where p: "RouteById s1 uid = Some (Inr p)" "p_serStatus p = st"
    using assms(11) by (auto simp: GetGate_def GetServer_def getProxy_def gkey bind_eq_Some_conv split: if_splits)
      (metis Inr_Inl_False map_sum.simps sum.exhaust sum.inject(2))
  obtain hr1 where hr1: "s_hashring s1 = Some hr1" "full (opt_DisRep ol) ?D hr1"
    using l(2,3) s1 by (auto simp: service_full_def)
  have rt1: "s_routeType s1 = Hash"
    using dispatcher_okD(2) [OF l(1) s1] assms(4) l(6) by (auto simp: route_type_def)
  from p(1) rt1 hr1(1) obtain idx where idx: "Ring_Get hr1 (FormatUint (unat uid)) = Some (None, idx)"
    "GetProxy s1 idx = Some p" "s_Count s1 \<noteq> 0"
    by (auto simp: RouteById_def bind_eq_Some_conv split: if_splits option.splits)
  then have pk: "service_name idx = name" "statuses dl idx = Some st"
    using service_keys [OF l(1) s1, of idx p] p(2) by (simp_all add: GetProxy_def)
  with same have st2: "statuses da idx = Some st" by simp
  then obtain s2 where s2: "map_of (d_services da) name = Some s2"
    using pk(1) by (auto simp: statuses_def split: option.splits)
  let ?p2 = "proxy_init oa name idx st"
  have p2: "map_of (s_proxyMap s2) idx = Some ?p2"
    using service_keys [OF a(1) s2, of idx ?p2] pk(1) st2 a(3) by simp
  obtain hr2 where hr2: "s_hashring s2 = Some hr2" "full (opt_DisRep ol) ?D hr2"
    using a(2,3) s2 assms(6) by (auto simp: service_full_def)
  have rt2: "s_routeType s2 = Hash"
    using dispatcher_okD(2) [OF a(1) s2] assms(5) a(6) by (auto simp: route_type_def)
  have dom: "map_of (s_proxyMap s1) k \<noteq> None \<longleftrightarrow> map_of (s_proxyMap s2) k \<noteq> None" for k
  proof -
    show ?thesis using service_dom [OF l(1) s1, of k] service_dom [OF a(1) s2, of k] same [of k] by auto
  qed
  note ok1 = dispatcher_okD(1) [OF l(1) s1] and ok2 = dispatcher_okD(1) [OF a(1) s2]
  have "HasMember hr1 e \<longleftrightarrow> HasMember hr2 e" for e
    using ok1 ok2 hr1(1) hr2(1) rt1 rt2 dom [of e] by (auto simp: service_ok_def)
  from full_Get [OF hr1(2) hr2(2) this] idx(1) have get: "Ring_Get hr2 (FormatUint (unat uid)) = Some (None, idx)" by simp
  have "s_Count s2 \<noteq> 0"
  proof -
    have "length (s_proxyMap s1) = length (s_proxyMap s2)"
      using ok1 ok2 dom by (intro same_domain_length) (auto simp only: service_ok_def)
    then show ?thesis using l(4) a(4) s1 s2 idx(3) by (simp add: counted_def)
  qed
  then have "RouteById s2 uid = Some (Inr ?p2)"
    using rt2 hr2(1) get p2 by (simp add: RouteById_def GetProxy_def)
  moreover have "getService da (Some msg) = Inr s2"
  proof -
    have "d_root da = opt_AppName oa" using a(6) by (auto simp: init_def Let_def)
    then show ?thesis using assms(12,13) s2 by (simp add: getService_def Let_def)
  qed
  ultimately have "Dispatch da msg = Some (Inr (rpc_call.PublishMsg (p_pubKey ?p2) msg))"
    using assms(14) by (simp add: Dispatch_def service_Dispatch_def Route_def proxy_publish_def)
  then show ?thesis using pk l(5) [OF pk(1)] by auto
qed

section \<open>Hash routing\<close>

lemma known_keys: "registry r evs k \<noteq> None \<Longrightarrow> r k \<noteq> None \<or> k \<in> ev_key ` set evs"
proof (induction evs arbitrary: r)
  case (Cons ev evs)
  then show ?case by (cases ev) (fastforce split: if_splits)+
qed simp

text \<open>The counter does not wrap to 0 as long as there are not too many servers.\<close>

lemma Count_nonzero:
  assumes "dispatcher_ok d" and "map_of (d_services d) name = Some s" and "counted d"
    and "\<And>key. service_name key = name \<Longrightarrow> statuses d key = registry Map.empty evs key"
    and "length evs < 2 ^ 32" and "map_of (s_proxyMap s) key \<noteq> None"
  shows "s_Count s \<noteq> 0"
proof -
  have dist: "distinct (map fst (s_proxyMap s))" using dispatcher_okD(1) [OF assms(1,2)] by (simp add: service_ok_def)
  have "fst ` set (s_proxyMap s) \<subseteq> ev_key ` set evs"
  proof
    fix k assume "k \<in> fst ` set (s_proxyMap s)"
    then have "map_of (s_proxyMap s) k \<noteq> None" by (simp add: map_of_eq_None_iff)
    then have "service_name k = name" "statuses d k \<noteq> None" using service_dom [OF assms(1,2), of k] by simp_all
    then show "k \<in> ev_key ` set evs" using assms(4) known_keys [of Map.empty evs k] by auto
  qed
  from card_mono [OF _ this] distinct_card [OF dist] have "length (s_proxyMap s) \<le> length evs"
    using card_image_le [of "set evs" ev_key] card_length [of evs] by simp
  moreover have "s_proxyMap s \<noteq> []" using assms(6) by auto
  ultimately have n: "0 < length (s_proxyMap s)" "length (s_proxyMap s) < 2 ^ LENGTH(32)" using assms(5) by simp_all
  have "unat (of_nat (length (s_proxyMap s)) :: i32) = length (s_proxyMap s)" using n(2) by (simp add: unat_of_nat)
  with n(1) have "(of_nat (length (s_proxyMap s)) :: i32) \<noteq> 0" by (metis less_nat_zero_code unat_0)
  then show ?thesis using assms(2,3) by (simp add: counted_def)
qed

text \<open>
  C30. Hash routing finds a server: when the registry holds a server of a service that is routed by hash, with at
  least one replica per server, every id is routed to a server of the service that is registered, with the status
  it has there, and it is the one that the ring gives for the decimal id. This holds after any
  entries and events of the registry, as long as only known entries are deleted (see \<open>unknown_delete_disables_service\<close>),
  no virtual nodes of servers of the service collide, and the counter of 32 bits does not wrap.
\<close>

theorem Hash_routing_finds_proxy:
  assumes "do { d1 \<leftarrow> connectAll (with_routes routes (init opts)) kvs; watcher d1 evs } = Some d"
    and "route_type (init opts) name = Hash" and "opt_DisRep opts \<noteq> 0"
    and "known_deletes Map.empty (history kvs evs)"
    and "collision_free (opt_DisRep opts) (keys_of name (history kvs evs))"
    and "length (history kvs evs) < 2 ^ 32"
    and "service_name key = name" and "registry Map.empty (history kvs evs) key \<noteq> None"
  shows "\<exists>s hr p. map_of (d_services d) name = Some s \<and> RouteById s uid = Some (Inr p)
    \<and> service_name (p_key p) = name \<and> registry Map.empty (history kvs evs) (p_key p) = Some (p_serStatus p)
    \<and> p = proxy_init opts name (p_key p) (p_serStatus p)
    \<and> s_hashring s = Some hr \<and> Ring_Get hr (FormatUint (unat uid)) = Some (None, p_key p)"
proof -
  note d = started_full [OF assms(1,2,5) subset_refl assms(4)]
  obtain s where s: "map_of (d_services d) name = Some s"
    using d(5) [OF assms(7)] assms(7,8) by (auto simp: statuses_def split: option.splits)
  note ok = dispatcher_okD(1) [OF d(1) s]
  have rt: "s_routeType s = Hash"
    using dispatcher_okD(2) [OF d(1) s] assms(2) d(6) by (auto simp: route_type_def)
  obtain hr where hr: "s_hashring s = Some hr" "full (opt_DisRep opts) (keys_of name (history kvs evs)) hr"
    using d(2,3) s by (auto simp: service_full_def)
  have proxy: "map_of (s_proxyMap s) key \<noteq> None"
    using service_dom [OF d(1) s, of key] d(5) [OF assms(7)] assms(7,8) by simp
  have "m_RingMap hr \<noteq> []"
  proof -
    have "HasMember hr key" using ok rt hr(1) proxy by (auto simp: service_ok_def)
    then have "\<forall>vid \<in> id_set (opt_DisRep opts) key. map_of (m_RingMap hr) vid = Some key"
      using hr(2) by (auto simp: full_def)
    moreover have "hashKey (eltKey key 0) \<in> id_set (opt_DisRep opts) key"
      using assms(3) by (auto simp: id_set_def unat_gt_0)
    ultimately show ?thesis by auto
  qed
  moreover have "s_Count s \<noteq> 0"
    by (rule Count_nonzero [OF d(1) s d(4,5) assms(6) proxy])
  ultimately obtain p where p: "RouteById s uid = Some (Inr p)" "map_of (s_proxyMap s) (p_key p) = Some p"
    "service_name (p_key p) = name" "Ring_Get hr (FormatUint (unat uid)) = Some (None, p_key p)"
    using hash_routed [OF d(1) s rt hr(1), of uid] by blast
  moreover have "p = proxy_init opts name (p_key p) (p_serStatus p)" "statuses d (p_key p) = Some (p_serStatus p)"
    using service_keys [OF d(1) s, of "p_key p" p] p(2) d(3) by simp_all
  ultimately show ?thesis using s hr(1) d(5) [OF p(3)] by (metis (no_types))
qed

theorem Hash_routing_finds_proxy_witness:
  "\<exists>d s p. watcher (init (example_opts ''game|1'')) [PUT ''app/game/1'' ''up''] = Some d
    \<and> map_of (d_services d) ''app/game'' = Some s \<and> RouteById s 42 = Some (Inr p)"
proof -
  let ?o = "example_opts ''game|1''"
  have run: "do { d1 \<leftarrow> connectAll (with_routes [] (init ?o)) []; watcher d1 [PUT ''app/game/1'' ''up''] }
      = watcher (init ?o) [PUT ''app/game/1'' ''up'']"
    by (simp add: with_routes_def)
  obtain d where d: "watcher (init ?o) [PUT ''app/game/1'' ''up''] = Some d"
    using example_dispatcher [OF example_route_type(1,2)] by metis
  have "opt_DisRep ?o \<noteq> 0" by (simp add: example_opts_def default_options_def)
  moreover have "known_deletes Map.empty (history [] [PUT ''app/game/1'' ''up''])" "length (history [] [PUT ''app/game/1'' ''up'']) < 2 ^ 32"
    "registry Map.empty (history [] [PUT ''app/game/1'' ''up'']) ''app/game/1'' \<noteq> None"
    "collision_free r (keys_of n (history [] [PUT ''app/game/1'' ''up'']))" for r n
    by (auto simp: history_def collision_free_def keys_of_def)
  ultimately show ?thesis
    using Hash_routing_finds_proxy [OF _ example_route_type(1), of "[]" "[]" "[PUT ''app/game/1'' ''up'']" d "''app/game/1''" 42]
      run d example_names by auto
qed

end
