(* ===== verification/Demo.thy ===== *)
theory Demo
  imports App
begin

text \<open>
  The demonstration servers under \<open>demo/\<close>: the message codes, the JSON codec of
  \<open>demo/process/json_processor.go\<close>, the handlers of \<open>demo/app/handle/handler.go\<close>, and what the gate and
  the application register in their \<open>main.go\<close>; with the way of a login from a client to a server and
  back.
\<close>

section \<open>Message codes\<close>

definition Err_LoginErr :: u32 where "Err_LoginErr = 10001"
definition Msg_Login :: u32 where "Msg_Login = 20001"
definition Msg_Start :: u32 where "Msg_Start = 20002"
definition Msg_Login_rst :: u32 where "Msg_Login_rst = 30001"
definition Msg_Start_rst :: u32 where "Msg_Start_rst = 30002"

lemmas demo_codes = Err_LoginErr_def Msg_Login_def Msg_Start_def Msg_Login_rst_def Msg_Start_rst_def

section \<open>The JSON codec\<close>

record Head =
  hd_Seq :: u32
  hd_UID :: u64
  hd_Cmd :: u32
  hd_Key :: u64
  hd_Data :: string

text \<open>
  \<open>new(JsonProcessor)\<close> does not set the packet size or the maps of the processor that it embeds.
\<close>

definition NewJsonProcessor :: "'c Processor" where
  "NewJsonProcessor = \<lparr>pc_msgInfos = None, pc_perfRecorder = None, pc_EnablePerf = True, pc_MaxPacketSize = 0\<rparr>"

text \<open>
  \<open>json.Marshal\<close> and \<open>json.Unmarshal\<close> of a \<open>Head\<close> are given as functions; data of any length is passed
  on, as a packet that is too long is only logged.
\<close>

definition Json_Marshal :: "(Head \<Rightarrow> string option) \<Rightarrow> Msg option \<Rightarrow> proc_error + string" where
  "Json_Marshal jenc msg = (case msg of
     None \<Rightarrow> Inl MessageIsNil
   | Some m \<Rightarrow>
       let msgJson = \<lparr>hd_Seq = Seq m, hd_UID = 0, hd_Cmd = ID m, hd_Key = MsgKey m, hd_Data = Body m\<rparr>
       in (case jenc msgJson of None \<Rightarrow> Inl MarshalFailed | Some requestData \<Rightarrow> Inr requestData))"

definition Json_Unmarshal :: "(string \<Rightarrow> Head option) \<Rightarrow> string \<Rightarrow> proc_error + Msg" where
  "Json_Unmarshal jdec data = (case jdec data of
     None \<Rightarrow> Inl UnmarshalFailed
   | Some request \<Rightarrow> Inr \<lparr>Seq = hd_Seq request, ID = hd_Cmd request, Body = hd_Data request,
       MsgKey = hd_Key request, UID = hd_UID request\<rparr>)"

section \<open>The handlers\<close>

text \<open>
  A handler works on the RPC client that it is handed: \<open>cb\<close> is its \<open>CallNR\<close>, which changes what is
  outside of the handler, or panics (\<open>None\<close>), and whose error the handlers ignore. A controller that
  is not an RPC client fails the type assertion.
\<close>

type_synonym 's rpc = "Msg \<Rightarrow> 's \<Rightarrow> 's option"

definition HandleKickReq :: "'s rpc option \<Rightarrow> Msg \<Rightarrow> 's \<Rightarrow> (Msg option \<times> 's) option" where
  "HandleKickReq cb req st = Some (Some \<lparr>Seq = 0, ID = Msg_Kick_Rst, Body = [], MsgKey = 0, UID = 0\<rparr>, st)"

definition HandleLoginReq :: "'s rpc option \<Rightarrow> Msg \<Rightarrow> 's \<Rightarrow> (Msg option \<times> 's) option" where
  "HandleLoginReq cb req st = do {
     let rst = \<lparr>Seq = Seq req, ID = Msg_Login_rst, Body = [], MsgKey = UID req, UID = UID req\<rparr>;
     callNR \<leftarrow> cb;
     st1 \<leftarrow> callNR rst st;
     Some (Some rst, st1)
   }"

definition HandleStartReq :: "'s rpc option \<Rightarrow> Msg \<Rightarrow> 's \<Rightarrow> (Msg option \<times> 's) option" where
  "HandleStartReq cb req st = do {
     let rst = \<lparr>Seq = Seq req, ID = Msg_Start_rst, Body = [], MsgKey = UID req, UID = UID req\<rparr>;
     callNR \<leftarrow> cb;
     st1 \<leftarrow> callNR rst st;
     Some (Some rst, st1)
   }"

text \<open>
  The RPC client of a server, as its handlers use it: what the dispatcher asks NATS to do is
  recorded; an error of the dispatcher is not.
\<close>

definition dispatching :: "Dispatcher \<Rightarrow> rpc_call list rpc" where
  "dispatching d msg log = do {
     r \<leftarrow> Dispatch d msg;
     Some (case r of Inl err \<Rightarrow> log | Inr call \<Rightarrow> log @ [call])
   }"

text \<open>A handler as the processor knows it answers a message; its calls are seen apart.\<close>

definition answering :: "('s list rpc option \<Rightarrow> Msg \<Rightarrow> 's list \<Rightarrow> (Msg option \<times> 's list) option)
    \<Rightarrow> 's list rpc option DisposeFunc" where
  "answering h cb req = map_option fst (h cb req [])"

section \<open>The servers\<close>

definition app_registe :: "'s list rpc option App \<Rightarrow> 's list rpc option App option" where
  "app_registe a = do {
     let (a1, _) = App_RegisteSer Msg_Login_rst ''gate'' a;
     let (a2, _) = App_RegisteSer Msg_Start_rst ''gate'' a1;
     let (a3, _) = App_RegisteSer Msg_Kick_Rst ''gate'' a2;
     a4 \<leftarrow> App_Register Msg_Kick (Some (answering HandleKickReq)) a3;
     a5 \<leftarrow> App_Register Msg_Login (Some (answering HandleLoginReq)) a4;
     App_Register Msg_Start (Some (answering HandleStartReq)) a5
   }"

definition gate_Registe :: "'c App \<Rightarrow> 'c App option" where
  "gate_Registe a = do {
     let (a1, _) = App_RegisteSer Msg_Login ''app'' a;
     let (a2, _) = App_RegisteSer Msg_Start ''app'' a1;
     let (a3, _) = App_RegisteSer Msg_Kick ''app'' a2;
     Some a3
   }"

definition Verify :: "Msg \<Rightarrow> bool" where
  "Verify msg = True"

text \<open>
  The \<open>main\<close> functions: the options, the processor, the function that registers, and then \<open>Run\<close>. The
  processor of the options takes the place of the default one.
\<close>

definition app_main :: "Env \<Rightarrow> Flags \<Rightarrow> Host \<Rightarrow> event list \<Rightarrow> Outside \<Rightarrow> Outside list \<Rightarrow> Outside \<Rightarrow> (string \<rightharpoonup> string)
    \<Rightarrow> ('s list rpc option App \<times> (string \<rightharpoonup> string) \<times> app_error option) option" where
  "app_main env flags h events out ticks fin kv = do {
     app \<leftarrow> NewApp env flags [Debug True, Version ''1.0.0'', Conf ''app'', Process (Some 1)] None;
     App_Run [] (Some app_registe) h events out ticks fin kv (app\<lparr>ap_process := NewJsonProcessor\<rparr>)
   }"

definition gate_main :: "Env \<Rightarrow> Flags \<Rightarrow> Host \<Rightarrow> event list \<Rightarrow> Outside \<Rightarrow> Outside list \<Rightarrow> Outside \<Rightarrow> (string \<rightharpoonup> string)
    \<Rightarrow> ('c App \<times> (string \<rightharpoonup> string) \<times> app_error option) option" where
  "gate_main env flags h events out ticks fin kv = do {
     gate \<leftarrow> NewGate env flags [Debug True, Version ''1.0.0'', Conf ''gate'', NetType ''ws'', Process (Some 1)] None;
     App_Run [] (Some gate_Registe) h events out ticks fin kv (SetVerify Verify (gate\<lparr>ap_process := NewJsonProcessor\<rparr>))
   }"

section \<open>What the codec keeps\<close>

text \<open>
  The JSON codec does not write the user id: whatever message is encoded, the receiver decodes the
  same message without a user, so that two messages that only differ in the user have the same
  encoding. In particular what a gate's session sends to its client does not depend on the user that
  the session fills in.
\<close>

theorem Json_roundtrip_loses_user:
  assumes "\<And>h. \<exists>data. jenc h = Some data \<and> jdec data = Some h"
  shows "\<exists>data. Json_Marshal jenc (Some m) = Inr data \<and> Json_Unmarshal jdec data = Inr (m\<lparr>UID := 0\<rparr>)
    \<and> Json_Marshal jenc (Some (m\<lparr>UID := u\<rparr>)) = Inr data"
proof -
  obtain data where "jenc \<lparr>hd_Seq = Seq m, hd_UID = 0, hd_Cmd = ID m, hd_Key = MsgKey m, hd_Data = Body m\<rparr> = Some data"
    "jdec data = Some \<lparr>hd_Seq = Seq m, hd_UID = 0, hd_Cmd = ID m, hd_Key = MsgKey m, hd_Data = Body m\<rparr>"
    using assms by blast
  then show ?thesis by (intro exI [of _ data]) (simp add: Json_Marshal_def Json_Unmarshal_def)
qed

text \<open>
  The recording of performance that \<open>NewJsonProcessor\<close> switches on is switched off by \<open>Init\<close>: nothing
  that is handled afterwards is recorded, and \<open>Dump\<close> prints nothing.
\<close>

lemma Register_keeps_perf: "Register mid h p = Some p1 \<Longrightarrow> pc_EnablePerf p1 = pc_EnablePerf p"
  by (auto simp: Register_def split: option.splits if_splits)

theorem json_processor_records_nothing:
  assumes "register_all regs (Processor_Init maxPacket NewJsonProcessor) = Some p"
  shows "HandleMsg ctl dur (Some m) p = Some (p', ret) \<longrightarrow> p' = p \<and> Dump p' = Some ([], [], [])"
proof -
  have "pc_EnablePerf p = pc_EnablePerf q" if "register_all regs q = Some p" for q
    using that by (induction regs arbitrary: q) (auto simp: bind_eq_Some_conv dest!: Register_keeps_perf)
  from this [OF assms] have "\<not> pc_EnablePerf p" by (simp add: Processor_Init_def)
  then show ?thesis
    by (auto simp: HandleMsg_def Record_def Dump_def Let_def split: option.splits)
qed

section \<open>A login\<close>

definition app_routes :: "(u32 \<times> string) list" where
  "app_routes = [(Msg_Login_rst, ''gate''), (Msg_Start_rst, ''gate''), (Msg_Kick_Rst, ''gate'')]"

definition gate_routes :: "(u32 \<times> string) list" where
  "gate_routes = [(Msg_Login, ''app''), (Msg_Start, ''app''), (Msg_Kick, ''app'')]"

lemma gate_Registe_eq: "gate_Registe a = Some (a\<lparr>ap_dispatcher := with_routes gate_routes (ap_dispatcher a)\<rparr>)"
  by (simp add: gate_Registe_def gate_routes_def App_RegisteSer_def with_routes_def case_prod_beta Let_def)

lemma app_registe_eq:
  assumes "opt_Process (ap_opts a) \<noteq> None" and "pc_msgInfos (ap_process a) = Some []"
  shows "app_registe a = Some (a\<lparr>ap_dispatcher := with_routes app_routes (ap_dispatcher a),
    ap_process := (ap_process a)\<lparr>pc_msgInfos := Some [(Msg_Kick, Some (answering HandleKickReq)),
      (Msg_Login, Some (answering HandleLoginReq)), (Msg_Start, Some (answering HandleStartReq))]\<rparr>\<rparr>)"
  using assms
  by (simp add: app_registe_def app_routes_def App_RegisteSer_def App_Register_def Register_def with_routes_def
      case_prod_beta Let_def demo_codes code_defs)

text \<open>What a function given to \<open>OnRegiste\<close> does to the application when it is called.\<close>

definition registering :: "Options \<Rightarrow> ('c App \<Rightarrow> 'c App option) \<Rightarrow> (u32 \<times> string) list
    \<Rightarrow> ('c Processor \<Rightarrow> 'c Processor) \<Rightarrow> bool" where
  "registering opts f routes F \<longleftrightarrow> (\<forall>a. opt_Process (ap_opts a) = opt_Process opts \<longrightarrow> opt_Process opts \<noteq> None \<longrightarrow>
     pc_msgInfos (ap_process a) = Some [] \<longrightarrow>
     f a = Some (a\<lparr>ap_dispatcher := with_routes routes (ap_dispatcher a), ap_process := F (ap_process a)\<rparr>))"

lemma registering_gate: "registering opts gate_Registe gate_routes (\<lambda>p. p)"
  by (simp add: registering_def gate_Registe_eq)

lemma registering_app: "registering opts app_registe app_routes (\<lambda>p. p\<lparr>pc_msgInfos :=
    Some [(Msg_Kick, Some (answering HandleKickReq)), (Msg_Login, Some (answering HandleLoginReq)),
      (Msg_Start, Some (answering HandleStartReq))]\<rparr>)"
  by (simp add: registering_def app_registe_eq)

text \<open>What a server that has started has made of its registration.\<close>

lemma OnInit_registered:
  assumes "OnInit (Some f) h events (make_app gate opts) = Some (a, None)"
    and "registering opts f routes F"
  obtains kvs where "do { d1 \<leftarrow> connectAll (with_routes routes (init (opts\<lparr>opt_Serv := Some 0\<rparr>))) kvs; watcher d1 events } = Some (ap_dispatcher a)"
    "ap_process a = F (Processor_Init (opt_MaxPacketSize opts) NewProcessor)"
    "kvs = (case h_etcd_Get h (opt_AppName opts) of None \<Rightarrow> [] | Some kvs \<Rightarrow> kvs)"
proof -
  let ?o = "opts\<lparr>opt_Serv := Some 0\<rparr>"
  have keep: "ap_process a = ap_process a4"
      "Dispatcher_Start (h_etcd_Get h (d_root (ap_dispatcher a4))) events (ap_dispatcher a4) = Some (ap_dispatcher a)"
    if "start_parts h events a4 = Some (a, None)" for a4
    using that by (auto simp: start_parts_def Let_def bind_eq_Some_conv split: sum.splits)
  obtain ec e where ec: "ETCD_Init h (opt_ETCDHosts opts) (opt_ETCDCertFile opts) (opt_ETCDKeyFile opts) = (ec, e)" by force
  have e: "e = None" "opt_Process opts \<noteq> None"
    using assms(1) ec by (auto simp: OnInit_def make_app_def Let_def split: option.splits if_splits)
  obtain a4 where a4: "start_parts h events a4 = Some (a, None)" "ap_dispatcher a4 = with_routes routes (init ?o)"
    "ap_process a4 = F (Processor_Init (opt_MaxPacketSize opts) NewProcessor)"
    using assms(1) ec e
    by (auto simp: OnInit_def make_app_def Let_def Processor_Init_def assms(2) [unfolded registering_def, rule_format])
  obtain r where r: "with_routes routes (init ?o) = (init ?o)\<lparr>d_route := r\<rparr>" using with_routes_update by blast
  have "d_root (ap_dispatcher a4) = opt_AppName opts" unfolding a4(2) r by (simp add: init_def Let_def)
  then have "Dispatcher_Start (h_etcd_Get h (opt_AppName opts)) events (with_routes routes (init ?o)) = Some (ap_dispatcher a)"
    using keep(2) [OF a4(1)] a4(2) by simp
  then have "do { d1 \<leftarrow> connectAll (with_routes routes (init ?o)) (case h_etcd_Get h (opt_AppName opts) of None \<Rightarrow> [] | Some kvs \<Rightarrow> kvs);
      watcher d1 events } = Some (ap_dispatcher a)"
    by (simp add: Dispatcher_Start_def split: option.splits)
  with keep(1) [OF a4(1)] a4(3) that show thesis by simp
qed

text \<open>The registry as a server that has started knows it: what it got and what it was sent since.\<close>

definition known_registry :: "Host \<Rightarrow> event list \<Rightarrow> Options \<Rightarrow> string \<rightharpoonup> string" where
  "known_registry h events opts = registry Map.empty
     (map (\<lambda>(k, v). PUT k v) (case h_etcd_Get h (opt_AppName opts) of None \<Rightarrow> [] | Some kvs \<Rightarrow> kvs) @ events)"

definition holds_servers :: "Options \<Rightarrow> (string \<rightharpoonup> string) \<Rightarrow> bool" where
  "holds_servers opts reg \<longleftrightarrow> (\<forall>key. reg key \<noteq> None \<longrightarrow>
     (\<exists>so. key = server_key so \<and> plain_server so \<and> opt_AppName so = opt_AppName opts \<and> 0 < opt_QMsgLen so))"

definition login_reply :: "Msg \<Rightarrow> Msg" where
  "login_reply req = \<lparr>Seq = Seq req, ID = Msg_Login_rst, Body = [], MsgKey = UID req, UID = UID req\<rparr>"

lemma started_published:
  assumes "OnInit (Some f) h events (make_app gate opts) = Some (a, None)"
    and "registering opts f routes F"
    and "holds_servers opts (known_registry h events opts)" and "Dispatch (ap_dispatcher a) msg = Some (Inr call)"
  obtains so where "known_registry h events opts (server_key so) \<noteq> None"
    "call = rpc_call.PublishMsg (nc_pubKey (nats_Init so)) msg"
proof -
  let ?o = "opts\<lparr>opt_Serv := Some 0\<rparr>"
  obtain kvs where kvs: "do { d1 \<leftarrow> connectAll (with_routes routes (init ?o)) kvs; watcher d1 events } = Some (ap_dispatcher a)"
    "kvs = (case h_etcd_Get h (opt_AppName opts) of None \<Rightarrow> [] | Some kvs \<Rightarrow> kvs)"
    using OnInit_registered [OF assms(1,2)] by metis
  have "\<exists>so. key = server_key so \<and> plain_server so \<and> opt_AppName so = opt_AppName ?o \<and> 0 < opt_QMsgLen so"
    if "registry Map.empty (map (\<lambda>(k, v). PUT k v) kvs @ events) key \<noteq> None" for key
    using assms(3) that unfolding kvs(2) holds_servers_def known_registry_def by simp
  from dispatched_published [OF kvs(1) this assms(4)] obtain so where
    "registry Map.empty (map (\<lambda>(k, v). PUT k v) kvs @ events) (server_key so) \<noteq> None" "0 < opt_QMsgLen so"
    "call = rpc_call.PublishMsg (nc_pubKey (nats_Init so)) msg" .
  with that show thesis unfolding kvs(2) known_registry_def by simp
qed

text \<open>
  C6. The demonstration end to end. A client whose session is verified sends a login request with any
  user id in it. The gate passes it on unchanged, published on the subject of a server that is registered under the
  routes of the gate; there, unless that server is a gate, it is queued for the handlers when there is room. Any
  application server that has started handles it the same way: it publishes one answer, on the subject of a
  server that is registered under its own routes. If that is a gate which holds a session of the user whom the request
  names (with room in its queue), the answer is put into the queue of that session. Nothing on the way compares
  this user with the one of the session that the request came from. (NATS delivers what is published on a subject to
  the server that listens on it; the two gates may be different ones or the same.)
\<close>

theorem login_answered_to_named_user:
  assumes "OnInit (Some gate_Registe) hg evg (make_app True go) = Some (ga, None)"
    and "OnInit (Some app_registe) ha eva (make_app False ao) = Some (aa, None)"
    and "holds_servers go (known_registry hg evg go)" and "holds_servers ao (known_registry ha eva ao)"
    and "w_sessions w r = Some s" and "live s uid" and "ID req = Msg_Login"
    and "Dispatch (ap_dispatcher ga) req = Some (Inr call1)"
    and "Dispatch (ap_dispatcher aa) (login_reply req) = Some (Inr call2)"
    and "enc req = Some data1" and "dec data1 = Some req"
    and "enc (login_reply req) = Some data2" and "dec data2 = Some (login_reply req)"
  shows "\<exists>w1 so1 so2 subj1 subj2. msgIn g w r req = Some (w1, None) \<and> w_calls w1 = w_calls w @ [req]
    \<and> known_registry hg evg go (server_key so1) \<noteq> None \<and> call1 = rpc_call.PublishMsg subj1 req
    \<and> (\<forall>g1 nc1 w0. client_of so1 nc1 \<and> length (nc_callBack nc1) < unat (opt_QMsgLen so1) \<longrightarrow>
        handler dec False g1 (nc1, w0) \<lparr>nm_Subject = subj1, nm_Data = Some data1\<rparr>
        = Some ((nc1\<lparr>nc_callBack := nc_callBack nc1 @ [req]\<rparr>, w0), None))
    \<and> HandleMsg (Some (dispatching (ap_dispatcher aa))) dur (Some req) (ap_process aa) = Some (ap_process aa, Some (login_reply req))
    \<and> HandleLoginReq (Some (dispatching (ap_dispatcher aa))) req [] = Some (Some (login_reply req), [call2])
    \<and> known_registry ha eva ao (server_key so2) \<noteq> None \<and> call2 = rpc_call.PublishMsg subj2 (login_reply req)
    \<and> (\<forall>g2 nc2 w2 r' s' out. client_of so2 nc2 \<and> GetSession w2 (UID req) = Some r' \<and> w_sessions w2 r' = Some s'
        \<and> live s' (UID req) \<and> g_marshal g2 (login_reply req) = Some out
        \<and> length (ss_out s') < unat (opt_MaxMsgChanLen (w_opts w2)) \<longrightarrow>
        handler dec True g2 (nc2, w2) \<lparr>nm_Subject = subj2, nm_Data = Some data2\<rparr>
        = Some ((nc2, session_upd w2 r' (s'\<lparr>ss_out := ss_out s' @ [out]\<rparr>)), None))"
proof -
  obtain so1 where so1: "known_registry hg evg go (server_key so1) \<noteq> None"
    "call1 = rpc_call.PublishMsg (nc_pubKey (nats_Init so1)) req"
    by (rule started_published [OF assms(1) registering_gate assms(3,8)])
  obtain so2 where so2: "known_registry ha eva ao (server_key so2) \<noteq> None"
    "call2 = rpc_call.PublishMsg (nc_pubKey (nats_Init so2)) (login_reply req)"
    by (rule started_published [OF assms(2) registering_app assms(4,9)])
  let ?w1 = "(session_upd w r (SetHeartBeatTime g s))\<lparr>w_calls := w_calls w @ [req]\<rparr>"
  have msg: "msgIn g w r req = Some (?w1, None)" "w_calls ?w1 = w_calls w @ [req]"
    using assms(5-7) by (simp_all add: msgIn_def live_def demo_codes code_defs)
  have call: "HandleLoginReq (Some (dispatching (ap_dispatcher aa))) req [] = Some (Some (login_reply req), [call2])"
    using assms(9) by (simp add: HandleLoginReq_def dispatching_def login_reply_def)
  have handled: "HandleMsg (Some (dispatching (ap_dispatcher aa))) dur (Some req) (ap_process aa) = Some (ap_process aa, Some (login_reply req))"
  proof -
    have "\<exists>infos. pc_msgInfos (ap_process aa) = Some infos \<and> map_of infos Msg_Login = Some (Some (answering HandleLoginReq))
        \<and> \<not> pc_EnablePerf (ap_process aa)"
      by (rule OnInit_registered [OF assms(2) registering_app]) (simp add: Processor_Init_def demo_codes code_defs)
    then show ?thesis using assms(7) call by (auto simp: HandleMsg_def Record_def answering_def)
  qed
  have queued: "handler dec False g1 (nc1, w0) \<lparr>nm_Subject = nc_pubKey (nats_Init so1), nm_Data = Some data1\<rparr>
      = Some ((nc1\<lparr>nc_callBack := nc_callBack nc1 @ [req]\<rparr>, w0), None)"
    if "client_of so1 nc1 \<and> length (nc_callBack nc1) < unat (opt_QMsgLen so1)" for g1 nc1 w0
    using that handler_own_subject [of so1 nc1 dec data1 req, OF _ assms(11)] by simp
  have answered: "handler dec True g2 (nc2, w2) \<lparr>nm_Subject = nc_pubKey (nats_Init so2), nm_Data = Some data2\<rparr>
      = Some ((nc2, session_upd w2 r' (s'\<lparr>ss_out := ss_out s' @ [out]\<rparr>)), None)"
    if "client_of so2 nc2 \<and> GetSession w2 (UID req) = Some r' \<and> w_sessions w2 r' = Some s'
        \<and> live s' (UID req) \<and> g_marshal g2 (login_reply req) = Some out
        \<and> length (ss_out s') < unat (opt_MaxMsgChanLen (w_opts w2))" for g2 nc2 w2 r' s' out
    using that handler_own_subject [of so2 nc2 dec data2 "login_reply req", OF _ assms(13)]
    by (simp add: Receive_def GetSession_def RpcMsg_def SendMsg_def login_reply_def live_def conn_down_def demo_codes code_defs)
  show ?thesis
    by (rule exI [of _ ?w1], rule exI [of _ so1], rule exI [of _ so2], rule exI [of _ "nc_pubKey (nats_Init so1)"],
        rule exI [of _ "nc_pubKey (nats_Init so2)"], intro conjI allI impI)
      (fact msg so1 so2 call handled queued answered)+
qed

subsection \<open>An instance\<close>

text \<open>A codec for the instances: the numbers in decimal, each ended by a comma, and then the data.\<close>

definition numbers_enc :: "nat list \<Rightarrow> string \<Rightarrow> string" where
  "numbers_enc ns data = concat (map (\<lambda>n. nat_digits n @ '','') ns) @ data"

fun numbers_dec :: "nat \<Rightarrow> string \<Rightarrow> nat list \<times> string" where
  "numbers_dec 0 s = ([], s)"
| "numbers_dec (Suc k) s =
     (let (ns, data) = numbers_dec k (tl (dropWhile is_digit s)) in (digits_val (takeWhile is_digit s) # ns, data))"

lemma numbers_roundtrip: "numbers_dec (length ns) (numbers_enc ns data) = (ns, data)"
proof (induction ns)
  case (Cons n ns)
  have "takeWhile is_digit (nat_digits n @ CHR '','' # s) = nat_digits n"
    "dropWhile is_digit (nat_digits n @ CHR '','' # s) = CHR '','' # s" for s
    using nat_digits_are_digits [of n] by (simp_all add: list_all_iff is_digit_def)
  then show ?case using Cons by (simp add: numbers_enc_def)
qed (simp add: numbers_enc_def)

definition example_enc :: "Msg \<Rightarrow> string option" where
  "example_enc m = Some (numbers_enc [unat (Seq m), unat (ID m), unat (MsgKey m), unat (UID m)] (Body m))"

definition example_dec :: "string \<Rightarrow> Msg option" where
  "example_dec s = (case numbers_dec 4 s of
     ([a, b, c, d], data) \<Rightarrow> Some \<lparr>Seq = of_nat a, ID = of_nat b, Body = data, MsgKey = of_nat c, UID = of_nat d\<rparr>
   | _ \<Rightarrow> None)"

lemma example_codec: "\<exists>data. example_enc m = Some data \<and> example_dec data = Some m"
  using numbers_roundtrip [of "[unat (Seq m), unat (ID m), unat (MsgKey m), unat (UID m)]" "Body m"]
  by (simp add: example_enc_def example_dec_def numeral_eq_Suc)

theorem Json_roundtrip_loses_user_witness:
  "\<exists>jenc jdec data. Json_Marshal jenc (Some game_msg) = Inr data \<and> Json_Unmarshal jdec data = Inr (game_msg\<lparr>UID := 0\<rparr>)"
proof -
  let ?e = "\<lambda>h. Some (numbers_enc [unat (hd_Seq h), unat (hd_UID h), unat (hd_Cmd h), unat (hd_Key h)] (hd_Data h))"
  let ?d = "\<lambda>s. case numbers_dec 4 s of
     ([a, b, c, d], data) \<Rightarrow> Some \<lparr>hd_Seq = of_nat a, hd_UID = of_nat b, hd_Cmd = of_nat c, hd_Key = of_nat d, hd_Data = data\<rparr>
   | _ \<Rightarrow> None"
  have "\<exists>data. ?e h = Some data \<and> ?d data = Some h" for h :: Head
    using numbers_roundtrip [of "[unat (hd_Seq h), unat (hd_UID h), unat (hd_Cmd h), unat (hd_Key h)]" "hd_Data h"]
    by (simp add: numeral_eq_Suc)
  from Json_roundtrip_loses_user [of ?e ?d, OF this] show ?thesis by blast
qed

lemma OnInit_starts:
  assumes "registering opts f routes F" and "opt_Process opts \<noteq> None"
    and "ETCD_Init h (opt_ETCDHosts opts) (opt_ETCDCertFile opts) (opt_ETCDKeyFile opts) = (ec, None)"
    and "NewNatsClient (h_nats_Connect h) (h_nats_JetStream h) opts = Inr nc"
    and "h_etcd_Get h (opt_AppName opts) = Some kvs"
    and "do { d1 \<leftarrow> connectAll (with_routes routes (init (opts\<lparr>opt_Serv := Some 0\<rparr>))) kvs; watcher d1 events } = Some d"
  shows "\<exists>a. OnInit (Some f) h events (make_app gate opts) = Some (a, None) \<and> ap_dispatcher a = d"
proof -
  let ?o = "opts\<lparr>opt_Serv := Some 0\<rparr>"
  have f: "f a = Some (a\<lparr>ap_dispatcher := with_routes routes (ap_dispatcher a), ap_process := F (ap_process a)\<rparr>)"
    if "opt_Process (ap_opts a) = opt_Process opts" "pc_msgInfos (ap_process a) = Some []" for a
    using assms(1,2) that by (simp add: registering_def)
  obtain r where r: "with_routes routes (init ?o) = (init ?o)\<lparr>d_route := r\<rparr>" using with_routes_update by blast
  have root: "d_root (with_routes routes (init ?o)) = opt_AppName opts" unfolding r by (simp add: init_def Let_def)
  have start: "Dispatcher_Start (Some kvs) events (with_routes routes (init ?o)) = Some d"
    using assms(6) by (simp add: Dispatcher_Start_def)
  show ?thesis
    using assms(2-5) start
    by (simp add: OnInit_def make_app_def Let_def f Processor_Init_def start_parts_def NewRPCClient_eq NewNatsClient_opts root)
qed

definition demo_opts :: "string \<Rightarrow> string \<Rightarrow> Options" where
  "demo_opts sType con = default_options\<lparr>opt_AppName := ''app'', opt_ServerType := sType, opt_ServerName := ''1'',
     opt_ServerConTypes := [con], opt_NatsHosts := [''127.0.0.1:4222'']\<rparr>"

text \<open>A server that has started with one entry in its registry dispatches to it.\<close>

lemma demo_started:
  fixes f :: "'c App \<Rightarrow> 'c App option"
  assumes "registering (demo_opts sType con) f routes F" and "service_name key = ''app/'' @ ty"
    and "route_type (init (demo_opts sType con)) (service_name key) = Hash"
    and "\<not> not_provided (init (demo_opts sType con)) (service_name key)"
    and "GetMsgKey (with_routes routes (init ((demo_opts sType con)\<lparr>opt_Serv := Some 0\<rparr>))) (ID msg) = Inr ty"
  obtains a call where "OnInit (Some f) good_host [PUT key ''up''] (make_app gate (demo_opts sType con)) = Some (a, None)"
    "Dispatch (ap_dispatcher a) msg = Some (Inr call)"
proof -
  let ?o = "demo_opts sType con"
  let ?s = "?o\<lparr>opt_Serv := Some 0\<rparr>"
  have same: "route_type (init ?s) n = route_type (init ?o) n" "not_provided (init ?s) n = not_provided (init ?o) n" for n
    by (simp_all add: route_type_def not_provided_def init_def Let_def)
  obtain d p where d: "do { d1 \<leftarrow> connectAll (with_routes routes (init ?s)) []; watcher d1 [PUT key ''up''] } = Some d"
    "Dispatch d msg = Some (Inr (rpc_call.PublishMsg (p_pubKey (p :: proxy)) msg))"
  proof (rule single_routed [of key ?s ty routes msg "''up''"])
    show "service_name key = opt_AppName ?s @ ''/'' @ ty" using assms(2) by (simp add: demo_opts_def)
    show "opt_DisRep ?s \<noteq> 0" by (simp add: demo_opts_def default_options_def)
  qed (use assms(3-5) same in auto)
  have "\<exists>ec. ETCD_Init good_host (opt_ETCDHosts ?o) (opt_ETCDCertFile ?o) (opt_ETCDKeyFile ?o) = (ec, None)"
    by (simp add: ETCD_Init_def etcd_tls_def good_host_def demo_opts_def default_options_def Let_def)
  then obtain ec where ec: "ETCD_Init good_host (opt_ETCDHosts ?o) (opt_ETCDCertFile ?o) (opt_ETCDKeyFile ?o) = (ec, None)" ..
  have "\<exists>a. OnInit (Some f) good_host [PUT key ''up''] (make_app gate ?o) = Some (a, None) \<and> ap_dispatcher a = d"
    by (rule OnInit_starts [OF assms(1) _ ec _ _ d(1)])
      (simp_all add: NewNatsClient_def nats_hosts_def good_host_def demo_opts_def default_options_def)
  with d(2) that show thesis by blast
qed

lemmas demo_route_defs = route_type_def not_provided_def init_def demo_opts_def default_options_def init_name_def
  TrimSpace_def is_space_def Atoi_def is_digit_def digits_val_def to_RouteType_def Hash_def Let_def

definition two_users :: World where
  "two_users = (empty_gate default_options)\<lparr>w_sessions := [0 \<mapsto> live_session 7, 1 \<mapsto> live_session 8],
     w_mgr := [(7, 0), (8, 1)], w_count := 2\<rparr>"

definition foreign_login :: Msg where
  "foreign_login = \<lparr>Seq = 3, ID = Msg_Login, Body = [], MsgKey = 7, UID = 7\<rparr>"

lemma demo_registry:
  assumes "server_key so = key" and "plain_server so" and "opt_AppName so = opt_AppName opts" and "0 < opt_QMsgLen so"
  shows "holds_servers opts (known_registry good_host [PUT key st] opts)"
  using assms by (auto simp: holds_servers_def known_registry_def good_host_def split: if_splits)

text \<open>The client of user 8 makes the server answer to user 7.\<close>

theorem login_answered_to_named_user_witness:
  "\<exists>w1 so2 subj2. msgIn (open_gate 100) two_users 1 foreign_login = Some (w1, None)
    \<and> (\<forall>nc2. client_of so2 nc2 \<longrightarrow> handler example_dec True (open_gate 100) (nc2, two_users)
        \<lparr>nm_Subject = subj2, nm_Data = example_enc (login_reply foreign_login)\<rparr>
      = Some ((nc2, session_upd two_users 0 ((live_session 7)\<lparr>ss_out := [FormatUint (unat Msg_Login_rst)]\<rparr>)), None))"
proof -
  let ?go = "demo_opts ''gate'' ''app|1''" and ?ao = "demo_opts ''app'' ''gate|1''"
  let ?g = "open_gate 100"
  have names: "service_name ''app/app/1'' = ''app/app''" "service_name ''app/gate/1'' = ''app/gate''"
    by (simp_all add: service_name_def Dir_def Clean_def Let_def ReplaceAll_def)
  obtain ga call1 where ga: "OnInit (Some (gate_Registe :: unit App \<Rightarrow> _)) good_host [PUT ''app/app/1'' ''up''] (make_app True ?go) = Some (ga, None)"
    "Dispatch (ap_dispatcher ga) foreign_login = Some (Inr call1)"
  proof (rule demo_started [OF registering_gate])
    show "service_name ''app/app/1'' = ''app/'' @ ''app''" by (simp add: names)
    show "route_type (init ?go) (service_name ''app/app/1'') = Hash" "\<not> not_provided (init ?go) (service_name ''app/app/1'')"
      by (simp_all add: names demo_route_defs)
    show "GetMsgKey (with_routes gate_routes (init (?go\<lparr>opt_Serv := Some 0\<rparr>))) (ID foreign_login) = Inr ''app''"
      by (simp add: gate_routes_def foreign_login_def with_routes_def RegisteSer_def init_def GetMsgKey_def demo_codes code_defs Let_def)
  qed
  obtain aa call2 where aa: "OnInit (Some (app_registe :: rpc_call list rpc option App \<Rightarrow> _)) good_host [PUT ''app/gate/1'' ''up''] (make_app False ?ao) = Some (aa, None)"
    "Dispatch (ap_dispatcher aa) (login_reply foreign_login) = Some (Inr call2)"
  proof (rule demo_started [OF registering_app])
    show "service_name ''app/gate/1'' = ''app/'' @ ''gate''" by (simp add: names)
    show "route_type (init ?ao) (service_name ''app/gate/1'') = Hash" "\<not> not_provided (init ?ao) (service_name ''app/gate/1'')"
      by (simp_all add: names demo_route_defs)
    show "GetMsgKey (with_routes app_routes (init (?ao\<lparr>opt_Serv := Some 0\<rparr>))) (ID (login_reply foreign_login)) = Inr ''gate''"
      by (simp add: app_routes_def login_reply_def with_routes_def RegisteSer_def init_def GetMsgKey_def demo_codes code_defs Let_def)
  qed
  have servers: "server_key ?ao = ''app/app/1''" "server_key ?go = ''app/gate/1''" "plain_server ?ao" "plain_server ?go"
    by (simp_all add: server_key_eq plain_server_def plain_def demo_opts_def default_options_def)
  have reg: "holds_servers ?go (known_registry good_host [PUT ''app/app/1'' ''up''] ?go)"
    "holds_servers ?ao (known_registry good_host [PUT ''app/gate/1'' ''up''] ?ao)"
    by (rule demo_registry [OF servers(1,3)], simp_all add: demo_opts_def default_options_def)
      (rule demo_registry [OF servers(2,4)], simp_all add: demo_opts_def default_options_def)
  have w: "w_sessions two_users 1 = Some (live_session 8)" "w_sessions two_users 0 = Some (live_session 7)"
    "GetSession two_users (UID foreign_login) = Some 0" "w_opts two_users = default_options"
    by (simp_all add: two_users_def GetSession_def empty_gate_def foreign_login_def)
  have out: "g_marshal ?g (login_reply foreign_login) = Some (FormatUint (unat Msg_Login_rst))"
    by (simp add: open_gate_def login_reply_def)
  have room: "length (ss_out (live_session 7)) < unat (opt_MaxMsgChanLen (w_opts two_users))"
    by (simp add: w two_logins_fields default_options_def)
  have live: "live (live_session 7) (UID foreign_login)" using live_live_session [of 7] by (simp add: foreign_login_def)
  obtain data1 data2 where enc: "example_enc foreign_login = Some data1" "example_dec data1 = Some foreign_login"
    "example_enc (login_reply foreign_login) = Some data2" "example_dec data2 = Some (login_reply foreign_login)"
    using example_codec by metis
  have "(8 :: u64) \<noteq> 0" "ID foreign_login = Msg_Login" by (simp_all add: foreign_login_def)
  from login_answered_to_named_user [OF ga(1) aa(1) reg w(1) live_live_session [OF this(1)] this(2) ga(2) aa(2) enc, of ?g 0]
  obtain w1 so2 subj2 where w1: "msgIn ?g two_users 1 foreign_login = Some (w1, None)"
    and all: "\<forall>g2 nc2 w2 r' s' out. client_of so2 nc2 \<and> GetSession w2 (UID foreign_login) = Some r' \<and> w_sessions w2 r' = Some s'
        \<and> live s' (UID foreign_login) \<and> g_marshal g2 (login_reply foreign_login) = Some out
        \<and> length (ss_out s') < unat (opt_MaxMsgChanLen (w_opts w2)) \<longrightarrow>
        handler example_dec True g2 (nc2, w2) \<lparr>nm_Subject = subj2, nm_Data = Some data2\<rparr>
        = Some ((nc2, session_upd w2 r' (s'\<lparr>ss_out := ss_out s' @ [out]\<rparr>)), None)"
    by (elim exE conjE) (rule that; assumption)
  have "handler example_dec True ?g (nc2, two_users) \<lparr>nm_Subject = subj2, nm_Data = example_enc (login_reply foreign_login)\<rparr>
      = Some ((nc2, session_upd two_users 0 ((live_session 7)\<lparr>ss_out := [FormatUint (unat Msg_Login_rst)]\<rparr>)), None)"
    if "client_of so2 nc2" for nc2
    using all [rule_format, of nc2 two_users 0 "live_session 7" ?g "FormatUint (unat Msg_Login_rst)"] that w(2,3) live out room enc(3)
    by (simp add: two_logins_fields)
  with w1 show ?thesis by blast
qed

end
