(* ===== verification/Login.thy ===== *)
theory Login
  imports App Placement
begin

text \<open>
  The login server of the demonstration, \<open>demo/login/main.go\<close> and \<open>demo/login/handle/handler.go\<close>: it tells
  a client which gate to connect to, clears the registry, and reports what the dispatcher knows; with
  \<open>Clear\<close> of the dispatcher. Clients are sent to the gate that answers for them will be sent to.
\<close>

section \<open>Clearing the registry\<close>

datatype clear_error = EtcdApiNil | DeleteFailed

text \<open>
  \<open>Clear\<close> asks etcd to delete every key that has the name of the application as a prefix; \<open>deletes\<close> says
  whether etcd does. A panic, when there is no etcd client yet, is recovered from, and then no error
  is returned.
\<close>

definition Dispatcher_Clear :: "ETCDClient option \<Rightarrow> bool \<Rightarrow> Dispatcher \<Rightarrow> (string \<rightharpoonup> string) \<Rightarrow> (string \<rightharpoonup> string) \<times> clear_error option" where
  "Dispatcher_Clear ec deletes d reg = (case ec of
     None \<Rightarrow> (reg, None)
   | Some e \<Rightarrow>
       if ec_client e = None then (reg, Some EtcdApiNil)
       else if \<not> deletes then (reg, Some DeleteFailed)
       else (\<lambda>key. if take (length (d_root d)) key = d_root d then None else reg key, None))"

section \<open>Requests\<close>

text \<open>The answer to an HTTP request: its headers, and what was written.\<close>

record Response =
  rs_Header :: "(string \<times> string) list"
  rs_Body :: string

definition allow_origin :: "Response \<Rightarrow> Response" where
  "allow_origin w = w\<lparr>rs_Header := AList.update ''Access-Control-Allow-Origin'' ''*'' (rs_Header w)\<rparr>"

definition respond :: "string \<Rightarrow> Response \<Rightarrow> Response" where
  "respond s w = w\<lparr>rs_Body := rs_Body w @ s\<rparr>"

text \<open>
  \<open>fmt.Fprintf\<close> with a format and nothing else: a format without a percent sign is written as it is;
  what is made of one with percent signs is given.
\<close>

definition Fprintf :: "(string \<Rightarrow> string) \<Rightarrow> string \<Rightarrow> Response \<Rightarrow> Response" where
  "Fprintf verbs fmt w = respond (if CHR ''%'' \<in> set fmt then verbs fmt else fmt) w"

text \<open>
  \<open>HandleLogin\<close>: \<open>query\<close> are the values of the parameters in the URL, \<open>dec\<close> is \<open>proto.Unmarshal\<close> of a
  status, and \<open>None\<close> is a panic. \<open>strconv.ParseInt\<close> with base 10 and 64 bits is \<open>Atoi\<close>. A status that is
  empty is nil: then the error that is logged is nil as well, and its method call panics.
\<close>

definition HandleLogin :: "(string \<Rightarrow> Status option) \<Rightarrow> (string \<Rightarrow> string) \<Rightarrow> Dispatcher \<Rightarrow> (string \<times> string list) list
    \<Rightarrow> Response \<Rightarrow> Response option" where
  "HandleLogin dec verbs d query w =
     (let w1 = allow_origin w in
      (case map_of query ''uid'' of
         None \<Rightarrow> Some w1
       | Some [] \<Rightarrow> None
       | Some (uidS # _) \<Rightarrow>
           (case Atoi uidS of
              None \<Rightarrow> Some (respond ''fail'' w1)
            | Some uid \<Rightarrow> do {
                r \<leftarrow> GetGate d (word_of_int uid);
                (case r of
                   Inl err1 \<Rightarrow> Some (respond ''fail'' w1)
                 | Inr data \<Rightarrow>
                     if data = [] then None
                     else (case dec data of
                             None \<Rightarrow> Some w1
                           | Some status \<Rightarrow> Some (Fprintf verbs (st_Addr status) w1)))
              })))"

definition HandleClear :: "ETCDClient option \<Rightarrow> bool \<Rightarrow> Dispatcher \<Rightarrow> (string \<rightharpoonup> string) \<Rightarrow> Response
    \<Rightarrow> (string \<rightharpoonup> string) \<times> Response" where
  "HandleClear ec deletes d reg w =
     (let w1 = allow_origin w; (reg1, err1) = Dispatcher_Clear ec deletes d reg
      in (reg1, if err1 \<noteq> None then respond ''fail'' w1 else respond ''OK'' w1))"

text \<open>
  \<open>HandleStatus\<close>: \<open>enc_info\<close> and \<open>dec_info\<close> are the codec of the services with their statuses. With the
  answer, what is logged: every service, and those of its statuses that can be decoded.
\<close>

definition HandleStatus :: "((string \<times> string list) list \<Rightarrow> string option) \<Rightarrow> (string \<Rightarrow> (string \<times> string list) list option)
    \<Rightarrow> (string \<Rightarrow> Status option) \<Rightarrow> Dispatcher \<Rightarrow> Response \<Rightarrow> Response \<times> (string \<times> Status list) list" where
  "HandleStatus enc_info dec_info dec d w =
     (let w1 = allow_origin w in
      (case enc_info (GetStatus d) of
         None \<Rightarrow> (respond ''fail'' w1, [])
       | Some data \<Rightarrow>
           (case dec_info data of
              None \<Rightarrow> (w1, [])
            | Some sers \<Rightarrow> (respond ''OK'' w1, map (\<lambda>(name, sts). (name, List.map_filter dec sts)) sers))))"

text \<open>
  \<open>initLogin\<close>: the address that it listens on, and what handles a path there, as long as it can listen;
  otherwise the process ends (\<open>Fatalf\<close> of the logger exits).
\<close>

datatype login_handler = LoginHandler | ClearHandler | StatusHandler

definition login_mux :: "(string \<times> login_handler) list" where
  "login_mux = [(''/newtbig/login'', LoginHandler), (''/newtbig/clear'', ClearHandler), (''/newtbig/status'', StatusHandler)]"

definition initLogin :: "(string \<Rightarrow> bool) \<Rightarrow> Options \<Rightarrow> string \<times> (string \<times> login_handler) list option" where
  "initLogin listen opts =
     (let addr = opt_ServerIP opts @ '':'' @ opt_ServerPort opts in (addr, if listen addr then Some login_mux else None))"

text \<open>
  \<open>main\<close>: the handlers are served beside the application, which registers nothing; when they cannot be, the
  process ends.
\<close>

definition login_main :: "(string \<Rightarrow> bool) \<Rightarrow> Env \<Rightarrow> Flags \<Rightarrow> Host \<Rightarrow> event list \<Rightarrow> Outside \<Rightarrow> Outside list \<Rightarrow> Outside
    \<Rightarrow> (string \<rightharpoonup> string) \<Rightarrow> ('c App \<times> (string \<rightharpoonup> string) \<times> app_error option) option" where
  "login_main listen env flags h events out ticks fin kv = do {
     app \<leftarrow> NewApp env flags [Debug True, Version ''1.0.0'', Conf ''login'', NetType ''http''] None;
     if snd (initLogin listen (ap_opts app)) = None then None
     else App_Run [] None h events out ticks fin kv app
   }"

section \<open>Where clients are sent\<close>





text \<open>
  A gate whose entry in the registry is empty makes \<open>HandleLogin\<close> panic for the users that belong to it:
  the branch for a missing status logs an error that is not there.
\<close>

theorem login_panics_on_empty_status:
  assumes "GetGate d (word_of_int uid) = Some (Inr [])" and "Atoi uidS = Some uid"
  shows "HandleLogin dec verbs d [(''uid'', [uidS])] w = None"
  using assms by (simp add: HandleLogin_def Let_def)

text \<open>
  Users whose id does not fit into a signed 64-bit integer cannot log in, although ids are unsigned
  everywhere else; a negative number is taken for such an id.
\<close>

theorem login_reads_signed_ids:
  assumes "2 ^ 63 \<le> n"
  shows "HandleLogin dec verbs d [(''uid'', [Itoa n])] w = Some (respond ''fail'' (allow_origin w))"
proof -
  have "Itoa n = nat_digits (nat n)" using assms by (simp add: Itoa_def)
  moreover have "Atoi (nat_digits (nat n)) = None"
  proof (cases "nat_digits (nat n)")
    case (Cons c cs)
    then have "is_digit c" using nat_digits_are_digits [of "nat n"] by simp
    then have "c \<noteq> CHR ''-''" "c \<noteq> CHR ''+''" by auto
    moreover have "digits_val (c # cs) = nat n" unfolding Cons [symmetric] by simp
    ultimately show ?thesis using assms unfolding Cons by (simp add: Atoi_def Let_def)
  qed simp
  ultimately show ?thesis by (simp add: HandleLogin_def Let_def)
qed

text \<open>
  \<open>Clear\<close> deletes the entries of other applications as well: those of every application whose name
  starts with the name of this one, because the prefix does not end with a slash.
\<close>

theorem Clear_deletes_other_applications:
  assumes "ec_client ec \<noteq> None"
  shows "Dispatcher_Clear (Some ec) True (init opts) reg = (reg1, err) \<Longrightarrow>
    err = None \<and> (\<forall>key. reg1 key = (if \<exists>rest. key = opt_AppName opts @ rest then None else reg key))
    \<and> reg1 (server_key (so\<lparr>opt_AppName := opt_AppName opts @ suffix\<rparr>)) = None"
proof -
  assume "Dispatcher_Clear (Some ec) True (init opts) reg = (reg1, err)"
  then have r: "err = None" "reg1 = (\<lambda>key. if take (length (opt_AppName opts)) key = opt_AppName opts then None else reg key)"
    using assms by (auto simp: Dispatcher_Clear_def init_def Let_def)
  have "take (length p) key = p \<longleftrightarrow> (\<exists>rest. key = p @ rest)" for p key :: string
    by (metis append_eq_conv_conj append_take_drop_id)
  with r show ?thesis by (simp add: server_key_eq)
qed

theorem Clear_deletes_other_applications_witness:
  "\<exists>reg1. Dispatcher_Clear (Some \<lparr>ec_Endpoints = [], ec_DialTimeout = 0, ec_TLS = None, ec_client = Some True\<rparr>) True
      (init (example_opts ''game|1'')) [''app2/game/1'' \<mapsto> ''up''] = (reg1, None) \<and> reg1 ''app2/game/1'' = None"
proof -
  let ?ec = "\<lparr>ec_Endpoints = [], ec_DialTimeout = 0, ec_TLS = None, ec_client = Some True\<rparr>"
  obtain reg1 err where r: "Dispatcher_Clear (Some ?ec) True (init (example_opts ''game|1'')) [''app2/game/1'' \<mapsto> ''up''] = (reg1, err)"
    by force
  have ec: "ec_client ?ec \<noteq> None" by simp
  have "server_key (game_server\<lparr>opt_AppName := opt_AppName (example_opts ''game|1'') @ ''2''\<rparr>) = ''app2/game/1''"
    by (simp add: server_key_eq game_server_def example_opts_def)
  moreover have "err = None" "reg1 (server_key (game_server\<lparr>opt_AppName := opt_AppName (example_opts ''game|1'') @ ''2''\<rparr>)) = None"
    using Clear_deletes_other_applications [where so = game_server and suffix = "''2''", OF ec r] by blast+
  ultimately have "err = None \<and> reg1 ''app2/game/1'' = None" by metis
  with r show ?thesis by blast
qed

end
