(* ===== verification/Files.thy ===== *)
theory Files
  imports Prelude
begin

text \<open>
  The file helpers, \<open>utils/file/file.go\<close>, over what the operating system answers; what they ask it to do is
  recorded in order.
\<close>

section \<open>The operating system\<close>

datatype os_err = ErrNotExist | ErrPermission | ErrOther

text \<open>Each answer is an error, or none.\<close>

record Os =
  os_Getwd :: "string option"
  os_Stat :: "string \<Rightarrow> os_err option"
  os_MkdirAll :: "string \<Rightarrow> os_err option"
  os_OpenFile :: "string \<Rightarrow> os_err option"
  os_WriteString :: "string \<Rightarrow> os_err option"

datatype open_flag = O_APPEND | O_CREATE | O_RDWR | O_WRONLY | O_TRUNC

datatype file_call =
    CallMkdirAll string nat
  | CallOpenFile string "open_flag list" nat
  | CallWriteString string
  | CallClose

datatype file_err =
    GetwdErr
  | PermissionDenied string
  | NotExistMkDirErr string os_err
  | OpenFileErr os_err

section \<open>Operations\<close>

text \<open>\<open>GetSize\<close>: what could be read of the upload, and whether reading failed.\<close>

definition GetSize :: "string \<Rightarrow> os_err option \<Rightarrow> nat \<times> os_err option" where
  "GetSize content err = (length content, err)"

text \<open>\<open>path.Ext\<close>: the loop runs from the end to the last dot, and stops at a slash.\<close>

fun ext_loop :: "string \<Rightarrow> string \<Rightarrow> string" where
  "ext_loop [] suffix = []"
| "ext_loop (c # before) suffix =
     (if c = CHR ''/'' then []
      else if c = CHR ''.'' then c # suffix
      else ext_loop before (c # suffix))"

definition GetExt :: "string \<Rightarrow> string" where
  "GetExt fileName = ext_loop (rev fileName) []"

definition CheckNotExist :: "Os \<Rightarrow> string \<Rightarrow> bool" where
  "CheckNotExist os src = (os_Stat os src = Some ErrNotExist)"

definition CheckPermission :: "Os \<Rightarrow> string \<Rightarrow> bool" where
  "CheckPermission os src = (os_Stat os src = Some ErrPermission)"

text \<open>\<open>os.ModePerm\<close> is 0777.\<close>

definition MkDir :: "Os \<Rightarrow> string \<Rightarrow> os_err option \<times> file_call list" where
  "MkDir os src = (os_MkdirAll os src, [CallMkdirAll src 511])"

definition IsNotExistMkDir :: "Os \<Rightarrow> string \<Rightarrow> os_err option \<times> file_call list" where
  "IsNotExistMkDir os src = (if CheckNotExist os src then MkDir os src else (None, []))"

definition Open :: "Os \<Rightarrow> string \<Rightarrow> open_flag list \<Rightarrow> nat \<Rightarrow> (os_err + string) \<times> file_call list" where
  "Open os name flags perm =
     (case os_OpenFile os name of Some err \<Rightarrow> Inl err | None \<Rightarrow> Inr name, [CallOpenFile name flags perm])"

text \<open>\<open>MustOpen\<close>; the file mode is 0644.\<close>

definition MustOpen :: "Os \<Rightarrow> string \<Rightarrow> string \<Rightarrow> (file_err + string) \<times> file_call list" where
  "MustOpen os fileName filePath = (case os_Getwd os of
     None \<Rightarrow> (Inl GetwdErr, [])
   | Some dir \<Rightarrow>
       let src = dir @ ''/'' @ filePath in
       if CheckPermission os src then (Inl (PermissionDenied src), [])
       else (let (err, calls) = IsNotExistMkDir os src in
         (case err of
            Some e \<Rightarrow> (Inl (NotExistMkDirErr src e), calls)
          | None \<Rightarrow>
              let (f, calls') = Open os (src @ fileName) [O_APPEND, O_CREATE, O_RDWR] 420
              in (map_sum OpenFileErr id f, calls @ calls'))))"

definition WriteToFile :: "Os \<Rightarrow> string \<Rightarrow> string \<Rightarrow> os_err option \<times> file_call list" where
  "WriteToFile os fileName content = (case os_OpenFile os fileName of
     Some err \<Rightarrow> (Some err, [CallOpenFile fileName [O_WRONLY, O_TRUNC, O_CREATE] 420])
   | None \<Rightarrow> (os_WriteString os content,
       [CallOpenFile fileName [O_WRONLY, O_TRUNC, O_CREATE] 420, CallWriteString content, CallClose]))"

section \<open>Extensions\<close>

lemma ext_loop_append:
  assumes "CHR ''.'' \<notin> set s" and "CHR ''/'' \<notin> set s"
  shows "ext_loop (rev s @ before) suffix = ext_loop before (s @ suffix)"
  using assms by (induction s arbitrary: suffix rule: rev_induct) auto

text \<open>
  The extension of a file name is what follows its last dot, with the dot; a name without a dot has none,
  whatever dots there are in its directory.
\<close>

theorem GetExt_last_dot:
  assumes "CHR ''.'' \<notin> set e" and "CHR ''/'' \<notin> set e"
  shows "GetExt (name @ ''.'' @ e) = ''.'' @ e \<and> GetExt (dir @ ''/'' @ e) = [] \<and> GetExt e = []"
  using ext_loop_append [OF assms, of "CHR ''.'' # rev name" "[]"] ext_loop_append [OF assms, of "CHR ''/'' # rev dir" "[]"]
    ext_loop_append [OF assms, of "[]" "[]"]
  by (simp add: GetExt_def)

section \<open>Opening\<close>

text \<open>
  \<open>MustOpen\<close> makes the directory that it is given when there is none, but does not open the file in
  it: the name of the file is put directly behind the name of the directory, so that the file lies
  next to the directory, unless the path is given with a slash at its end. It fails exactly when the
  working directory is not known, access is denied, the directory cannot be made, or the file cannot
  be opened, and then opens nothing.
\<close>

theorem MustOpen_opens_beside_directory:
  assumes "os_Getwd os = Some dir" and "src = dir @ ''/'' @ filePath"
  shows "(\<exists>calls. MustOpen os fileName filePath = (Inr (src @ fileName), calls)
      \<and> calls = (if os_Stat os src = Some ErrNotExist then [CallMkdirAll src 511] else [])
          @ [CallOpenFile (src @ fileName) [O_APPEND, O_CREATE, O_RDWR] 420])
    \<longleftrightarrow> os_Stat os src \<noteq> Some ErrPermission \<and> (os_Stat os src = Some ErrNotExist \<longrightarrow> os_MkdirAll os src = None)
      \<and> os_OpenFile os (src @ fileName) = None"
  using assms(1) unfolding assms(2)
  by (auto simp: MustOpen_def CheckPermission_def IsNotExistMkDir_def CheckNotExist_def MkDir_def Open_def Let_def
      split: option.splits)

definition empty_disk :: Os where
  "empty_disk = \<lparr>os_Getwd = Some ''/srv'', os_Stat = (\<lambda>_. Some ErrNotExist), os_MkdirAll = (\<lambda>_. None),
     os_OpenFile = (\<lambda>_. None), os_WriteString = (\<lambda>_. None)\<rparr>"

theorem MustOpen_opens_beside_directory_witness:
  "MustOpen empty_disk ''a.log'' ''logs'' = (Inr ''/srv/logsa.log'',
     [CallMkdirAll ''/srv/logs'' 511, CallOpenFile ''/srv/logsa.log'' [O_APPEND, O_CREATE, O_RDWR] 420])"
  using MustOpen_opens_beside_directory [of empty_disk "''/srv''" "''/srv/logs''" "''logs''" "''a.log''"]
  by (simp add: empty_disk_def)

text \<open>\<open>WriteToFile\<close> closes the file whenever it has opened it, and returns the error of the write.\<close>

theorem WriteToFile_closes:
  "WriteToFile os f s = (err, calls) \<Longrightarrow> CallClose \<in> set calls \<longleftrightarrow> os_OpenFile os f = None"
  by (auto simp: WriteToFile_def split: option.splits)

end
