(* ===== verification/Logging.thy ===== *)
theory Logging
  imports Prelude
begin

text \<open>
  The set-up of the logger, \<open>logging/zapLog.go\<close>: which outputs a message reaches, by its level. The
  logger (zap) and the rotating files are libraries; of them the set-up uses levels and a list of
  outputs, each with the levels that it takes.
\<close>

section \<open>Levels and outputs\<close>

datatype level = DebugLevel | InfoLevel | WarnLevel | ErrorLevel | DPanicLevel | PanicLevel | FatalLevel

fun level_num :: "level \<Rightarrow> int" where
  "level_num DebugLevel = -1"
| "level_num InfoLevel = 0"
| "level_num WarnLevel = 1"
| "level_num ErrorLevel = 2"
| "level_num DPanicLevel = 3"
| "level_num PanicLevel = 4"
| "level_num FatalLevel = 5"

lemma level_num_inject: "level_num a = level_num b \<longleftrightarrow> a = b"
  by (cases a; cases b) simp_all

instantiation level :: linorder
begin

definition less_eq_level :: "level \<Rightarrow> level \<Rightarrow> bool" where
  "less_eq_level a b \<longleftrightarrow> level_num a \<le> level_num b"

definition less_level :: "level \<Rightarrow> level \<Rightarrow> bool" where
  "less_level a b \<longleftrightarrow> level_num a < level_num b"

instance
proof
  fix a b :: level
  show "a \<le> b \<Longrightarrow> b \<le> a \<Longrightarrow> a = b" using level_num_inject [of a b] unfolding less_eq_level_def by linarith
qed (auto simp: less_eq_level_def less_level_def)

end

text \<open>A file that is rotated: the pattern of its name, its link, and its age and period in seconds.\<close>

record rotated =
  rf_pattern :: string
  rf_link :: string
  rf_maxAge :: nat
  rf_rotation :: nat

datatype log_output = Stdout | Rotated rotated

type_synonym core = "log_output \<times> (level \<Rightarrow> bool)"

record Logger =
  lg_cores :: "core list"
  lg_stacktrace :: level

section \<open>Setting up\<close>

text \<open>\<open>rotatelogs.New\<close> fails for some patterns, and then \<open>getWriter\<close> panics.\<close>

definition getWriter :: "(string \<Rightarrow> bool) \<Rightarrow> string \<Rightarrow> string \<Rightarrow> rotated option" where
  "getWriter rotatelogs logPath filename =
     (let pattern = logPath @ filename @ ''.%Y%m%d'' in
      if rotatelogs pattern
      then Some \<lparr>rf_pattern = pattern, rf_link = filename, rf_maxAge = 3600 * 24 * 7, rf_rotation = 3600 * 24\<rparr>
      else None)"

definition InitLog :: "(string \<Rightarrow> bool) \<Rightarrow> string \<Rightarrow> string \<Rightarrow> bool \<Rightarrow> Logger option" where
  "InitLog rotatelogs logPath logName debug = do {
     let warnLevel = (\<lambda>lvl. lvl \<ge> WarnLevel);
     let logName = (if logName = [] then ''out'' else logName);
     zc \<leftarrow> (if debug then Some (Stdout, \<lambda>lvl. True)
           else do {
             infoHook_1 \<leftarrow> getWriter rotatelogs logPath (''/'' @ logName @ ''.log'');
             Some (Rotated infoHook_1, \<lambda>lvl. lvl \<ge> InfoLevel)
           });
     errorHook \<leftarrow> getWriter rotatelogs logPath (''/'' @ logName @ ''.err'');
     Some \<lparr>lg_cores = [zc, (Rotated errorHook, warnLevel)], lg_stacktrace = ErrorLevel\<rparr>
   }"

section \<open>Logging\<close>

text \<open>The outputs that a message reaches.\<close>

definition outputs :: "Logger \<Rightarrow> level \<Rightarrow> log_output list" where
  "outputs lg lvl = map fst (filter (\<lambda>(out, enabled). enabled lvl) (lg_cores lg))"

text \<open>
  The helpers hand the slice of their arguments on as one argument, so that it is printed as a slice:
  in brackets, the printed elements separated by spaces.
\<close>

fun spaced :: "string list \<Rightarrow> string" where
  "spaced [] = []"
| "spaced [s] = s"
| "spaced (s # ss) = s @ '' '' @ spaced ss"

definition log_args :: "Logger \<Rightarrow> level \<Rightarrow> string list \<Rightarrow> (log_output \<times> string) list" where
  "log_args lg lvl args = map (\<lambda>out. (out, ''['' @ spaced args @ '']'')) (outputs lg lvl)"

definition log_Debug :: "Logger \<Rightarrow> string list \<Rightarrow> (log_output \<times> string) list" where
  "log_Debug lg args = log_args lg DebugLevel args"

definition log_Info :: "Logger \<Rightarrow> string list \<Rightarrow> (log_output \<times> string) list" where
  "log_Info lg args = log_args lg InfoLevel args"

definition log_Warn :: "Logger \<Rightarrow> string list \<Rightarrow> (log_output \<times> string) list" where
  "log_Warn lg args = log_args lg WarnLevel args"

definition log_Error :: "Logger \<Rightarrow> string list \<Rightarrow> (log_output \<times> string) list" where
  "log_Error lg args = log_args lg ErrorLevel args"

text \<open>\<open>Fatal\<close> ends the process after it has logged.\<close>

definition log_Fatal :: "Logger \<Rightarrow> string list \<Rightarrow> (log_output \<times> string) list \<times> bool" where
  "log_Fatal lg args = (log_args lg FatalLevel args, True)"

section \<open>Where messages go\<close>

text \<open>
  When debugging, every message goes to the standard output, and from level warn on to the error
  file as well; otherwise nothing goes to the standard output, messages from level info on go to the log
  file and those from warn on to the error file too, so that only debug messages are dropped. The
  links to the current files are made in the root directory, not where the logs are.
\<close>

theorem InitLog_routes_by_level:
  assumes "InitLog rotatelogs logPath logName debug = Some lg"
    and "name = ''/'' @ (if logName = [] then ''out'' else logName)"
    and "file = (\<lambda>ext. Rotated \<lparr>rf_pattern = logPath @ name @ ext @ ''.%Y%m%d'', rf_link = name @ ext,
      rf_maxAge = 604800, rf_rotation = 86400\<rparr>)"
  shows "outputs lg lvl = (if debug then [Stdout] else if lvl \<ge> InfoLevel then [file ''.log''] else [])
      @ (if lvl \<ge> WarnLevel then [file ''.err''] else [])"
  using assms
  by (auto simp: InitLog_def getWriter_def outputs_def Let_def bind_eq_Some_conv split: if_splits)

theorem InitLog_routes_by_level_witness:
  "\<exists>lg. InitLog (\<lambda>_. True) ''/srv/logs/'' ''app'' False = Some lg \<and> outputs lg DebugLevel = []
    \<and> map fst (log_Error lg [''a'', ''b'']) = [Rotated \<lparr>rf_pattern = ''/srv/logs//app.log.%Y%m%d'', rf_link = ''/app.log'',
        rf_maxAge = 604800, rf_rotation = 86400\<rparr>,
      Rotated \<lparr>rf_pattern = ''/srv/logs//app.err.%Y%m%d'', rf_link = ''/app.err'', rf_maxAge = 604800, rf_rotation = 86400\<rparr>]"
proof -
  obtain lg where lg: "InitLog (\<lambda>_. True) ''/srv/logs/'' ''app'' False = Some lg"
    by (simp add: InitLog_def getWriter_def Let_def)
  have "map fst (log_Error lg as) = outputs lg ErrorLevel" for as by (simp add: log_Error_def log_args_def comp_def)
  with lg InitLog_routes_by_level [OF lg refl refl, of DebugLevel] InitLog_routes_by_level [OF lg refl refl, of ErrorLevel]
  show ?thesis by (simp add: less_eq_level_def)
qed

text \<open>The helpers print their arguments in brackets, on every output of the level.\<close>

lemma log_Info_brackets: "(out, s) \<in> set (log_Info lg args) \<Longrightarrow> hd s = CHR ''['' \<and> last s = CHR '']''"
  by (auto simp: log_Info_def log_args_def)

end
