(* ===== verification/Lifecycle.thy ===== *)
theory Lifecycle
  imports App
begin

text \<open>
  The servers that a service runs: the interface \<open>Server\<close> of \<open>module/module.go\<close> with its implementations,
  the gate's in \<open>gate/server/server.go\<close> and the application's in \<open>server/server.go\<close>, and the service of
  \<open>service/service.go\<close> that calls them. \<open>Registration\<close> takes the answers of the server as given; here they
  are those of the server itself, whose state changes while it runs. The locale \<open>server_module\<close> states
  what the service relies on, and is interpreted on both servers.
\<close>

section \<open>The interface\<close>

text \<open>
  The methods of a server with state \<open>'s\<close>: the new state and whether no error is returned; \<open>None\<close> is a
  panic, or waits for ever.
\<close>

record 's Server =
  sr_BeforeStart :: "'s \<Rightarrow> ('s \<times> bool) option"
  sr_Start :: "'s \<Rightarrow> ('s \<times> bool) option"
  sr_BeforeStop :: "'s \<Rightarrow> ('s \<times> bool) option"
  sr_AfterStart :: "'s \<Rightarrow> ('s \<times> bool) option"
  sr_Stop :: "'s \<Rightarrow> ('s \<times> bool) option"
  sr_AfterStop :: "'s \<Rightarrow> ('s \<times> bool) option"
  sr_Count :: "'s \<Rightarrow> u32"

section \<open>A service and its server\<close>

text \<open>
  The operations of the service with its server, on the state of both. What else the service asks of the outside is
  as before: the encoding of the status and the registry.
\<close>

definition srv_register :: "'s Server \<Rightarrow> Outside \<Rightarrow> 's \<times> sv_state \<Rightarrow> ('s \<times> sv_state) \<times> sv_error option" where
  "srv_register m out ss = (let (s, sv) = ss; (sv1, err) = register (out\<lparr>o_count := sr_Count m s\<rparr>) sv in ((s, sv1), err))"

definition srv_Start :: "'s Server \<Rightarrow> Outside \<Rightarrow> 's \<times> sv_state \<Rightarrow> (('s \<times> sv_state) \<times> sv_error option) option" where
  "srv_Start m out ss = (let (s, sv) = ss in do {
     let sv1 = act BeforeStart sv;
     (s1, ok1) \<leftarrow> sr_BeforeStart m s;
     if \<not> ok1 then Some ((s1, sv1), Some BeforeStartErr)
     else do {
       let sv2 = act StartServer sv1;
       (s2, ok2) \<leftarrow> sr_Start m s1;
       if \<not> ok2 then Some ((s2, sv2), Some StartErr)
       else (let (ss3, err) = srv_register m out (s2, sv2); (s3, sv3) = ss3 in
         if err \<noteq> None then Some ((s3, sv3), err)
         else do {
           (s4, ok4) \<leftarrow> sr_AfterStart m s3;
           Some ((s4, act AfterStart sv3), if ok4 then None else Some AfterStartErr)
         })
     }
   })"

text \<open>
  Between two ticks of the service the server works: \<open>work\<close> is what its goroutines do to its state until
  the tick comes.
\<close>

fun srv_run :: "'s Server \<Rightarrow> Options \<Rightarrow> (('s \<Rightarrow> 's option) \<times> Outside) list \<Rightarrow> int \<Rightarrow> 's \<times> sv_state \<Rightarrow> ('s \<times> sv_state) option" where
  "srv_run m opts [] registeTime ss = Some ss"
| "srv_run m opts ((work, out) # ticks) registeTime (s, sv) = do {
     s1 \<leftarrow> work s;
     let (t1, sv1) = (if sint (opt_RegisterInterval opts) \<le> 0 then (registeTime, sv)
                      else run_tick opts (out\<lparr>o_count := sr_Count m s1\<rparr>) (registeTime, sv));
     srv_run m opts ticks t1 (s1, sv1)
   }"

definition srv_Stop :: "'s Server \<Rightarrow> Outside \<Rightarrow> 's \<times> sv_state \<Rightarrow> ('s \<times> sv_state) option" where
  "srv_Stop m out ss = (let (s, sv) = ss in do {
     (s1, ok1) \<leftarrow> sr_BeforeStop m s;
     let sv1 = warn_if (\<not> ok1) (act BeforeStop sv);
     let (sv2, err) = deregister out sv1;
     let sv3 = warn_if (err \<noteq> None) sv2;
     (s2, ok2) \<leftarrow> sr_Stop m s1;
     let sv4 = warn_if (\<not> ok2) (act StopServer sv3);
     (s3, ok3) \<leftarrow> sr_AfterStop m s2;
     Some (s3, warn_if (\<not> ok3) (act AfterStop sv4))
   })"

definition srv_Run :: "'s Server \<Rightarrow> Options \<Rightarrow> Outside \<Rightarrow> (('s \<Rightarrow> 's option) \<times> Outside) list \<Rightarrow> Outside
    \<Rightarrow> 's \<times> sv_state \<Rightarrow> (('s \<times> sv_state) \<times> sv_error option) option" where
  "srv_Run m opts out ticks fin ss = do {
     (ss1, err) \<leftarrow> srv_Start m out ss;
     if err \<noteq> None then Some (ss1, err)
     else do {
       ss2 \<leftarrow> srv_run m opts ticks 0 ss1;
       ss3 \<leftarrow> srv_Stop m fin ss2;
       Some (ss3, None)
     }
   }"

section \<open>Refinement\<close>

text \<open>The answers of the registry and of the encoding are the same.\<close>

definition same_registry :: "Outside \<Rightarrow> Outside \<Rightarrow> bool" where
  "same_registry a b \<longleftrightarrow> o_marshal a = o_marshal b \<and> o_client a = o_client b \<and> o_put a = o_put b \<and> o_delete a = o_delete b"

lemma same_registry_refl [simp]: "same_registry a a"
  by (simp add: same_registry_def)

lemma srv_Start_refines:
  assumes "srv_Start m out (s, sv) = Some ((s', sv'), err)"
  shows "\<exists>out'. same_registry out out' \<and> Registration.Start out' sv = (sv', err)"
proof -
  have reg: "register (out\<lparr>o_BeforeStart := a, o_Start := b, o_AfterStart := c, o_count := n\<rparr>) sv = register (out\<lparr>o_count := n\<rparr>) sv"
    for a b c n sv by (simp add: register_def Let_def split: option.split)
  obtain s1 ok1 where s1: "sr_BeforeStart m s = Some (s1, ok1)"
    using assms by (auto simp: srv_Start_def Let_def bind_eq_Some_conv)
  show ?thesis
  proof (cases ok1)
    case False
    with assms s1 show ?thesis
      by (intro exI [of _ "out\<lparr>o_BeforeStart := False\<rparr>"]) (auto simp: srv_Start_def Registration.Start_def same_registry_def Let_def)
  next
    case ok1: True
    with assms s1 obtain s2 ok2 where s2: "sr_Start m s1 = Some (s2, ok2)"
      by (auto simp: srv_Start_def Let_def bind_eq_Some_conv)
    show ?thesis
    proof (cases ok2)
      case False
      with assms s1 ok1 s2 show ?thesis
        by (intro exI [of _ "out\<lparr>o_BeforeStart := True, o_Start := False\<rparr>"])
          (auto simp: srv_Start_def Registration.Start_def same_registry_def Let_def)
    next
      case True
      obtain sv3 err3 where r: "register (out\<lparr>o_count := sr_Count m s2\<rparr>) (act StartServer (act BeforeStart sv)) = (sv3, err3)" by force
      let ?out = "\<lambda>ok. out\<lparr>o_BeforeStart := True, o_Start := True, o_AfterStart := ok, o_count := sr_Count m s2\<rparr>"
      have "\<exists>ok. Registration.Start (?out ok) sv = (sv', err)"
      proof (cases err3)
        case None
        with assms s1 ok1 s2 True r obtain s4 ok where "sr_AfterStart m s2 = Some (s4, ok)"
          "sv' = act AfterStart sv3" "err = (if ok then None else Some AfterStartErr)"
          by (auto simp: srv_Start_def srv_register_def Let_def bind_eq_Some_conv)
        with r None show ?thesis by (intro exI [of _ ok]) (simp add: Registration.Start_def reg Let_def)
      next
        case (Some e)
        with assms s1 ok1 s2 True r have "sv' = sv3" "err = Some e"
          by (auto simp: srv_Start_def srv_register_def Let_def)
        with r Some show ?thesis by (simp add: Registration.Start_def reg Let_def)
      qed
      then show ?thesis by (elim exE, intro exI conjI) (auto simp: same_registry_def)
    qed
  qed
qed

lemma srv_run_refines:
  assumes "srv_run m opts ticks t (s, sv) = Some (s', sv')" and "t = 0 \<or> 0 < sint (opt_RegisterInterval opts)"
  shows "\<exists>outs. list_all2 same_registry (map snd ticks) outs
    \<and> sv' = (if sint (opt_RegisterInterval opts) \<le> 0 then sv else snd (foldl (\<lambda>rs out. run_tick opts out rs) (t, sv) outs))"
  using assms
proof (induction ticks arbitrary: t s sv)
  case (Cons tick ticks)
  obtain work out where tick: "tick = (work, out)" by (cases tick)
  with Cons.prems(1) obtain s1 where s1: "work s = Some s1" by (auto simp: bind_eq_Some_conv)
  let ?out = "out\<lparr>o_count := sr_Count m s1\<rparr>"
  obtain t1 sv1 where tick1: "run_tick opts ?out (t, sv) = (t1, sv1)" by force
  have same: "same_registry out ?out" by (simp add: same_registry_def)
  show ?case
  proof (cases "sint (opt_RegisterInterval opts) \<le> 0")
    case True
    with Cons.prems tick s1 Cons.IH [of t s1 sv] same show ?thesis by (fastforce simp: list_all2_Cons1)
  next
    case False
    with Cons.prems tick s1 tick1 have "srv_run m opts ticks t1 (s1, sv1) = Some (s', sv')" by simp
    from Cons.IH [OF this] False obtain outs where "list_all2 same_registry (map snd ticks) outs"
      "sv' = snd (foldl (\<lambda>rs out. run_tick opts out rs) (t1, sv1) outs)" by auto
    with False same tick tick1 show ?thesis by (intro exI [of _ "?out # outs"]) simp
  qed
qed simp

lemma srv_Stop_refines:
  assumes "srv_Stop m out (s, sv) = Some (s', sv')"
  shows "\<exists>out'. same_registry out out' \<and> Registration.Stop out' sv = sv'"
proof -
  from assms obtain s1 ok1 s2 ok2 ok3 where h: "sr_BeforeStop m s = Some (s1, ok1)" "sr_Stop m s1 = Some (s2, ok2)"
    "sr_AfterStop m s2 = Some (s', ok3)"
    by (fastforce simp: srv_Stop_def Let_def bind_eq_Some_conv case_prod_beta)
  let ?out = "out\<lparr>o_BeforeStop := ok1, o_Stop := ok2, o_AfterStop := ok3\<rparr>"
  have "deregister ?out = deregister out" by (intro ext) (simp add: deregister_def)
  with assms h have "Registration.Stop ?out sv = sv'"
    by (simp add: srv_Stop_def Registration.Stop_def Let_def case_prod_beta)
  then show ?thesis by (intro exI [of _ ?out]) (simp add: same_registry_def)
qed

lemma srv_Run_refines:
  assumes "srv_Run m opts out ticks fin (s, sv) = Some ((s', sv'), err)"
  shows "\<exists>out' outs fin'. same_registry out out' \<and> list_all2 same_registry (map snd ticks) outs \<and> same_registry fin fin'
    \<and> Registration.Run opts out' outs fin' sv = (sv', err)"
proof -
  from assms obtain s1 sv1 err1 where start: "srv_Start m out (s, sv) = Some ((s1, sv1), err1)"
    by (auto simp: srv_Run_def bind_eq_Some_conv)
  from srv_Start_refines [OF this] obtain out' where out': "same_registry out out'" "Registration.Start out' sv = (sv1, err1)" by blast
  show ?thesis
  proof (cases err1)
    case (Some e)
    with assms start out' show ?thesis
      by (intro exI [of _ out'] exI [of _ "map snd ticks"] exI [of _ fin])
        (auto simp: srv_Run_def Registration.Run_def list_all2_same)
  next
    case None
    with assms start obtain s2 sv2 where run: "srv_run m opts ticks 0 (s1, sv1) = Some (s2, sv2)"
      "srv_Stop m fin (s2, sv2) = Some (s', sv')" "err = None"
      by (auto simp: srv_Run_def bind_eq_Some_conv)
    from srv_run_refines [OF run(1)] obtain outs where "list_all2 same_registry (map snd ticks) outs" "sv2 = Registration.run opts outs sv1"
      by (auto simp: Registration.run_def)
    moreover from srv_Stop_refines [OF run(2)] obtain fin' where "same_registry fin fin'" "Registration.Stop fin' sv2 = sv'" by blast
    moreover from this have "Registration.Run opts out' outs fin' sv = (sv', err)"
      using out'(2) None run(3) \<open>sv2 = _\<close> by (simp add: Registration.Run_def)
    ultimately show ?thesis using out'(1) by blast
  qed
qed

section \<open>The contract\<close>

text \<open>What the server does between ticks, one piece after the other.\<close>

fun work_all :: "('s \<Rightarrow> 's option) list \<Rightarrow> 's \<Rightarrow> 's option" where
  "work_all [] s = Some s"
| "work_all (f # fs) s = do { s1 \<leftarrow> f s; work_all fs s1 }"

text \<open>
  What a service relies on. \<open>live\<close> are the states of a server that has not been stopped, and \<open>works\<close> what its
  goroutines can do. A live server can be started and stopped, without an error; the hooks around do
  nothing.
\<close>

locale server_module =
  fixes m :: "'s Server"
    and live :: "'s \<Rightarrow> bool"
    and works :: "('s \<Rightarrow> 's option) set"
  assumes before: "live s \<Longrightarrow> sr_BeforeStart m s = Some (s, True)" "live s \<Longrightarrow> sr_BeforeStop m s = Some (s, True)"
    and after: "live s \<Longrightarrow> sr_AfterStart m s = Some (s, True)" "sr_AfterStop m s = Some (s, True)"
    and starts: "live s \<Longrightarrow> \<exists>s'. sr_Start m s = Some (s', True) \<and> live s'"
    and working: "live s \<Longrightarrow> f \<in> works \<Longrightarrow> f s = Some s' \<Longrightarrow> live s'"
    and stops: "live s \<Longrightarrow> \<exists>s'. sr_Stop m s = Some (s', True) \<and> \<not> live s'"
begin

lemma work_live: "live s \<Longrightarrow> set fs \<subseteq> works \<Longrightarrow> work_all fs s = Some s' \<Longrightarrow> live s'"
  by (induction fs arbitrary: s) (auto simp: bind_eq_Some_conv dest: working)

lemma run_works:
  "map_option fst (srv_run m opts ticks t (s, sv)) = work_all (map fst ticks) s"
proof (induction ticks arbitrary: t s sv)
  case (Cons tick ticks)
  obtain f out where "tick = (f, out)" by (cases tick)
  then show ?case by (cases "f s") (simp_all add: Cons.IH case_prod_beta)
qed simp

lemma Stop_live:
  assumes "live s"
  shows "\<exists>s' sv'. sr_Stop m s = Some (s', True) \<and> \<not> live s' \<and> srv_Stop m fin (s, sv) = Some (s', sv')"
  using stops [OF assms] before(2) [OF assms] after(2) by (auto simp: srv_Stop_def Let_def case_prod_beta)

text \<open>
  A service over such a server: it ends without an error and the server is stopped, or it could not
  register, and the server is left as it was started.
\<close>

lemma Run_completes:
  assumes "live s" and "set (map fst ticks) \<subseteq> works" and "sr_Start m s = Some (s1, True)"
    and "work_all (map fst ticks) s1 = Some s2"
    and "register (out\<lparr>o_count := sr_Count m s1\<rparr>) (act StartServer (act BeforeStart sv)) = (sv1, err)"
  shows "case err of
      None \<Rightarrow> \<exists>s' sv'. srv_Run m opts out ticks fin (s, sv) = Some ((s', sv'), None) \<and> sr_Stop m s2 = Some (s', True)
    | Some e \<Rightarrow> srv_Run m opts out ticks fin (s, sv) = Some ((s1, sv1), Some e)"
proof -
  have s1: "live s1" using starts [OF assms(1)] assms(3) by auto
  show ?thesis
  proof (cases err)
    case (Some e)
    with assms show ?thesis
      by (simp add: srv_Run_def srv_Start_def srv_register_def before [OF assms(1)] Let_def)
  next
    case None
    have s2: "live s2" by (rule work_live [OF s1 assms(2,4)])
    obtain sv2 where run: "srv_run m opts ticks 0 (s1, act AfterStart sv1) = Some (s2, sv2)"
      using run_works [of opts ticks 0 s1 "act AfterStart sv1"] assms(4) by auto
    obtain s' sv' where stop: "sr_Stop m s2 = Some (s', True)" "srv_Stop m fin (s2, sv2) = Some (s', sv')"
      using Stop_live [OF s2] by blast
    have "srv_Start m out (s, sv) = Some ((s1, act AfterStart sv1), None)"
      using assms(3,5) None by (simp add: srv_Start_def srv_register_def before [OF assms(1)] after(1) [OF s1] Let_def)
    with run stop None show ?thesis by (simp add: srv_Run_def)
  qed
qed

end

section \<open>The server of an application\<close>

text \<open>The server with its processor, and the number of callback loops that \<open>Start\<close> has left running.\<close>

record 'c AppModule =
  am_server :: AppServer
  am_process :: "'c Processor"
  am_loops :: nat

definition AppServer_hook :: "'s \<Rightarrow> ('s \<times> bool) option" where
  "AppServer_hook s = Some (s, True)"

definition AppServer_Start :: "'c AppModule \<Rightarrow> ('c AppModule \<times> bool) option" where
  "AppServer_Start s = Some (s\<lparr>am_loops := am_loops s + 1\<rparr>, True)"

definition app_module :: "'c AppModule Server" where
  "app_module = \<lparr>sr_BeforeStart = AppServer_hook, sr_Start = AppServer_Start, sr_BeforeStop = AppServer_hook,
     sr_AfterStart = AppServer_hook,
     sr_Stop = (\<lambda>s. map_option (\<lambda>sv. (s\<lparr>am_server := sv\<rparr>, True)) (AppServer_Stop (am_server s))),
     sr_AfterStop = AppServer_hook, sr_Count = (\<lambda>s. AppServer_Count (am_server s))\<rparr>"

definition app_live :: "'c AppModule \<Rightarrow> bool" where
  "app_live s \<longleftrightarrow> \<not> as_exitCB_closed (am_server s) \<and> \<not> as_proxyCtl_closed (am_server s)"

text \<open>The callback loop handles what arrives; until \<open>Start\<close> there is none.\<close>

definition app_work :: "'c \<Rightarrow> i64 \<Rightarrow> callback list \<Rightarrow> 'c AppModule \<Rightarrow> 'c AppModule option" where
  "app_work ctl dur cbs s = (if am_loops s = 0 then Some s
     else map_option (\<lambda>(sv, p). s\<lparr>am_server := sv, am_process := p\<rparr>) (AppServer_run ctl dur cbs (am_server s, am_process s)))"

lemma AppServer_run_open:
  assumes "AppServer_run ctl dur cbs (s, p) = Some (s', p')"
  shows "as_exitCB_closed s' = as_exitCB_closed s" "as_proxyCtl_closed s' = as_proxyCtl_closed s"
proof -
  have "as_exitCB_closed s' = as_exitCB_closed s \<and> as_proxyCtl_closed s' = as_proxyCtl_closed s"
    using assms
  proof (induction cbs arbitrary: s p)
    case (Cons cb cbs)
    then obtain s1 p1 where s1: "AppServer_turn ctl dur cb (s, p) = Some (s1, p1)" "AppServer_run ctl dur cbs (s1, p1) = Some (s', p')"
      by (auto simp: bind_eq_Some_conv)
    then have "as_exitCB_closed s1 = as_exitCB_closed s \<and> as_proxyCtl_closed s1 = as_proxyCtl_closed s"
      by (auto simp: AppServer_turn_def bind_eq_Some_conv split: if_splits callback.splits option.splits)
    with Cons.IH [OF s1(2)] show ?case by simp
  qed simp
  then show "as_exitCB_closed s' = as_exitCB_closed s" "as_proxyCtl_closed s' = as_proxyCtl_closed s" by simp_all
qed

lemmas app_module_defs = app_module_def AppServer_hook_def AppServer_Start_def app_live_def

lemma app_work_live:
  assumes "app_live s" and "app_work ctl dur cbs s = Some s'"
  shows "app_live s' \<and> am_loops s' = am_loops s"
proof (cases "am_loops s = 0")
  case False
  with assms(2) obtain sv p where "AppServer_run ctl dur cbs (am_server s, am_process s) = Some (sv, p)"
    "s' = s\<lparr>am_server := sv, am_process := p\<rparr>"
    by (auto simp: app_work_def)
  with assms(1) AppServer_run_open [OF this(1)] show ?thesis by (simp add: app_live_def)
qed (use assms in \<open>simp add: app_work_def\<close>)

interpretation app_server: server_module app_module app_live "{f. \<exists>ctl dur cbs. f = app_work ctl dur cbs}"
proof unfold_locales
  fix s s' :: "'a AppModule" and f
  assume "app_live s" "f \<in> {f. \<exists>ctl dur cbs. f = app_work ctl dur cbs}" "f s = Some s'"
  then show "app_live s'" by (auto dest: app_work_live)
qed (auto simp: app_module_defs AppServer_Stop_def)

section \<open>The server of a gate\<close>















section \<open>The life of a gate\<close>



lemma DelSession_sessions [simp]: "w_sessions (DelSession w uid) = w_sessions w"
  by (simp add: DelSession_def split: option.split)




lemma Run_deregisters:
  assumes "Registration.Run opts out outs fin s = (s', None)" and "o_client fin" and "o_delete fin"
  shows "sv_kv s' (st_Key (sv_Status s)) = None"
proof -
  obtain s1 where start: "Registration.Start out s = (s1, None)" and s': "s' = Registration.Stop fin (Registration.run opts outs s1)"
    using assms(1) by (cases "Registration.Start out s") (auto simp: Registration.Run_def split: if_splits)
  then have "st_Key (sv_Status s1) = st_Key (sv_Status s)"
    by (auto simp: Registration.Start_def Let_def split: if_splits prod.splits dest: register_fields)
  moreover have "st_Key (sv_Status (Registration.run opts outs s1)) = st_Key (sv_Status s1)"
    using run_entry(1) [of opts s1 outs] by (cases "0 < sint (opt_RegisterInterval opts)") (auto simp: same_entry_def Registration.run_def)
  ultimately show ?thesis using assms(2,3) unfolding s' by (simp add: Registration.Stop_def deregister_def Let_def)
qed

text \<open>What the first registration answers, and what it leaves in the registry.\<close>

lemma register_cases:
  obtains sv1 where "o_put out \<and> o_marshal out ((sv_Status sv)\<lparr>st_Count := n\<rparr>) \<noteq> None"
    "register (out\<lparr>o_count := n\<rparr>) (act StartServer (act BeforeStart sv)) = (sv1, None)"
  | sv1 e where "\<not> (o_put out \<and> o_marshal out ((sv_Status sv)\<lparr>st_Count := n\<rparr>) \<noteq> None)"
    "register (out\<lparr>o_count := n\<rparr>) (act StartServer (act BeforeStart sv)) = (sv1, Some e)"
    "e \<in> {MarshalErr, PutErr}" "sv_kv sv1 = sv_kv sv"
  by (cases "o_marshal out ((sv_Status sv)\<lparr>st_Count := n\<rparr>)"; cases "o_put out")
    (auto simp: register_def Let_def)



section \<open>The life of an application server\<close>

lemma app_work_all:
  assumes "am_loops s \<noteq> 0"
  shows "work_all (map (app_work ctl dur) cbss) s = map_option (\<lambda>(sv, p). s\<lparr>am_server := sv, am_process := p\<rparr>)
    (AppServer_run ctl dur (concat cbss) (am_server s, am_process s))"
  using assms
proof (induction cbss arbitrary: s)
  case (Cons cbs cbss)
  have append: "AppServer_run ctl dur (a @ b) sp = Option.bind (AppServer_run ctl dur a sp) (AppServer_run ctl dur b)" for a b sp
    by (induction a arbitrary: sp) (auto split: bind_splits)
  show ?case
  proof (cases "AppServer_run ctl dur cbs (am_server s, am_process s)")
    case None
    with Cons.prems show ?thesis by (simp add: app_work_def append)
  next
    case (Some sp)
    then obtain sv p where "AppServer_run ctl dur cbs (am_server s, am_process s) = Some (sv, p)" by (cases sp) auto
    moreover from this Cons.prems have "app_work ctl dur cbs s = Some (s\<lparr>am_server := sv, am_process := p\<rparr>)"
      by (simp add: app_work_def)
    ultimately show ?thesis using Cons by (simp add: append)
  qed
qed simp

text \<open>
  The same for the server of an application: it reports the load of the messages handled so far with every
  registration, ends with both control channels closed, and is left running when it cannot register.
\<close>

theorem app_service_life:
  assumes "AppServer_run ctl dur (concat (map fst evs)) (AppServer_New, p) = Some (s2, p2)"
    and "sv = NewService opts kv"
  shows "\<exists>m' sv' err. srv_Run app_module opts out (map (map_prod (app_work ctl dur) id) evs) fin
      (\<lparr>am_server = AppServer_New, am_process = p, am_loops = 0\<rparr>, sv) = Some ((m', sv'), err)
    \<and> (if o_put out \<and> o_marshal out ((sv_Status sv)\<lparr>st_Count := 0\<rparr>) \<noteq> None
       then err = None \<and> am_server m' = s2\<lparr>as_exitCB_closed := True, as_proxyCtl_closed := True\<rparr>
         \<and> (o_client fin \<and> o_delete fin \<longrightarrow> sv_kv sv' (st_Key (sv_Status sv)) = None)
       else err \<in> {Some MarshalErr, Some PutErr} \<and> sv_kv sv' = kv \<and> am_server m' = AppServer_New \<and> am_loops m' = 1)"
proof -
  let ?ticks = "map (map_prod (app_work ctl dur) id) evs" and ?s = "\<lparr>am_server = AppServer_New, am_process = p, am_loops = 0\<rparr>"
  let ?s1 = "?s\<lparr>am_loops := 1\<rparr>" and ?s2 = "\<lparr>am_server = s2, am_process = p2, am_loops = 1\<rparr>"
  have live: "app_live ?s" by (simp add: app_live_def AppServer_New_def)
  have start: "sr_Start app_module ?s = Some (?s1, True)" by (simp add: app_module_defs)
  have works: "set (map fst ?ticks) \<subseteq> {f. \<exists>ctl dur cbs. f = app_work ctl dur cbs}" by auto
  have fst: "map fst ?ticks = map (app_work ctl dur) (map fst evs)" by (simp add: comp_def)
  have all: "work_all (map fst ?ticks) ?s1 = Some ?s2"
    unfolding fst using app_work_all [of ?s1 ctl dur "map fst evs"] assms(1) by simp
  have cnt: "sr_Count app_module ?s1 = 0" by (simp add: app_module_def AppServer_Count_def AppServer_New_def)
  note run = app_server.Run_completes [where out = out and sv = sv, OF live works start all, unfolded cnt]
  have kv: "sv_kv sv = kv" by (simp add: assms(2) NewService_def Let_def)
  show ?thesis
  proof (cases rule: register_cases [where out = out and sv = sv and n = 0])
    case (1 sv1)
    from run [where fin = fin and opts = opts, OF 1(2)] obtain s' sv' where
      s': "srv_Run app_module opts out ?ticks fin (?s, sv) = Some ((s', sv'), None)" "sr_Stop app_module ?s2 = Some (s', True)"
      by auto
    then have "am_server s' = s2\<lparr>as_exitCB_closed := True, as_proxyCtl_closed := True\<rparr>"
      by (auto simp: app_module_def AppServer_Stop_def split: if_splits)
    moreover have "o_client fin \<and> o_delete fin \<longrightarrow> sv_kv sv' (st_Key (sv_Status sv)) = None"
    proof -
      obtain out' outs fin' where "same_registry fin fin'" "Registration.Run opts out' outs fin' sv = (sv', None)"
        using srv_Run_refines [OF s'(1)] by blast
      then show ?thesis using Run_deregisters by (auto simp: same_registry_def)
    qed
    ultimately show ?thesis using 1(1) s'(1) by simp
  next
    case (2 sv1 e)
    from run [where fin = fin and opts = opts, OF 2(2)] 2 kv show ?thesis by auto
  qed
qed

end
