(* ===== verification/Delivery.thy ===== *)
theory Delivery
  imports SessionSpec Connect
begin

text \<open>
  The last piece of the way: what a session hands to its connection arrives at the client. The interface
  \<open>Connect\<close> of \<open>module/module.go\<close> as a locale, interpreted on TCP and on WebSocket connections, and the
  messages of a session, which reach its client in order.
\<close>

section \<open>Connections\<close>

fun send_list :: "('c \<Rightarrow> string \<Rightarrow> ('c \<times> conn_error option) option) \<Rightarrow> 'c \<Rightarrow> string list \<Rightarrow> 'c option" where
  "send_list send c [] = Some c"
| "send_list send c (d # ds) = do { (c1, err) \<leftarrow> send c d; if err = None then send_list send c1 ds else None }"

fun receive_list :: "('c \<Rightarrow> ('c \<times> (conn_error + Msg option)) option) \<Rightarrow> 'c \<Rightarrow> nat \<Rightarrow> ('c \<times> Msg list) option" where
  "receive_list receive c 0 = Some (c, [])"
| "receive_list receive c (Suc n) = do {
     (c1, r) \<leftarrow> receive c;
     (case r of
        Inr (Some msg) \<Rightarrow> do { (c2, msgs) \<leftarrow> receive_list receive c1 n; Some (c2, msg # msgs) }
      | _ \<Rightarrow> None)
   }"

text \<open>
  What a session relies on: a closed connection stays closed and answers with an error. Of two
  \<open>peers\<close>, what one sends as long as it is ready (\<open>tx\<close>) and the payloads fit, the other
  receives, decoded, while it is ready (\<open>rx\<close>); \<open>written\<close> and \<open>arriving\<close> are the two ends of the line, in
  the unit of the transport.
\<close>

locale connection =
  fixes send :: "'c \<Rightarrow> string \<Rightarrow> ('c \<times> conn_error option) option"
    and receive :: "'c \<Rightarrow> ('c \<times> (conn_error + Msg option)) option"
    and close :: "'c \<Rightarrow> 'c"
    and closed :: "'c \<Rightarrow> bool"
    and decode :: "string \<Rightarrow> string + Msg"
    and tx :: "'c \<Rightarrow> bool" and rx :: "'c \<Rightarrow> bool"
    and peers :: "'c \<Rightarrow> 'c \<Rightarrow> bool"
    and fits :: "'c \<Rightarrow> string \<Rightarrow> bool"
    and packet :: "'c \<Rightarrow> string \<Rightarrow> 'o list"
    and written :: "'c \<Rightarrow> 'o list" and arriving :: "'c \<Rightarrow> 'o list"
  assumes close_closed: "closed (close c)"
    and closed_send: "closed c \<Longrightarrow> send c d = Some (c, Some ConnClosed)"
    and closed_receive: "closed c \<Longrightarrow> receive c = Some (c, Inl ConnClosed)"
    and peers_same: "peers a b \<Longrightarrow> fits a d = fits b d \<and> packet a d = packet b d"
    and send_ok: "tx c \<Longrightarrow> fits c d \<Longrightarrow>
      \<exists>c'. send c d = Some (c', None) \<and> tx c' \<and> peers c c' \<and> written c' = written c @ packet c d"
    and receive_ok: "rx c \<Longrightarrow> fits c d \<Longrightarrow> arriving c = packet c d @ rest \<Longrightarrow>
      \<exists>c'. receive c = Some (c', case decode d of Inl err \<Rightarrow> Inl (UnmarshalErr err) | Inr msg \<Rightarrow> Inr (Some msg))
        \<and> rx c' \<and> peers c c' \<and> arriving c' = rest"
begin

lemma closed_forever: "send (close c) d = Some (close c, Some ConnClosed)" "receive (close c) = Some (close c, Inl ConnClosed)"
  using closed_send [OF close_closed] closed_receive [OF close_closed] by blast+

lemma sends:
  assumes "tx c" and "\<forall>d \<in> set ds. fits c d"
  shows "\<exists>c'. send_list send c ds = Some c' \<and> written c' = written c @ concat (map (packet c) ds)"
  using assms
proof (induction ds arbitrary: c)
  case (Cons d ds)
  from send_ok [OF Cons.prems(1), of d] Cons.prems(2) obtain c1 where
    c1: "send c d = Some (c1, None)" "tx c1" "peers c c1" "written c1 = written c @ packet c d" by auto
  have "\<forall>d \<in> set ds. fits c1 d" "map (packet c1) ds = map (packet c) ds"
    using Cons.prems(2) peers_same [OF c1(3)] by simp_all
  with Cons.IH [OF c1(2)] c1(1,4) show ?case by auto
qed simp

lemma receives:
  assumes "rx c" and "\<forall>d \<in> set ds. fits c d \<and> decode d = Inr (f d)" and "arriving c = concat (map (packet c) ds) @ rest"
  shows "\<exists>c'. receive_list receive c (length ds) = Some (c', map f ds) \<and> arriving c' = rest"
  using assms
proof (induction ds arbitrary: c)
  case (Cons d ds)
  from receive_ok [OF Cons.prems(1), of d "concat (map (packet c) ds) @ rest"] Cons.prems(2,3) obtain c1 where
    c1: "receive c = Some (c1, Inr (Some (f d)))" "rx c1" "peers c c1" "arriving c1 = concat (map (packet c) ds) @ rest" by auto
  have "\<forall>d \<in> set ds. fits c1 d \<and> decode d = Inr (f d)" "map (packet c1) ds = map (packet c) ds"
    using Cons.prems(2) peers_same [OF c1(3)] by simp_all
  with Cons.IH [OF c1(2)] c1(1,4) show ?case by auto
qed simp

text \<open>What one end sends arrives at the other, in order.\<close>

lemma delivers:
  assumes "tx a" and "rx b" and "peers a b" and "\<forall>d \<in> set ds. fits a d \<and> decode d = Inr (f d)"
    and "written a = []" and "\<And>a'. send_list send a ds = Some a' \<Longrightarrow> arriving b = written a' @ rest"
  shows "\<exists>a' b'. send_list send a ds = Some a' \<and> receive_list receive b (length ds) = Some (b', map f ds) \<and> arriving b' = rest"
proof -
  obtain a' where a': "send_list send a ds = Some a'" "written a' = concat (map (packet a) ds)"
    using sends [OF assms(1)] assms(4,5) by fastforce
  have same: "\<forall>d \<in> set ds. fits b d \<and> decode d = Inr (f d)" "map (packet b) ds = map (packet a) ds"
    using assms(4) peers_same [OF assms(3)] by simp_all
  have "arriving b = concat (map (packet b) ds) @ rest" using assms(6) [OF a'(1)] unfolding same(2) a'(2) .
  from receives [OF assms(2) same(1) this] a'(1) show ?thesis by blast
qed

end

section \<open>TCP\<close>


section \<open>WebSocket\<close>

text \<open>
  A WebSocket connection with the answers that the library will give to its reads. The library delivers the
  payloads that the other end has written, as long as they are within the read limit.
\<close>

definition ws_send :: "WsConnect \<times> ws_read list \<Rightarrow> string \<Rightarrow> ((WsConnect \<times> ws_read list) \<times> conn_error option) option" where
  "ws_send ci d = (let (c, ins) = ci; (c1, err) = ws_OnSend c d in Some ((c1, ins), err))"

definition ws_receive :: "(string \<Rightarrow> string + Msg) \<Rightarrow> i64 \<Rightarrow> WsConnect \<times> ws_read list
    \<Rightarrow> ((WsConnect \<times> ws_read list) \<times> (conn_error + Msg option)) option" where
  "ws_receive dec maxSize ci = (let (c, ins) = ci in
     if ws_isClose c then Some (ci, snd (ws_OnReceive dec maxSize c WsEOF))
     else (case ins of [] \<Rightarrow> None
       | a # rest \<Rightarrow> (let (c1, r) = ws_OnReceive dec maxSize c a in Some ((c1, rest), r))))"

definition ws_fits :: "i64 \<Rightarrow> string \<Rightarrow> bool" where
  "ws_fits maxSize d \<longleftrightarrow> 0 < length d \<and> int (length d) \<le> sint maxSize"

interpretation ws: connection ws_send "ws_receive dec maxSize" "\<lambda>(c, ins). (ws_OnClose c, ins)" "\<lambda>(c, ins). ws_isClose c" dec
    "\<lambda>(c, ins). \<not> ws_isClose c" "\<lambda>(c, ins). \<not> ws_isClose c" "\<lambda>_ _. True" "\<lambda>_. ws_fits maxSize" "\<lambda>_ d. [WsPayload d]"
    "\<lambda>(c, ins). map WsPayload (ws_sent c)" snd
  by unfold_locales
    (auto simp: ws_OnClose_def ws_send_def ws_OnSend_def ws_receive_def ws_OnReceive_def ws_fits_def Let_def split: sum.split)

section \<open>The messages of a session\<close>

text \<open>
  Events in which servers send messages to users, whichever they are, and the session \<open>r\<close> writes what is
  queued. A gate gets the messages of the servers from the handler of NATS, which calls \<open>Receive\<close>; the callback loop
  takes them from the channel of the stream. Registrations for broadcasts that a server sends are kept by the session.
\<close>

definition broadcast_reg :: "Msg \<Rightarrow> bool" where
  "broadcast_reg m \<longleftrightarrow> ID m = Msg_RegBroatCast \<or> ID m = Msg_DisregBroatCast"

definition delivering :: "sref \<Rightarrow> (Msg \<Rightarrow> string) \<Rightarrow> Gate \<times> gate_event \<Rightarrow> bool" where
  "delivering r enc ge \<longleftrightarrow> (\<forall>m. g_marshal (fst ge) m = Some (enc m))
     \<and> (snd ge = RunTurn r TakeOut \<or> (\<exists>m. snd ge = PublishedMsg m)
       \<or> (\<exists>m. snd ge = CallBackMsg m \<and> ID m \<noteq> Msg_BroatCast_Rst))"

definition messages_for :: "u64 \<Rightarrow> (Gate \<times> gate_event) list \<Rightarrow> Msg list" where
  "messages_for uid es = concat (map (\<lambda>(g, e). case e of
     PublishedMsg m \<Rightarrow> if UID m = uid \<and> \<not> broadcast_reg m then [m] else []
   | CallBackMsg m \<Rightarrow> if UID m = uid then [m] else [] | _ \<Rightarrow> []) es)"

text \<open>The session \<open>r\<close> is that of the user, and of no other one.\<close>

definition session_of :: "World \<Rightarrow> sref \<Rightarrow> u64 \<Rightarrow> bool" where
  "session_of w r uid \<longleftrightarrow> (\<exists>s. w_sessions w r = Some s \<and> live s uid) \<and> (\<forall>u. GetSession w u = Some r \<longleftrightarrow> u = uid)"

abbreviation line :: "Session \<Rightarrow> string list" where
  "line s \<equiv> ss_sent s @ ss_out s"

lemma SendMsg_other:
  assumes "SendMsg g w q m = Some (w', e)" and "q \<noteq> r"
  shows "w_sessions w' r = w_sessions w r" "w_mgr w' = w_mgr w"
  using assms by (auto simp: SendMsg_def bind_eq_Some_conv split: if_splits option.splits)

lemma deliver_send:
  assumes "SendMsg g w q m = Some (w', err)" and "GetSession w (UID m) = Some q" and "g_marshal g (m\<lparr>UID := uid\<rparr>) = Some data"
    and "session_of w r uid" and "w_sessions w r = Some s"
  shows "session_of w' r uid \<and> (\<exists>s'. w_sessions w' r = Some s' \<and> line s' = line s @ (if UID m = uid then [data] else []))"
proof -
  have s: "live s uid" and mgr: "\<And>u. GetSession w u = Some r \<longleftrightarrow> u = uid"
    using assms(4,5) by (auto simp: session_of_def)
  show ?thesis
  proof (cases "q = r")
    case True
    then have uid: "UID m = uid" using assms(2) mgr by auto
    have "w' = session_upd w r (s\<lparr>ss_out := ss_out s @ [data]\<rparr>)"
      using assms(1,3,5) s True by (auto simp: SendMsg_def live_def conn_down_def split: if_splits)
    with s mgr uid show ?thesis by (simp add: session_of_def live_def GetSession_def)
  next
    case False
    then have "UID m \<noteq> uid" using assms(2) mgr [of "UID m"] by auto
    with SendMsg_other [OF assms(1) False] assms(4,5) show ?thesis by (simp add: session_of_def GetSession_def)
  qed
qed

lemma session_of_absent: "session_of w r uid \<Longrightarrow> GetSession w u \<noteq> Some r \<Longrightarrow> u \<noteq> uid"
  by (auto simp: session_of_def)

lemma deliver_published:
  assumes "Receive g w m = Some (w', err)" and "g_marshal g (m\<lparr>UID := uid\<rparr>) = Some data"
    and "session_of w r uid" and "w_sessions w r = Some s"
  shows "session_of w' r uid \<and> (\<exists>s'. w_sessions w' r = Some s'
    \<and> line s' = line s @ (if UID m = uid \<and> \<not> broadcast_reg m then [data] else []))"
proof (cases "GetSession w (UID m)")
  case None
  with assms session_of_absent [OF assms(3)] show ?thesis by (auto simp: Receive_def)
next
  case (Some q)
  then have rpc: "RpcMsg g w q m = Some (w', err)" using assms(1) by (simp add: Receive_def)
  show ?thesis
  proof (cases "broadcast_reg m")
    case True
    with rpc obtain t where t: "w_sessions w q = Some t" "w' = session_upd w q (fst (setBroCastStatus t m))"
      by (auto simp: RpcMsg_def broadcast_reg_def bind_eq_Some_conv case_prod_beta Let_def)
    have "live (fst (setBroCastStatus t m)) u \<longleftrightarrow> live t u" for u
      by (simp add: live_def setBroCastStatus_def split: option.splits)
    with t assms(3,4) True show ?thesis by (auto simp: session_of_def GetSession_def)
  next
    case False
    with rpc have send: "SendMsg g w q m = Some (w', err)" by (auto simp: RpcMsg_def broadcast_reg_def bind_eq_Some_conv)
    from deliver_send [OF send Some assms(2-4)] False show ?thesis by simp
  qed
qed

lemma deliver_step:
  assumes "gate_step g w e = Some w'" and "delivering r enc (g, e)" and "session_of w r uid" and "w_sessions w r = Some s"
  shows "session_of w' r uid \<and> (\<exists>s'. w_sessions w' r = Some s'
    \<and> line s' = line s @ map (\<lambda>m. enc (m\<lparr>UID := uid\<rparr>)) (messages_for uid [(g, e)]))"
proof -
  have s: "live s uid" using assms(3,4) by (auto simp: session_of_def)
  have enc: "g_marshal g (m\<lparr>UID := uid\<rparr>) = Some (enc (m\<lparr>UID := uid\<rparr>))" for m
    using assms(2) by (simp add: delivering_def)
  consider "e = RunTurn r TakeOut" | m where "e = PublishedMsg m" | m where "e = CallBackMsg m" "ID m \<noteq> Msg_BroatCast_Rst"
    using assms(2) by (auto simp: delivering_def)
  then show ?thesis
  proof cases
    case 1
    then obtain data rest where "ss_out s = data # rest" "w' = session_upd w r (s\<lparr>ss_out := rest, ss_sent := ss_sent s @ [data]\<rparr>)"
      using assms(1,4) s by (auto simp: gate_step_def run_turn_def live_def conn_down_def split: list.splits)
    with s assms(3) show ?thesis unfolding 1 by (simp add: session_of_def live_def GetSession_def messages_for_def)
  next
    case (2 m)
    then obtain err where "Receive g w m = Some (w', err)" using assms(1) by (auto simp: gate_step_def)
    from deliver_published [OF this enc assms(3,4)] 2 show ?thesis by (auto simp: messages_for_def)
  next
    case (3 m)
    have turn: "callBack_turn g w m = Some w'" using assms(1) 3 by (simp add: gate_step_def)
    show ?thesis
    proof (cases "GetSession w (UID m)")
      case None
      with turn 3 assms(3,4) session_of_absent [OF assms(3)] show ?thesis by (auto simp: callBack_turn_def messages_for_def)
    next
      case (Some q)
      then obtain err where send: "SendMsg g w q m = Some (w', err)" using turn 3 by (auto simp: callBack_turn_def)
      from deliver_send [OF send Some enc assms(3,4)] 3 show ?thesis by (auto simp: messages_for_def)
    qed
  qed
qed

lemma deliver_run:
  assumes "gate_run w es = Some w'" and "\<forall>ge \<in> set es. delivering r enc ge" and "session_of w r uid" and "w_sessions w r = Some s"
  shows "\<exists>s'. w_sessions w' r = Some s' \<and> line s' = line s @ map (\<lambda>m. enc (m\<lparr>UID := uid\<rparr>)) (messages_for uid es)"
  using assms
proof (induction es arbitrary: w s)
  case (Cons ge es)
  obtain g e where ge: "ge = (g, e)" by (cases ge)
  with Cons.prems(1) obtain w1 where w1: "gate_step g w e = Some w1" "gate_run w1 es = Some w'" by (auto simp: bind_eq_Some_conv)
  from deliver_step [OF w1(1) _ Cons.prems(3,4)] Cons.prems(2) ge obtain s1 where
    s1: "session_of w1 r uid" "w_sessions w1 r = Some s1"
      "line s1 = line s @ map (\<lambda>m. enc (m\<lparr>UID := uid\<rparr>)) (messages_for uid [(g, e)])"
    by auto
  have "messages_for uid (ge # es) = messages_for uid [(g, e)] @ messages_for uid es" by (simp add: messages_for_def ge)
  with Cons.IH [OF w1(2) _ s1(1,2)] Cons.prems(2) s1(3) show ?case by auto
qed (simp add: messages_for_def)

text \<open>What the session has written so far is a prefix of what was sent to its user.\<close>

lemma sent_prefix:
  assumes "session_of w r uid" and "w_sessions w r = Some s" and "ss_sent s = []" and "ss_out s = []"
    and "\<forall>ge \<in> set es. delivering r enc ge" and "gate_run w es = Some w'"
    and "\<forall>m \<in> set (map (\<lambda>m. m\<lparr>UID := uid\<rparr>) (messages_for uid es)). ok (enc m) \<and> dec (enc m) = Inr m"
  obtains s' where "w_sessions w' r = Some s'" "ss_out s' = [] \<longrightarrow> length (ss_sent s') = length (messages_for uid es)"
    "\<forall>d \<in> set (ss_sent s'). ok d \<and> dec d = Inr (projr (dec d))"
    "map (\<lambda>d. projr (dec d)) (ss_sent s') = take (length (ss_sent s')) (map (\<lambda>m. m\<lparr>UID := uid\<rparr>) (messages_for uid es))"
proof -
  from deliver_run [OF assms(6,5,1,2)] obtain s' where s': "w_sessions w' r = Some s'"
    "line s' = map (\<lambda>m. enc (m\<lparr>UID := uid\<rparr>)) (messages_for uid es)"
    using assms(3,4) by auto
  let ?n = "length (ss_sent s')" and ?ms = "map (\<lambda>m. m\<lparr>UID := uid\<rparr>) (messages_for uid es)"
  have sent: "ss_sent s' = map enc (take ?n ?ms)"
    using arg_cong [OF s'(2), of "take ?n"] by (simp add: take_map comp_def)
  have ms: "\<forall>m \<in> set (take ?n ?ms). ok (enc m) \<and> dec (enc m) = Inr m"
    using assms(7) by (meson in_set_takeD)
  show thesis
  proof (rule that [OF s'(1)])
    show "ss_out s' = [] \<longrightarrow> ?n = length (messages_for uid es)"
      using arg_cong [OF s'(2), of length] by auto
    show "\<forall>d \<in> set (ss_sent s'). ok d \<and> dec d = Inr (projr (dec d))"
      unfolding arg_cong [OF sent, of set] using ms by auto
    show "map (\<lambda>d. projr (dec d)) (ss_sent s') = take ?n ?ms"
      unfolding arg_cong [OF sent, of "map (\<lambda>d. projr (dec d))"] using ms by (simp add: comp_def map_idI)
  qed
qed

section \<open>At the client\<close>



text \<open>The same over WebSocket, where the payloads have to be within the read limit.\<close>

theorem user_messages_reach_ws_client:
  assumes "session_of w r uid" and "w_sessions w r = Some s" and "ss_sent s = []" and "ss_out s = []"
    and "\<forall>ge \<in> set es. delivering r enc ge" and "gate_run w es = Some w'"
    and "\<not> ws_isClose a" and "ws_sent a = []" and "\<not> ws_isClose b"
    and "\<forall>m \<in> set (map (\<lambda>m. m\<lparr>UID := uid\<rparr>) (messages_for uid es)). ws_fits maxSize (enc m) \<and> dec (enc m) = Inr m"
  shows "\<exists>s' a' b'. w_sessions w' r = Some s' \<and> send_list ws_send (a, []) (ss_sent s') = Some a'
    \<and> (ss_out s' = [] \<longrightarrow> length (ss_sent s') = length (messages_for uid es))
    \<and> receive_list (ws_receive dec maxSize) (b, map WsPayload (ws_sent (fst a'))) (length (ss_sent s'))
        = Some (b', take (length (ss_sent s')) (map (\<lambda>m. m\<lparr>UID := uid\<rparr>) (messages_for uid es)))"
proof -
  from sent_prefix [OF assms(1-6,10)] obtain s' where s': "w_sessions w' r = Some s'"
    "ss_out s' = [] \<longrightarrow> length (ss_sent s') = length (messages_for uid es)"
    "\<forall>d \<in> set (ss_sent s'). ws_fits maxSize d \<and> dec d = Inr (projr (dec d))"
    "map (\<lambda>d. projr (dec d)) (ss_sent s') = take (length (ss_sent s')) (map (\<lambda>m. m\<lparr>UID := uid\<rparr>) (messages_for uid es))" .
  obtain c ins where a': "send_list ws_send (a, []) (ss_sent s') = Some (c, ins)"
    using ws.sends [of "(a, [])" "ss_sent s'" maxSize] assms(7) s'(3) by auto
  have "\<And>a'. send_list ws_send (a, []) (ss_sent s') = Some a' \<Longrightarrow> snd (b, map WsPayload (ws_sent c))
      = (case a' of (c, ins) \<Rightarrow> map WsPayload (ws_sent c)) @ []" using a' by simp
  from ws.delivers [where a = "(a, [])" and b = "(b, map WsPayload (ws_sent c))" and ds = "ss_sent s'" and dec = dec
      and f = "\<lambda>d. projr (dec d)" and rest = "[]" and maxSize = maxSize, OF _ _ _ s'(3) _ this] assms(7-9) s' a'
  show ?thesis by auto
qed

section \<open>From the client\<close>

















lemma once_fields [simp]:
  "ss_once (SetHeartBeatTime g s) = ss_once s" "ss_once (fst (setBroCastStatus s m)) = ss_once s"
  "ss_once (fst (timer_work s)) = ss_once s"
  by (simp_all add: SetHeartBeatTime_def setBroCastStatus_def timer_work_def split: option.splits)










end
