(* ===== verification/Cluster.thy ===== *)
theory Cluster
  imports App Placement
begin

text \<open>
  A cluster: one registry, servers that register and deregister, and dispatchers that read the
  registry, start to watch it, and hear of its events one by one, each at its own pace and in any interleaving.
  Wherever a dispatcher stands, the messages that it dispatches go to a server that was registered at the
  point of the registry's history that it has heard of.
\<close>

section \<open>The registry and its readers\<close>

definition under :: "string \<Rightarrow> string \<Rightarrow> bool" where
  "under root key \<longleftrightarrow> take (length root) key = root"

definition below :: "string \<Rightarrow> (string \<rightharpoonup> string) \<Rightarrow> string \<rightharpoonup> string" where
  "below root reg = (\<lambda>key. if under root key then reg key else None)"

definition registry_at :: "event list \<Rightarrow> nat \<Rightarrow> string \<rightharpoonup> string" where
  "registry_at log n = registry Map.empty (take n log)"

text \<open>
  A server with its dispatcher: the revision of its first read, the revision that it watches from once it
  does, and up to where it has heard the events.
\<close>

record ClusterNode =
  nd_opts :: Options
  nd_routes :: "(u32 \<times> string) list"
  nd_disp :: Dispatcher
  nd_read :: nat
  nd_watch :: "nat option"
  nd_seen :: nat

record Cluster =
  cl_log :: "event list"
  cl_nodes :: "nat \<rightharpoonup> ClusterNode"

abbreviation set_node :: "nat \<Rightarrow> ClusterNode \<Rightarrow> Cluster \<Rightarrow> Cluster" where
  "set_node i n c \<equiv> c\<lparr>cl_nodes := (cl_nodes c)(i \<mapsto> n)\<rparr>"

definition server_of :: "string \<Rightarrow> string \<Rightarrow> bool" where
  "server_of app key \<longleftrightarrow> (\<exists>so. key = server_key so \<and> plain_server so \<and> opt_AppName so = app \<and> 0 < opt_QMsgLen so)"

text \<open>
  The steps. A service of the application registers or renews its entry, or takes it out; others write
  elsewhere. A dispatcher starts: it gets the entries under its root; later its watcher asks again and watches
  from there; and then it hears of the events under its root.
\<close>

inductive cluster_step :: "string \<Rightarrow> Cluster \<Rightarrow> Cluster \<Rightarrow> bool" for app :: string where
  registers: "server_of app key \<Longrightarrow> cluster_step app c (c\<lparr>cl_log := cl_log c @ [PUT key st]\<rparr>)"
| deregisters: "registry_at (cl_log c) (length (cl_log c)) key \<noteq> None \<Longrightarrow> cluster_step app c (c\<lparr>cl_log := cl_log c @ [DELETE key]\<rparr>)"
| elsewhere: "\<not> under app key \<Longrightarrow> cluster_step app c (c\<lparr>cl_log := cl_log c @ [PUT key st]\<rparr>)"
| reads: "cl_nodes c i = None \<Longrightarrow> opt_AppName opts = app \<Longrightarrow> distinct (map fst kvs)
    \<Longrightarrow> map_of kvs = below app (registry_at (cl_log c) (length (cl_log c)))
    \<Longrightarrow> connectAll (with_routes routes (init opts)) kvs = Some d
    \<Longrightarrow> cluster_step app c (set_node i \<lparr>nd_opts = opts, nd_routes = routes, nd_disp = d, nd_read = length (cl_log c),
          nd_watch = None, nd_seen = 0\<rparr> c)"
| watches: "cl_nodes c i = Some n \<Longrightarrow> nd_watch n = None
    \<Longrightarrow> cluster_step app c (set_node i (n\<lparr>nd_watch := Some (length (cl_log c)), nd_seen := length (cl_log c)\<rparr>) c)"
| hears: "cl_nodes c i = Some n \<Longrightarrow> nd_watch n \<noteq> None \<Longrightarrow> nd_seen n < length (cl_log c)
    \<Longrightarrow> (if under app (ev_key (cl_log c ! nd_seen n)) then watch_event (nd_disp n) (cl_log c ! nd_seen n) else Some (nd_disp n)) = Some d
    \<Longrightarrow> cluster_step app c (set_node i (n\<lparr>nd_disp := d, nd_seen := Suc (nd_seen n)\<rparr>) c)"

definition no_cluster :: Cluster where
  "no_cluster = \<lparr>cl_log = [], cl_nodes = Map.empty\<rparr>"

section \<open>What holds of every cluster\<close>

definition log_ok :: "string \<Rightarrow> event list \<Rightarrow> bool" where
  "log_ok app log \<longleftrightarrow> (\<forall>n key. registry_at log n key \<noteq> None \<longrightarrow> under app key \<longrightarrow> server_of app key)"

definition node_ok :: "string \<Rightarrow> event list \<Rightarrow> ClusterNode \<Rightarrow> bool" where
  "node_ok app log n \<longleftrightarrow> opt_AppName (nd_opts n) = app \<and> nd_read n \<le> length log \<and> nd_seen n \<le> length log
     \<and> (\<exists>kvs evs. do { d1 \<leftarrow> connectAll (with_routes (nd_routes n) (init (nd_opts n))) kvs; watcher d1 evs } = Some (nd_disp n)
        \<and> distinct (map fst kvs) \<and> map_of kvs = below app (registry_at log (nd_read n))
        \<and> (case nd_watch n of None \<Rightarrow> evs = []
           | Some j \<Rightarrow> nd_read n \<le> j \<and> j \<le> nd_seen n \<and> evs = filter (\<lambda>ev. under app (ev_key ev)) (drop j (take (nd_seen n) log))))"

definition cluster_ok :: "string \<Rightarrow> Cluster \<Rightarrow> bool" where
  "cluster_ok app c \<longleftrightarrow> log_ok app (cl_log c) \<and> (\<forall>i n. cl_nodes c i = Some n \<longrightarrow> node_ok app (cl_log c) n)"

lemma registry_at_append:
  "registry_at (log @ [ev]) n = (if n \<le> length log then registry_at log n else registry (registry_at log (length log)) [ev])"
  by (auto simp: registry_at_def registry_append)

lemma log_ok_append:
  assumes "log_ok app log" and "case ev of PUT key st \<Rightarrow> under app key \<longrightarrow> server_of app key | DELETE key \<Rightarrow> True"
  shows "log_ok app (log @ [ev])"
  using assms by (auto simp: log_ok_def registry_at_append split: event.splits if_splits)

lemma node_ok_append:
  assumes "node_ok app log n"
  shows "node_ok app (log @ [ev]) n"
proof -
  have "nd_read n \<le> length log" "nd_seen n \<le> length log" using assms by (simp_all add: node_ok_def)
  then have "registry_at (log @ [ev]) (nd_read n) = registry_at log (nd_read n)" "take (nd_seen n) (log @ [ev]) = take (nd_seen n) log"
    by (simp_all add: registry_at_append)
  with assms show ?thesis by (cases "nd_watch n") (auto simp: node_ok_def simp del: take_append)
qed

lemma cluster_ok_append:
  assumes "cluster_ok app c" and "case ev of PUT key st \<Rightarrow> under app key \<longrightarrow> server_of app key | DELETE key \<Rightarrow> True"
  shows "cluster_ok app (c\<lparr>cl_log := cl_log c @ [ev]\<rparr>)"
  using assms log_ok_append node_ok_append by (simp add: cluster_ok_def)

lemma cluster_ok_node:
  "cluster_ok app c \<Longrightarrow> node_ok app (cl_log c) n \<Longrightarrow> cluster_ok app (set_node i n c)"
  by (simp add: cluster_ok_def)

lemma node_ok_watch:
  assumes "node_ok app log n" and "nd_watch n = None"
  shows "node_ok app log (n\<lparr>nd_watch := Some (length log), nd_seen := length log\<rparr>)"
  using assms by (auto simp: node_ok_def)

lemma take_drop_Suc:
  "j \<le> k \<Longrightarrow> k < length log \<Longrightarrow> drop j (take (Suc k) log) = drop j (take k log) @ [log ! k]"
  by (simp add: take_Suc_conv_app_nth)

lemma watcher_snoc: "watcher d (evs @ [ev]) = Option.bind (watcher d evs) (\<lambda>d1. watch_event d1 ev)"
proof -
  have "watcher d1 [ev] = watch_event d1 ev" for d1 by (cases "watch_event d1 ev") simp_all
  then show ?thesis unfolding watcher_append by presburger
qed

lemma node_ok_hear:
  assumes "node_ok app log n" and "nd_watch n = Some j" and "nd_seen n < length log"
    and "(if under app (ev_key (log ! nd_seen n)) then watch_event (nd_disp n) (log ! nd_seen n) else Some (nd_disp n)) = Some d"
  shows "node_ok app log (n\<lparr>nd_disp := d, nd_seen := Suc (nd_seen n)\<rparr>)"
proof -
  let ?ev = "log ! nd_seen n" and ?f = "filter (\<lambda>ev. under app (ev_key ev))"
  from assms(1,2) obtain kvs where n: "opt_AppName (nd_opts n) = app" "nd_read n \<le> length log" "nd_read n \<le> j" "j \<le> nd_seen n"
    "distinct (map fst kvs)" "map_of kvs = below app (registry_at log (nd_read n))"
    "do { d1 \<leftarrow> connectAll (with_routes (nd_routes n) (init (nd_opts n))) kvs; watcher d1 (?f (drop j (take (nd_seen n) log))) } = Some (nd_disp n)"
    by (auto simp: node_ok_def)
  have "?f (drop j (take (Suc (nd_seen n)) log)) = ?f (drop j (take (nd_seen n) log)) @ (if under app (ev_key ?ev) then [?ev] else [])"
    using take_drop_Suc [OF n(4) assms(3)] by simp
  moreover have "do { d1 \<leftarrow> connectAll (with_routes (nd_routes n) (init (nd_opts n))) kvs;
      watcher d1 (?f (drop j (take (nd_seen n) log)) @ (if under app (ev_key ?ev) then [?ev] else [])) } = Some d"
    using n(7) assms(4) by (auto simp: bind_eq_Some_conv watcher_snoc split: if_splits)
  ultimately have "do { d1 \<leftarrow> connectAll (with_routes (nd_routes n) (init (nd_opts n))) kvs;
      watcher d1 (?f (drop j (take (Suc (nd_seen n)) log))) } = Some d" by presburger
  with n(1-6) assms(2,3) show ?thesis by (auto simp: node_ok_def simp del: filter_append)
qed

lemma cluster_step_ok:
  assumes "cluster_step app c c'" and "cluster_ok app c"
  shows "cluster_ok app c'"
  using assms
proof (induction rule: cluster_step.induct)
  case (reads c i opts kvs routes d)
  then have "node_ok app (cl_log c) \<lparr>nd_opts = opts, nd_routes = routes, nd_disp = d, nd_read = length (cl_log c),
          nd_watch = None, nd_seen = 0\<rparr>"
    by (auto simp: node_ok_def bind_eq_Some_conv)
  with reads.prems show ?case by (rule cluster_ok_node)
next
  case (watches c i n)
  then show ?case by (intro cluster_ok_node node_ok_watch) (simp_all add: cluster_ok_def)
next
  case (hears c i n d)
  then obtain j where "nd_watch n = Some j" by blast
  with hears show ?case by (intro cluster_ok_node node_ok_hear) (simp_all add: cluster_ok_def)
qed (auto intro!: cluster_ok_append)

lemma cluster_reachable_ok:
  assumes "(cluster_step app)\<^sup>*\<^sup>* no_cluster c"
  shows "cluster_ok app c"
  using assms
proof (induction rule: rtranclp_induct)
  case base
  show ?case by (simp add: cluster_ok_def no_cluster_def log_ok_def registry_at_def)
next
  case (step c c')
  then show ?case using cluster_step_ok by blast
qed

section \<open>What a dispatcher knows\<close>

text \<open>Nothing was written between the first read of the dispatcher and the start of its watch.\<close>

definition gap_free :: "ClusterNode \<Rightarrow> bool" where
  "gap_free n \<longleftrightarrow> nd_watch n = Some (nd_read n)"

lemma below_registry:
  "registry (below root r) (filter (\<lambda>ev. under root (ev_key ev)) evs) = below root (registry r evs)"
proof (induction evs arbitrary: r)
  case (Cons ev evs)
  have upd: "registry (if under root k then (below root r)(k := v) else below root r) (filter (\<lambda>ev. under root (ev_key ev)) evs)
      = below root (registry (r(k := v)) evs)" for k v
  proof -
    have "(if under root k then (below root r)(k := v) else below root r) = below root (r(k := v))"
      by (auto simp: below_def fun_eq_iff)
    then show ?thesis by (simp only: Cons)
  qed
  show ?case
  proof (cases ev)
    case (PUT k st)
    with upd [of k "Some st"] show ?thesis by (cases "under root k") simp_all
  next
    case (DELETE k)
    with upd [of k None] show ?thesis by (cases "under root k") simp_all
  qed
qed simp

lemma node_knows:
  assumes "node_ok app log n" and "gap_free n"
  obtains kvs evs where
    "do { d1 \<leftarrow> connectAll (with_routes (nd_routes n) (init (nd_opts n))) kvs; watcher d1 evs } = Some (nd_disp n)"
    "registry Map.empty (map (\<lambda>(k, v). PUT k v) kvs @ evs) = below app (registry_at log (nd_seen n))"
    "opt_AppName (nd_opts n) = app"
proof -
  from assms obtain kvs where kvs: "nd_read n \<le> nd_seen n" "distinct (map fst kvs)"
    "map_of kvs = below app (registry_at log (nd_read n))" "opt_AppName (nd_opts n) = app" "nd_seen n \<le> length log"
    "do { d1 \<leftarrow> connectAll (with_routes (nd_routes n) (init (nd_opts n))) kvs;
       watcher d1 (filter (\<lambda>ev. under app (ev_key ev)) (drop (nd_read n) (take (nd_seen n) log))) } = Some (nd_disp n)"
    by (auto simp: node_ok_def gap_free_def)
  let ?evs = "drop (nd_read n) (take (nd_seen n) log)"
  have "registry (registry_at log (nd_read n)) ?evs = registry Map.empty (take (nd_read n) (take (nd_seen n) log) @ ?evs)"
    using kvs(1) by (simp only: registry_at_def registry_append take_take min_absorb1)
  then have reg: "registry (registry_at log (nd_read n)) ?evs = registry_at log (nd_seen n)"
    by (simp only: append_take_drop_id registry_at_def)
  have "registry Map.empty (map (\<lambda>(k, v). PUT k v) kvs @ filter (\<lambda>ev. under app (ev_key ev)) ?evs)
      = registry (map_of kvs) (filter (\<lambda>ev. under app (ev_key ev)) ?evs)"
    by (simp add: registry_append registry_kvs [OF kvs(2)])
  also have "\<dots> = below app (registry_at log (nd_seen n))" unfolding kvs(3) below_registry reg ..
  finally show thesis using that kvs(4,6) by blast
qed

lemma node_shows:
  assumes "node_ok app log n" and "gap_free n"
  shows "statuses (nd_disp n) = visible (init (nd_opts n)) (below app (registry_at log (nd_seen n)))"
  by (rule node_knows [OF assms]) (simp add: started_with_routes(3))

text \<open>
  C4. In every cluster that can come about, a dispatcher without a gap shows the registry as it was at the
  point that it has heard of, and a message that it dispatches is published on the subject of a server that
  was registered at that point: a server that is registered now when the dispatcher has heard of
  everything. The dispatchers hear of the registry at different times, and services come and go
  meanwhile.
\<close>

theorem cluster_dispatches_to_registered:
  assumes "(cluster_step app)\<^sup>*\<^sup>* no_cluster c" and "cl_nodes c i = Some n" and "gap_free n"
  shows "statuses (nd_disp n) = visible (init (nd_opts n)) (below app (registry_at (cl_log c) (nd_seen n)))
    \<and> (\<forall>msg call. Dispatch (nd_disp n) msg = Some (Inr call) \<longrightarrow>
        (\<exists>so. call = rpc_call.PublishMsg (nc_pubKey (nats_Init so)) msg \<and> opt_AppName so = app
          \<and> registry_at (cl_log c) (nd_seen n) (server_key so) \<noteq> None
          \<and> (nd_seen n = length (cl_log c) \<longrightarrow> registry Map.empty (cl_log c) (server_key so) \<noteq> None)))"
proof -
  have ok: "log_ok app (cl_log c)" "node_ok app (cl_log c) n"
    using cluster_reachable_ok [OF assms(1)] assms(2) by (auto simp: cluster_ok_def)
  obtain kvs evs where run: "do { d1 \<leftarrow> connectAll (with_routes (nd_routes n) (init (nd_opts n))) kvs; watcher d1 evs } = Some (nd_disp n)"
    and reg: "registry Map.empty (map (\<lambda>(k, v). PUT k v) kvs @ evs) = below app (registry_at (cl_log c) (nd_seen n))"
    and app: "opt_AppName (nd_opts n) = app"
    by (rule node_knows [OF ok(2) assms(3)])
  have keys: "\<exists>so. key = server_key so \<and> plain_server so \<and> opt_AppName so = opt_AppName (nd_opts n) \<and> 0 < opt_QMsgLen so"
    if "registry Map.empty (map (\<lambda>(k, v). PUT k v) kvs @ evs) key \<noteq> None" for key
    using that ok(1) unfolding reg app by (auto simp: below_def log_ok_def server_of_def split: if_splits)
  have "\<exists>so. call = rpc_call.PublishMsg (nc_pubKey (nats_Init so)) msg \<and> opt_AppName so = app
      \<and> registry_at (cl_log c) (nd_seen n) (server_key so) \<noteq> None
      \<and> (nd_seen n = length (cl_log c) \<longrightarrow> registry Map.empty (cl_log c) (server_key so) \<noteq> None)"
    if disp: "Dispatch (nd_disp n) msg = Some (Inr call)" for msg call
  proof -
    obtain so where so: "registry Map.empty (map (\<lambda>(k, v). PUT k v) kvs @ evs) (server_key so) \<noteq> None"
      "opt_AppName so = opt_AppName (nd_opts n)" "call = rpc_call.PublishMsg (nc_pubKey (nats_Init so)) msg"
      by (rule dispatched_published [OF run keys disp])
    from so(1) have "registry_at (cl_log c) (nd_seen n) (server_key so) \<noteq> None"
      unfolding reg by (auto simp: below_def split: if_splits)
    moreover from this have "nd_seen n = length (cl_log c) \<longrightarrow> registry Map.empty (cl_log c) (server_key so) \<noteq> None"
      by (auto simp: registry_at_def)
    ultimately show ?thesis using so(2,3) app by blast
  qed
  then show ?thesis using node_shows [OF ok(2) assms(3)] by blast
qed

theorem cluster_dispatches_to_registered_witness:
  "\<exists>c n so. (cluster_step ''app'')\<^sup>*\<^sup>* no_cluster c \<and> cl_nodes c 0 = Some n
    \<and> Dispatch (nd_disp n) game_msg = Some (Inr (rpc_call.PublishMsg (nc_pubKey (nats_Init so)) game_msg))
    \<and> registry Map.empty (cl_log c) (server_key so) \<noteq> None"
proof -
  let ?o = "example_opts ''game|1''" and ?r = "[(1001, ''game'')]" and ?ev = "PUT ''app/game/1'' ''up''"
  obtain d p where d: "do { d1 \<leftarrow> connectAll (with_routes ?r (init ?o)) []; watcher d1 [?ev] } = Some d"
    "Dispatch d game_msg = Some (Inr (rpc_call.PublishMsg (p_pubKey (p :: proxy)) game_msg))"
    by (rule example_routed)
  let ?d0 = "with_routes ?r (init ?o)"
  have d1: "watch_event ?d0 ?ev = Some d" using d(1) by (auto simp: bind_eq_Some_conv)
  let ?n1 = "\<lparr>nd_opts = ?o, nd_routes = ?r, nd_disp = ?d0, nd_read = 0, nd_watch = None, nd_seen = 0\<rparr>"
  let ?n2 = "?n1\<lparr>nd_watch := Some 0\<rparr>" and ?n3 = "?n1\<lparr>nd_watch := Some 0, nd_disp := d, nd_seen := 1\<rparr>"
  let ?c = "\<lambda>log n. \<lparr>cl_log = log, cl_nodes = [0 \<mapsto> n]\<rparr>"
  have "registry_at [] 0 = Map.empty" "below ''app'' Map.empty = Map.empty" by (simp_all add: registry_at_def below_def)
  then have 1: "cluster_step ''app'' no_cluster (?c [] ?n1)"
    using cluster_step.reads [of no_cluster 0 ?o "''app''" "[]" ?r ?d0] by (simp add: no_cluster_def example_opts_def)
  have 2: "cluster_step ''app'' (?c [] ?n1) (?c [] ?n2)"
    using cluster_step.watches [of "?c [] ?n1" 0 ?n1 "''app''"] by simp
  have "server_of ''app'' ''app/game/1''"
    unfolding server_of_def using game_server_plain by (intro exI [of _ game_server]) (simp add: game_server_def default_options_def)
  then have 3: "cluster_step ''app'' (?c [] ?n2) (?c [?ev] ?n2)"
    using cluster_step.registers [of "''app''" "''app/game/1''" "?c [] ?n2" "''up''"] by simp
  have 4: "cluster_step ''app'' (?c [?ev] ?n2) (?c [?ev] ?n3)"
    using cluster_step.hears [of "?c [?ev] ?n2" 0 ?n2 "''app''" d] d1 by (simp add: under_def)
  have run: "(cluster_step ''app'')\<^sup>*\<^sup>* no_cluster (?c [?ev] ?n3)"
    using 1 2 3 4 by (meson rtranclp.rtrancl_into_rtrancl rtranclp.rtrancl_refl)
  have n3: "cl_nodes (?c [?ev] ?n3) 0 = Some ?n3" "gap_free ?n3" "nd_seen ?n3 = length (cl_log (?c [?ev] ?n3))" "nd_disp ?n3 = d"
    by (simp_all add: gap_free_def)
  from cluster_dispatches_to_registered [OF run n3(1,2)] d(2) n3(3) show ?thesis
    unfolding n3(4) using run n3(1,4) by metis
qed

text \<open>A dispatcher that watches can always hear of everything that has been written, whatever happens otherwise.\<close>

lemma cluster_catches_up:
  assumes "cluster_ok app c" and "cl_nodes c i = Some n" and "nd_watch n \<noteq> None"
  shows "\<exists>n'. (cluster_step app)\<^sup>*\<^sup>* c (set_node i n' c) \<and> nd_seen n' = length (cl_log c)
    \<and> nd_read n' = nd_read n \<and> nd_watch n' = nd_watch n"
  using assms
proof (induction "length (cl_log c) - nd_seen n" arbitrary: c n)
  case 0
  then have "node_ok app (cl_log c) n" by (simp add: cluster_ok_def)
  with 0 have "nd_seen n = length (cl_log c)" by (simp add: node_ok_def)
  moreover have "set_node i n c = c" using 0 by (simp add: fun_upd_idem)
  then have "(cluster_step app)\<^sup>*\<^sup>* c (set_node i n c)" by (simp only: rtranclp.rtrancl_refl)
  ultimately show ?case by blast
next
  case (Suc k)
  let ?ev = "cl_log c ! nd_seen n"
  have "node_ok app (cl_log c) n" using Suc.prems by (simp add: cluster_ok_def)
  then obtain kvs evs where "do { d1 \<leftarrow> connectAll (with_routes (nd_routes n) (init (nd_opts n))) kvs; watcher d1 evs } = Some (nd_disp n)"
    by (auto simp: node_ok_def)
  from started_with_routes(1) [OF this] have "dispatcher_ok (nd_disp n)" .
  then obtain d where d: "(if under app (ev_key ?ev) then watch_event (nd_disp n) ?ev else Some (nd_disp n)) = Some d"
    using watch_event_ok [of "nd_disp n" ?ev] by (cases "under app (ev_key ?ev)") auto
  let ?n = "n\<lparr>nd_disp := d, nd_seen := Suc (nd_seen n)\<rparr>"
  have step: "cluster_step app c (set_node i ?n c)"
    using Suc.hyps(2) Suc.prems(2,3) d by (intro cluster_step.hears) simp_all
  have "k = length (cl_log (set_node i ?n c)) - nd_seen ?n" using Suc.hyps(2) by simp
  from Suc.hyps(1) [OF this cluster_step_ok [OF step Suc.prems(1)]] Suc.prems(3) obtain n' where
    "(cluster_step app)\<^sup>*\<^sup>* (set_node i ?n c) (set_node i n' (set_node i ?n c))" "nd_seen n' = length (cl_log c)"
    "nd_read n' = nd_read n" "nd_watch n' = nd_watch n"
    by auto
  with step show ?case by (intro exI [of _ n']) (simp add: converse_rtranclp_into_rtranclp)
qed

text \<open>Two dispatchers that have heard of everything know the same servers of every service that both follow.\<close>

theorem caught_up_dispatchers_agree:
  assumes "(cluster_step app)\<^sup>*\<^sup>* no_cluster c" and "cl_nodes c i = Some n" and "cl_nodes c j = Some n'"
    and "gap_free n" and "gap_free n'" and "nd_seen n = length (cl_log c)" and "nd_seen n' = length (cl_log c)"
    and "\<not> not_provided (init (nd_opts n)) (service_name key)" and "\<not> not_provided (init (nd_opts n')) (service_name key)"
  shows "statuses (nd_disp n) key = statuses (nd_disp n') key"
proof -
  have "node_ok app (cl_log c) n" "node_ok app (cl_log c) n'"
    using cluster_reachable_ok [OF assms(1)] assms(2,3) by (auto simp: cluster_ok_def)
  from node_shows [OF this(1) assms(4)] node_shows [OF this(2) assms(5)] show ?thesis
    using assms(6-9) by (simp add: visible_def)
qed

end
