(* ===== verification/Shutdown.thy ===== *)
theory Shutdown
  imports App
begin

text \<open>
  How a started application comes to its end: \<open>Run\<close> and \<open>OnDestroy\<close> of \<open>app/app.go\<close> with the service of
  \<open>service/service.go\<close>, as the goroutines that they are. \<open>App_Run\<close> of the theory \<open>App\<close> is one of their runs, in
  which each waits for the other; here they interleave, the service may panic, and \<open>Run\<close> may give up
  waiting.
\<close>

section \<open>State\<close>

text \<open>Where each goroutine stands.\<close>

datatype service_pc = SvStarting | SvServing | SvStopping | SvEnded | SvPanicked
datatype destroy_pc = NotDestroying | Exiting | AwaitService | StoppingRpc | StoppingDispatcher | ClosingEtcd | Destroyed
datatype run_pc = AwaitSignal | Selecting | RunDone | RunTimedOut

text \<open>
  \<open>sh_cancelled\<close> is whether the context is done, \<open>sh_renew\<close> whether the goroutine that renews the
  entry runs, \<open>sh_registeTime\<close> its counter, \<open>sh_ex\<close> whether the channel that ends it is closed, and \<open>sh_timeout\<close> the time that
  \<open>Run\<close> waits for. That \<open>serStoped\<close> is closed is a part of the application.
\<close>

record 'c Shutdown =
  sh_app :: "'c App"
  sh_sv :: sv_state
  sh_service :: service_pc
  sh_renew :: bool
  sh_registeTime :: int
  sh_ex :: bool
  sh_cancelled :: bool
  sh_destroy :: destroy_pc
  sh_run :: run_pc
  sh_timeout :: "i64 option"

definition rpc_closed :: "'c App \<Rightarrow> bool" where
  "rpc_closed a = (case Option.bind (ap_rpc a) rc_nats_client of None \<Rightarrow> False | Some nc \<Rightarrow> nc_closed nc)"

definition etcd_closed :: "'c App \<Rightarrow> bool" where
  "etcd_closed a = (case ap_etcd a of None \<Rightarrow> False | Some ec \<Rightarrow> ec_client ec = Some False)"

abbreviation set_app :: "('c App \<Rightarrow> 'c App) \<Rightarrow> 'c Shutdown \<Rightarrow> 'c Shutdown" where
  "set_app f s \<equiv> s\<lparr>sh_app := f (sh_app s)\<rparr>"

section \<open>Steps\<close>

text \<open>
  The beginning of \<open>Run\<close>: when the application has started it goes on (\<open>Inl\<close>), otherwise it returns an error or nil
  (\<open>Inr\<close>). From a panic it recovers, and returns nil.
\<close>

definition Run_begin :: "('c App \<Rightarrow> 'c App option) option \<Rightarrow> Host \<Rightarrow> event list \<Rightarrow> (string \<rightharpoonup> string) \<Rightarrow> 'c App
    \<Rightarrow> 'c Shutdown + app_error option" where
  "Run_begin registe h events kv a = (case OnInit registe h events a of
     None \<Rightarrow> Inr None
   | Some (a1, Some e) \<Rightarrow> Inr (Some e)
   | Some (a1, None) \<Rightarrow> Inl \<lparr>sh_app = a1, sh_sv = NewService (ap_opts a1) kv, sh_service = SvStarting, sh_renew = False,
       sh_registeTime = 0, sh_ex = False, sh_cancelled = False, sh_destroy = NotDestroying, sh_run = AwaitSignal,
       sh_timeout = None\<rparr>)"

text \<open>
  The goroutine of the service; \<open>None\<close> is a step that it cannot take. It closes \<open>serStoped\<close> when \<open>Run\<close> of
  the service returns, but not when it panics; what the panic leaves of the service is not said.
\<close>

datatype service_event = SvStarts Outside | SvLeaves | SvStops Outside | SvPanics sv_state

fun service_step :: "service_event \<Rightarrow> 'c Shutdown \<Rightarrow> 'c Shutdown option" where
  "service_step (SvStarts out) s =
     (if sh_service s \<noteq> SvStarting then None
      else let (sv, err) = Registration.Start out (sh_sv s); s1 = s\<lparr>sh_sv := sv\<rparr>
      in if err \<noteq> None then Some (set_app (ap_serStoped_update (\<lambda>_. True)) (s1\<lparr>sh_service := SvEnded\<rparr>))
         else Some (s1\<lparr>sh_service := SvServing, sh_renew := 0 < sint (opt_RegisterInterval (ap_opts (sh_app s)))\<rparr>))"
| "service_step SvLeaves s =
     (if sh_service s = SvServing \<and> sh_cancelled s then Some (s\<lparr>sh_ex := True, sh_service := SvStopping\<rparr>) else None)"
| "service_step (SvStops fin) s =
     (if sh_service s = SvStopping
      then Some (set_app (ap_serStoped_update (\<lambda>_. True)) (s\<lparr>sh_sv := Registration.Stop fin (sh_sv s), sh_service := SvEnded\<rparr>))
      else None)"
| "service_step (SvPanics sv) s =
     (if sh_service s \<in> {SvStarting, SvStopping} then Some (s\<lparr>sh_sv := sv, sh_service := SvPanicked\<rparr>) else None)"

text \<open>
  The goroutine that renews the entry. It chooses between a tick and the closed channel when both
  are there, and nobody waits for it. A closed etcd client puts nothing.
\<close>

datatype renew_event = Renews Outside | RenewEnds

fun renew_step :: "renew_event \<Rightarrow> 'c Shutdown \<Rightarrow> 'c Shutdown option" where
  "renew_step (Renews out) s =
     (if \<not> sh_renew s then None
      else let (t, sv) = run_tick (ap_opts (sh_app s)) (if etcd_closed (sh_app s) then out\<lparr>o_put := False\<rparr> else out)
                (sh_registeTime s, sh_sv s)
      in Some (s\<lparr>sh_registeTime := t, sh_sv := sv\<rparr>))"
| "renew_step RenewEnds s = (if sh_renew s \<and> sh_ex s then Some (s\<lparr>sh_renew := False\<rparr>) else None)"

text \<open>The next step of \<open>OnDestroy\<close>, which recovers from a panic; after it \<open>wait\<close> is closed.\<close>

fun destroy_step :: "'c Shutdown \<Rightarrow> 'c Shutdown option" where
  "destroy_step s = (case sh_destroy s of
     NotDestroying \<Rightarrow> None
   | Exiting \<Rightarrow> Some (s\<lparr>sh_cancelled := True, sh_destroy := AwaitService\<rparr>)
   | AwaitService \<Rightarrow> if ap_serStoped (sh_app s) then Some (s\<lparr>sh_destroy := StoppingRpc\<rparr>) else None
   | StoppingRpc \<Rightarrow> (case Option.bind (ap_rpc (sh_app s)) RPC_Stop of
       None \<Rightarrow> Some (s\<lparr>sh_destroy := Destroyed\<rparr>)
     | Some c \<Rightarrow> Some (set_app (\<lambda>a. app_act RpcStop (a\<lparr>ap_rpc := Some c\<rparr>)) (s\<lparr>sh_destroy := StoppingDispatcher\<rparr>)))
   | StoppingDispatcher \<Rightarrow> (case Dispatcher.Stop (ap_dispatcher (sh_app s)) of
       None \<Rightarrow> Some (s\<lparr>sh_destroy := Destroyed\<rparr>)
     | Some d \<Rightarrow> Some (set_app (\<lambda>a. app_act DispatcherStop (a\<lparr>ap_dispatcher := d\<rparr>)) (s\<lparr>sh_destroy := ClosingEtcd\<rparr>)))
   | ClosingEtcd \<Rightarrow> (case ap_etcd (sh_app s) of
       None \<Rightarrow> Some (s\<lparr>sh_destroy := Destroyed\<rparr>)
     | Some ec \<Rightarrow> if ec_client ec = None then Some (s\<lparr>sh_destroy := Destroyed\<rparr>)
         else Some (set_app (\<lambda>a. app_act EtcdClose (a\<lparr>ap_etcd := Some (ec\<lparr>ec_client := Some False\<rparr>)\<rparr>)) (s\<lparr>sh_destroy := Destroyed\<rparr>)))
   | Destroyed \<Rightarrow> None)"

text \<open>
  \<open>Run\<close> waits for a signal, then sets the timer and lets \<open>OnDestroy\<close> go, and returns when the timer fires or
  \<open>wait\<close> is closed.
\<close>

datatype run_event = Signal | TimerFires | Waited

fun run_step :: "run_event \<Rightarrow> 'c Shutdown \<Rightarrow> 'c Shutdown option" where
  "run_step Signal s =
     (if sh_run s = AwaitSignal
      then Some (s\<lparr>sh_timeout := Some (1000000000 * opt_ExitWaitTTL (ap_opts (sh_app s))), sh_destroy := Exiting, sh_run := Selecting\<rparr>)
      else None)"
| "run_step TimerFires s = (if sh_run s = Selecting then Some (s\<lparr>sh_run := RunTimedOut\<rparr>) else None)"
| "run_step Waited s = (if sh_run s = Selecting \<and> sh_destroy s = Destroyed then Some (s\<lparr>sh_run := RunDone\<rparr>) else None)"

datatype sh_event = Service service_event | Renew renew_event | Destroy | Main run_event

fun sh_step :: "sh_event \<Rightarrow> 'c Shutdown \<Rightarrow> 'c Shutdown option" where
  "sh_step (Service e) s = service_step e s"
| "sh_step (Renew e) s = renew_step e s"
| "sh_step Destroy s = destroy_step s"
| "sh_step (Main e) s = run_step e s"

fun sh_steps :: "sh_event list \<Rightarrow> 'c Shutdown \<Rightarrow> 'c Shutdown option" where
  "sh_steps [] s = Some s"
| "sh_steps (e # es) s = Option.bind (sh_step e s) (sh_steps es)"

lemma sh_steps_append [simp]: "sh_steps (es @ es') s = Option.bind (sh_steps es s) (sh_steps es')"
  by (induction es arbitrary: s) (simp_all split: bind_split)

section \<open>What holds at every moment\<close>

text \<open>What is over where the destroying goroutine stands.\<close>

fun cancels :: "destroy_pc \<Rightarrow> bool" where
  "cancels NotDestroying = False" | "cancels Exiting = False" | "cancels _ = True"

fun service_over :: "destroy_pc \<Rightarrow> bool" where
  "service_over NotDestroying = False" | "service_over Exiting = False" | "service_over AwaitService = False"
| "service_over _ = True"

fun rpc_over :: "destroy_pc \<Rightarrow> bool" where
  "rpc_over StoppingDispatcher = True" | "rpc_over ClosingEtcd = True" | "rpc_over Destroyed = True" | "rpc_over _ = False"

fun dispatcher_over :: "destroy_pc \<Rightarrow> bool" where
  "dispatcher_over ClosingEtcd = True" | "dispatcher_over Destroyed = True" | "dispatcher_over _ = False"

definition closed_so_far :: "destroy_pc \<Rightarrow> 'c App \<Rightarrow> bool" where
  "closed_so_far d a \<longleftrightarrow> (\<exists>c nc ec. ap_rpc a = Some c \<and> rc_nats_client c = Some nc \<and> ap_etcd a = Some ec \<and> ec_client ec \<noteq> None
     \<and> nc_closed nc = rpc_over d \<and> d_exit (ap_dispatcher a) = dispatcher_over d \<and> (ec_client ec = Some False) = (d = Destroyed))"

definition sh_ok :: "'c Shutdown \<Rightarrow> bool" where
  "sh_ok s \<longleftrightarrow> closed_so_far (sh_destroy s) (sh_app s)
     \<and> ap_serStoped (sh_app s) = (sh_service s = SvEnded)
     \<and> (service_over (sh_destroy s) \<longrightarrow> sh_service s = SvEnded)
     \<and> (sh_run s = AwaitSignal) = (sh_destroy s = NotDestroying)
     \<and> sh_cancelled s = cancels (sh_destroy s)
     \<and> (sh_run s = RunDone \<longrightarrow> sh_destroy s = Destroyed)"

lemma sh_okD:
  assumes "sh_ok s"
  shows "closed_so_far (sh_destroy s) (sh_app s)" "ap_serStoped (sh_app s) = (sh_service s = SvEnded)"
    "service_over (sh_destroy s) \<Longrightarrow> sh_service s = SvEnded" "(sh_run s = AwaitSignal) = (sh_destroy s = NotDestroying)"
    "sh_cancelled s = cancels (sh_destroy s)" "sh_run s = RunDone \<Longrightarrow> sh_destroy s = Destroyed"
  using assms by (simp_all add: sh_ok_def)

lemma closed_so_far_serStoped [simp]: "closed_so_far d (a\<lparr>ap_serStoped := b\<rparr>) = closed_so_far d a"
  by (simp add: closed_so_far_def)

lemma service_step_shape:
  assumes "service_step e s = Some s'"
  shows "sh_service s \<noteq> SvEnded \<and> sh_destroy s' = sh_destroy s \<and> sh_run s' = sh_run s \<and> sh_cancelled s' = sh_cancelled s
    \<and> (sh_service s' = SvEnded \<and> sh_app s' = (sh_app s)\<lparr>ap_serStoped := True\<rparr> \<or> sh_service s' \<noteq> SvEnded \<and> sh_app s' = sh_app s)"
proof (cases e)
  case (SvStarts out)
  obtain sv err where start: "Registration.Start out (sh_sv s) = (sv, err)" by force
  from assms SvStarts have "sh_service s = SvStarting" by (simp split: if_split_asm)
  with assms SvStarts start show ?thesis by (cases err) (simp_all add: eq_commute [of _ s'])
next
  case SvLeaves
  with assms have "s' = s\<lparr>sh_ex := True, sh_service := SvStopping\<rparr>" "sh_service s = SvServing" by (simp_all split: if_split_asm)
  then show ?thesis by simp
next
  case (SvStops fin)
  with assms have "s' = set_app (ap_serStoped_update (\<lambda>_. True)) (s\<lparr>sh_sv := Registration.Stop fin (sh_sv s), sh_service := SvEnded\<rparr>)"
    "sh_service s = SvStopping" by (simp_all split: if_split_asm)
  then show ?thesis by simp
next
  case (SvPanics sv)
  with assms have "s' = s\<lparr>sh_sv := sv, sh_service := SvPanicked\<rparr>" "sh_service s \<in> {SvStarting, SvStopping}"
    by (simp_all split: if_split_asm)
  then show ?thesis by auto
qed

lemma service_step_ok:
  assumes "service_step e s = Some s'" and "sh_ok s"
  shows "sh_ok s'"
proof -
  note shape = service_step_shape [OF assms(1)]
  with sh_okD(3) [OF assms(2)] have "\<not> service_over (sh_destroy s)" by blast
  with shape show ?thesis using sh_okD [OF assms(2)] unfolding sh_ok_def by auto
qed

lemma renew_step_app:
  assumes "renew_step e s = Some s'"
  shows "\<exists>b t sv. s' = s\<lparr>sh_renew := b, sh_registeTime := t, sh_sv := sv\<rparr>"
proof (cases e)
  case (Renews out)
  obtain t sv where "run_tick (ap_opts (sh_app s)) (if etcd_closed (sh_app s) then out\<lparr>o_put := False\<rparr> else out)
      (sh_registeTime s, sh_sv s) = (t, sv)" by force
  with assms Renews have "s' = s\<lparr>sh_renew := sh_renew s, sh_registeTime := t, sh_sv := sv\<rparr>"
    by (simp split: if_split_asm)
  then show ?thesis by blast
next
  case RenewEnds
  with assms have "s' = s\<lparr>sh_renew := False, sh_registeTime := sh_registeTime s, sh_sv := sh_sv s\<rparr>"
    by (simp split: if_split_asm)
  then show ?thesis by blast
qed

lemma renew_step_ok: "renew_step e s = Some s' \<Longrightarrow> sh_ok s \<Longrightarrow> sh_ok s'"
  by (drule renew_step_app) (auto simp: sh_ok_def)

lemma run_step_ok:
  assumes "run_step e s = Some s'" and "sh_ok s"
  shows "sh_ok s'"
proof (cases e)
  case Signal
  with assms have s': "s' = s\<lparr>sh_timeout := Some (1000000000 * opt_ExitWaitTTL (ap_opts (sh_app s))), sh_destroy := Exiting, sh_run := Selecting\<rparr>"
    and d: "sh_destroy s = NotDestroying" using sh_okD(4) [OF assms(2)] by (auto split: if_splits)
  have "closed_so_far Exiting (sh_app s)" using sh_okD(1) [OF assms(2)] by (simp add: d closed_so_far_def)
  with assms(2) show ?thesis by (simp add: s' sh_ok_def d)
qed (use assms in \<open>auto simp: sh_ok_def split: if_splits\<close>)

lemma destroy_step_ok:
  assumes "destroy_step s = Some s'" and "sh_ok s"
  shows "sh_ok s'"
proof -
  from sh_okD(1) [OF assms(2)] obtain c nc ec where c: "ap_rpc (sh_app s) = Some c" "rc_nats_client c = Some nc"
    "ap_etcd (sh_app s) = Some ec" "ec_client ec \<noteq> None" "nc_closed nc = rpc_over (sh_destroy s)"
    "d_exit (ap_dispatcher (sh_app s)) = dispatcher_over (sh_destroy s)" "(ec_client ec = Some False) = (sh_destroy s = Destroyed)"
    unfolding closed_so_far_def by blast
  have run: "sh_run s \<noteq> AwaitSignal" "sh_run s \<noteq> RunDone" if "sh_destroy s \<noteq> NotDestroying" "sh_destroy s \<noteq> Destroyed"
    using that sh_okD(4,6) [OF assms(2)] by auto
  show ?thesis
    using assms(1) c sh_okD(2,3,5) [OF assms(2)] run
    by (cases "sh_destroy s")
      (auto simp: sh_ok_def closed_so_far_def RPC_Stop_def Done_def Dispatcher.Stop_def split: if_split_asm)
qed

lemma sh_step_ok: "sh_step e s = Some s' \<Longrightarrow> sh_ok s \<Longrightarrow> sh_ok s'"
  by (cases e) (auto intro: service_step_ok renew_step_ok run_step_ok destroy_step_ok simp del: destroy_step.simps)

lemma sh_steps_ok: "sh_steps es s = Some s' \<Longrightarrow> sh_ok s \<Longrightarrow> sh_ok s'"
  by (induction es arbitrary: s) (auto simp: bind_eq_Some_conv intro: sh_step_ok)

lemma Run_begin_ok:
  assumes "Run_begin registe h events kv (make_app gate opts) = Inl s" and "registers registe"
  shows "sh_ok s"
proof -
  from assms(1) have init: "OnInit registe h events (make_app gate opts) = Some (sh_app s, None)"
    and s: "sh_service s = SvStarting" "\<not> sh_renew s" "\<not> sh_ex s" "\<not> sh_cancelled s" "sh_destroy s = NotDestroying" "sh_run s = AwaitSignal"
    by (auto simp: Run_begin_def split: option.splits prod.splits)
  from init assms(2) show ?thesis
  proof (cases rule: OnInit_cases)
    case (Started nc ec p r d)
    have "ec_client ec = Some True" using Started(5)
      by (auto simp: ETCD_Init_def Let_def split: sum.splits if_splits)
    moreover have "\<not> nc_closed nc" using Started(3)
      by (auto simp: NewNatsClient_def nats_Init_def Let_def split: if_splits)
    ultimately show ?thesis
      using s Dispatcher_Start_exit [OF Started(6)] by (auto simp: sh_ok_def closed_so_far_def Started(7))
  qed simp_all
qed

section \<open>The order\<close>

lemma sh_ok_closed:
  assumes "sh_ok s"
  shows "rpc_closed (sh_app s) = rpc_over (sh_destroy s)" "d_exit (ap_dispatcher (sh_app s)) = dispatcher_over (sh_destroy s)"
    "etcd_closed (sh_app s) = (sh_destroy s = Destroyed)"
  using sh_okD(1) [OF assms] by (auto simp: closed_so_far_def rpc_closed_def etcd_closed_def)

text \<open>
  C19. However the goroutines of an application interleave while it stops: the RPC client is closed only
  when the service has ended, the dispatcher stops only after it, the etcd client is closed last, and \<open>Run\<close>
  returns only when all are closed or its timer has fired. While the service does not end, or
  when it has panicked, nothing is closed, and only the timer can make \<open>Run\<close> return.
\<close>

theorem shutdown_in_order:
  assumes "Run_begin registe h events kv (make_app gate opts) = Inl s0" and "registers registe"
    and "sh_steps es s0 = Some s"
  shows "(rpc_closed (sh_app s) \<longrightarrow> sh_service s = SvEnded \<and> sh_run s \<noteq> AwaitSignal)
    \<and> (d_exit (ap_dispatcher (sh_app s)) \<longrightarrow> rpc_closed (sh_app s))
    \<and> (etcd_closed (sh_app s) \<longrightarrow> d_exit (ap_dispatcher (sh_app s)))
    \<and> (sh_run s = RunDone \<longrightarrow> etcd_closed (sh_app s))
    \<and> (sh_service s \<noteq> SvEnded \<longrightarrow> \<not> rpc_closed (sh_app s) \<and> sh_run s \<noteq> RunDone)"
proof -
  have ok: "sh_ok s" using sh_steps_ok [OF assms(3)] Run_begin_ok [OF assms(1,2)] by blast
  have "rpc_closed (sh_app s) = rpc_over (sh_destroy s)" "d_exit (ap_dispatcher (sh_app s)) = dispatcher_over (sh_destroy s)"
    "etcd_closed (sh_app s) = (sh_destroy s = Destroyed)"
    by (rule sh_ok_closed [OF ok])+
  with sh_okD(3,4,6) [OF ok] show ?thesis
    by (cases "sh_destroy s") auto
qed

text \<open>An application that can start.\<close>

lemma begun:
  obtains s0 where "Run_begin (Some (App_Register mid f)) started_host [] kv (make_app gate one_nats) = Inl s0"
    and "sh_run s0 = AwaitSignal" and "sh_service s0 = SvStarting" and "0 < sint (opt_RegisterInterval (ap_opts (sh_app s0)))"
proof -
  obtain a where a: "OnInit (Some (App_Register mid f)) started_host [] (make_app gate one_nats) = Some (a, None)"
    using started_app by blast
  from a registers_Register have "ap_opts a = app_opts started_host one_nats"
    by (cases rule: OnInit_cases) simp_all
  with a that show thesis by (simp add: Run_begin_def one_nats_def default_options_def)
qed

theorem shutdown_in_order_witness:
  "\<exists>s0 s. Run_begin (Some (App_Register 7 None)) started_host [] Map.empty (make_app False one_nats :: unit App) = Inl s0
    \<and> sh_steps [Main Signal, Main TimerFires] s0 = Some s \<and> sh_run s = RunTimedOut
    \<and> \<not> rpc_closed (sh_app s) \<and> \<not> d_exit (ap_dispatcher (sh_app s)) \<and> \<not> etcd_closed (sh_app s)"
proof -
  obtain s0 where s0: "Run_begin (Some (App_Register 7 None)) started_host [] Map.empty (make_app False one_nats :: unit App) = Inl s0"
    "sh_run s0 = AwaitSignal" "sh_service s0 = SvStarting" by (rule begun)
  then obtain s where s: "sh_steps [Main Signal, Main TimerFires] s0 = Some s" "sh_run s = RunTimedOut" "sh_service s = SvStarting" by simp
  from shutdown_in_order [OF s0(1) registers_Register s(1)] s0(1) s show ?thesis by auto
qed

text \<open>A service that has panicked stays so; \<open>serStoped\<close> is never closed.\<close>

lemma panicked_step: "sh_step e s = Some s' \<Longrightarrow> sh_service s = SvPanicked \<Longrightarrow> sh_service s' = SvPanicked"
proof (cases e)
  case (Service e1)
  then show "sh_step e s = Some s' \<Longrightarrow> sh_service s = SvPanicked \<Longrightarrow> sh_service s' = SvPanicked"
    by (cases e1) simp_all
next
  case (Renew e1)
  then show "sh_step e s = Some s' \<Longrightarrow> sh_service s = SvPanicked \<Longrightarrow> sh_service s' = SvPanicked"
    by (auto dest: renew_step_app)
next
  case Destroy
  then show "sh_step e s = Some s' \<Longrightarrow> sh_service s = SvPanicked \<Longrightarrow> sh_service s' = SvPanicked"
    by (cases "sh_destroy s") (auto split: if_split_asm option.split_asm)
next
  case (Main e1)
  then show "sh_step e s = Some s' \<Longrightarrow> sh_service s = SvPanicked \<Longrightarrow> sh_service s' = SvPanicked"
    by (cases e1) (auto split: if_split_asm)
qed

theorem panicked_service_is_never_over:
  assumes "Run_begin registe h events kv (make_app gate opts) = Inl s0" and "registers registe"
    and "sh_steps es s0 = Some s" and "sh_service s = SvPanicked" and "sh_steps es' s = Some s'"
  shows "sh_service s' = SvPanicked \<and> sh_run s' \<noteq> RunDone \<and> \<not> rpc_closed (sh_app s') \<and> \<not> etcd_closed (sh_app s')"
proof -
  have "sh_service s' = SvPanicked" using assms(5,4)
    by (induction es' arbitrary: s) (auto simp: bind_eq_Some_conv dest: panicked_step)
  moreover have ok: "sh_ok s'" by (rule sh_steps_ok [OF assms(5) sh_steps_ok [OF assms(3) Run_begin_ok [OF assms(1,2)]]])
  ultimately have "\<not> service_over (sh_destroy s')" using sh_okD(3) [OF ok] by auto
  then show ?thesis using \<open>sh_service s' = SvPanicked\<close> sh_ok_closed [OF ok] sh_okD(6) [OF ok]
    by (cases "sh_destroy s'") auto
qed

text \<open>
  The time that \<open>Run\<close> waits is \<open>ExitWaitTTL\<close> in seconds. A limit that is given as a duration, such as ten
  seconds in nanoseconds, overflows to a time in the past, at which the timer fires at once.
\<close>

theorem exit_wait_in_seconds:
  assumes "run_step Signal s = Some s'"
  shows "sh_timeout s' = Some (1000000000 * opt_ExitWaitTTL (ap_opts (sh_app s)))
    \<and> (0 \<le> sint (opt_ExitWaitTTL (ap_opts (sh_app s))) \<and> sint (opt_ExitWaitTTL (ap_opts (sh_app s))) \<le> 9223372036
        \<longrightarrow> map_option sint (sh_timeout s') = Some (1000000000 * sint (opt_ExitWaitTTL (ap_opts (sh_app s)))))
    \<and> (opt_ExitWaitTTL (ap_opts (sh_app s)) = 10000000000 \<longrightarrow> map_option sint (sh_timeout s') = Some (- 8446744073709551616))"
proof -
  let ?w = "opt_ExitWaitTTL (ap_opts (sh_app s)) :: i64"
  have s': "sh_timeout s' = Some (1000000000 * ?w)" using assms by (auto split: if_splits)
  have "sint (1000000000 * ?w) = 1000000000 * sint ?w" if "0 \<le> sint ?w" "sint ?w \<le> 9223372036"
  proof -
    have "sint (1000000000 * ?w) = signed_take_bit 63 (sint (1000000000 :: i64) * sint ?w)" by (simp add: sint_word_ariths)
    also have "\<dots> = signed_take_bit 63 (1000000000 * sint ?w)" by simp
    also have "\<dots> = 1000000000 * sint ?w" using that by (simp add: signed_take_bit_int_eq_self)
    finally show ?thesis .
  qed
  with s' show ?thesis by simp
qed

section \<open>Coming to an end\<close>

text \<open>How many steps are left to each goroutine, where those that renew the entry do not count.\<close>

fun service_left :: "service_pc \<Rightarrow> nat" where
  "service_left SvStarting = 3" | "service_left SvServing = 2" | "service_left SvStopping = 1"
| "service_left SvEnded = 0" | "service_left SvPanicked = 0"

fun destroy_left :: "destroy_pc \<Rightarrow> nat" where
  "destroy_left NotDestroying = 6" | "destroy_left Exiting = 5" | "destroy_left AwaitService = 4"
| "destroy_left StoppingRpc = 3" | "destroy_left StoppingDispatcher = 2" | "destroy_left ClosingEtcd = 1"
| "destroy_left Destroyed = 0"

fun run_left :: "run_pc \<Rightarrow> nat" where
  "run_left AwaitSignal = 2" | "run_left Selecting = 1" | "run_left RunDone = 0" | "run_left RunTimedOut = 0"

definition steps_left :: "'c Shutdown \<Rightarrow> nat" where
  "steps_left s = service_left (sh_service s) + destroy_left (sh_destroy s) + run_left (sh_run s)"

fun is_renew :: "sh_event \<Rightarrow> bool" where
  "is_renew (Renew e) = True" | "is_renew _ = False"

lemma service_step_left:
  assumes "service_step e s = Some s'"
  shows "steps_left s' < steps_left s"
proof (cases e)
  case (SvStarts out)
  obtain sv err where "Registration.Start out (sh_sv s) = (sv, err)" by force
  with assms SvStarts show ?thesis
    by (cases err) (auto simp: steps_left_def split: if_split_asm)
qed (use assms in \<open>auto simp: steps_left_def split: if_split_asm\<close>)

lemma destroy_step_left: "destroy_step s = Some s' \<Longrightarrow> steps_left s' < steps_left s"
  by (cases "sh_destroy s") (auto simp: steps_left_def split: if_split_asm option.split_asm)

lemma run_step_left: "run_step e s = Some s' \<Longrightarrow> sh_ok s \<Longrightarrow> steps_left s' < steps_left s"
  by (cases e) (auto simp: steps_left_def sh_ok_def split: if_split_asm)

lemma sh_step_left:
  assumes "sh_step e s = Some s'" and "sh_ok s"
  shows "steps_left s' + (if is_renew e then 0 else 1) \<le> steps_left s"
proof (cases e)
  case (Renew e1)
  with assms(1) have "renew_step e1 s = Some s'" by simp
  from renew_step_app [OF this] obtain b t sv where "s' = s\<lparr>sh_renew := b, sh_registeTime := t, sh_sv := sv\<rparr>" by blast
  with Renew show ?thesis by (simp add: steps_left_def)
next
  case (Service e1)
  with assms(1) service_step_left [of e1 s s'] show ?thesis by simp
next
  case Destroy
  with assms(1) destroy_step_left [of s s'] show ?thesis by (simp del: destroy_step.simps)
next
  case (Main e1)
  with assms run_step_left [of e1 s s'] show ?thesis by simp
qed

lemma sh_steps_left:
  "sh_steps es s = Some s' \<Longrightarrow> sh_ok s \<Longrightarrow> steps_left s' + length (filter (\<lambda>e. \<not> is_renew e) es) \<le> steps_left s"
proof (induction es arbitrary: s)
  case (Cons e es)
  then obtain s1 where s1: "sh_step e s = Some s1" "sh_steps es s1 = Some s'" by (auto simp: bind_eq_Some_conv)
  from Cons.IH [OF s1(2) sh_step_ok [OF s1(1) Cons.prems(2)]] sh_step_left [OF s1(1) Cons.prems(2)] show ?case
    by (auto split: if_splits)
qed simp

text \<open>The steps of the goroutines that work as they are meant to, with what the outside answers.\<close>

fun works_on :: "Outside \<Rightarrow> sh_event \<Rightarrow> bool" where
  "works_on out (Service (SvPanics sv)) = False"
| "works_on out (Main TimerFires) = False"
| "works_on out (Renew e) = False"
| "works_on out (Service (SvStarts o')) = (o' = out)"
| "works_on out (Service (SvStops o')) = (o' = out)"
| "works_on out _ = True"

text \<open>A step that a goroutine can take while \<open>Run\<close> has not returned.\<close>

definition next_step :: "Outside \<Rightarrow> 'c Shutdown \<Rightarrow> sh_event" where
  "next_step out s =
     (if sh_run s = AwaitSignal then Main Signal
      else if sh_destroy s = Destroyed then Main Waited
      else if sh_destroy s = AwaitService then (case sh_service s of
        SvStarting \<Rightarrow> Service (SvStarts out) | SvServing \<Rightarrow> Service SvLeaves | SvStopping \<Rightarrow> Service (SvStops out) | _ \<Rightarrow> Destroy)
      else Destroy)"

lemma service_step_run: "service_step e s = Some s' \<Longrightarrow> sh_run s' = sh_run s"
  by (cases e) (auto simp: Let_def split: if_split_asm prod.split_asm)

lemma destroy_step_run: "destroy_step s = Some s' \<Longrightarrow> sh_run s' = sh_run s \<and> sh_service s' = sh_service s"
  by (cases "sh_destroy s") (auto split: if_split_asm option.split_asm)

lemma next_step_works: "works_on out (next_step out s)"
  by (simp add: next_step_def split: service_pc.split)

lemma next_step_enabled:
  assumes "sh_ok s" and "sh_run s \<notin> {RunDone, RunTimedOut}" and "sh_service s \<noteq> SvPanicked"
  shows "\<exists>s'. sh_step (next_step out s) s = Some s'"
proof (cases "sh_destroy s")
  case NotDestroying
  with sh_okD(4) [OF assms(1)] show ?thesis by (simp add: next_step_def)
next
  case AwaitService
  with sh_okD(2,4,5) [OF assms(1)] assms(3) show ?thesis
    by (cases "sh_service s") (simp_all add: next_step_def Let_def split: prod.split)
next
  case Destroyed
  with sh_okD(4) [OF assms(1)] assms(2) show ?thesis by (cases "sh_run s") (simp_all add: next_step_def)
qed (use sh_okD(4) [OF assms(1)] in \<open>simp_all add: next_step_def split: option.split\<close>)

lemma works_on_stays:
  assumes "sh_step e s = Some s'" and "works_on out e" and "sh_service s \<noteq> SvPanicked" and "sh_run s \<noteq> RunTimedOut"
  shows "sh_service s' \<noteq> SvPanicked" "sh_run s' \<noteq> RunTimedOut"
proof -
  have "sh_service s' \<noteq> SvPanicked \<and> sh_run s' \<noteq> RunTimedOut"
  proof (cases e)
    case (Service e1)
    with assms service_step_run [of e1 s s'] show ?thesis
      by (cases e1) (auto simp: Let_def split: if_split_asm prod.split_asm)
  next
    case Destroy
    with assms destroy_step_run [of s s'] show ?thesis by (simp del: destroy_step.simps)
  next
    case (Main e1)
    with assms show ?thesis by (cases e1) (auto split: if_split_asm)
  qed (use assms in simp)
  then show "sh_service s' \<noteq> SvPanicked" "sh_run s' \<noteq> RunTimedOut" by simp_all
qed

lemma sh_can_finish:
  assumes "sh_ok s" and "sh_run s \<noteq> RunTimedOut" and "sh_service s \<noteq> SvPanicked"
  shows "\<exists>es s'. list_all (works_on out) es \<and> sh_steps es s = Some s' \<and> sh_run s' = RunDone"
  using assms
proof (induction "steps_left s" arbitrary: s rule: less_induct)
  case less
  show ?case
  proof (cases "sh_run s = RunDone")
    case True
    then show ?thesis by (intro exI [of _ "[]"]) simp
  next
    case False
    with next_step_enabled [OF less.prems(1) _ less.prems(3), of out] less.prems(2) obtain s1 where
      e: "sh_step (next_step out s) s = Some s1" by auto
    note works = next_step_works [of out s]
    note stays = works_on_stays [OF e works less.prems(3,2)]
    have "\<not> is_renew (next_step out s)" using works by (cases "next_step out s") auto
    with sh_step_left [OF e less.prems(1)] have "steps_left s1 < steps_left s" by simp
    from less.hyps [OF this sh_step_ok [OF e less.prems(1)] stays(2,1)] obtain es s' where
      "list_all (works_on out) es" "sh_steps es s1 = Some s'" "sh_run s' = RunDone" by blast
    with e works show ?thesis by (intro exI [of _ "next_step out s # es"] exI [of _ s']) simp
  qed
qed

text \<open>
  C20. An application comes to its end: whatever has happened, its goroutines can take at most 11
  steps besides those that renew the entry; and unless \<open>Run\<close> has given up or the service has panicked,
  they can go on by themselves until \<open>Run\<close> returns with everything closed, whatever the outside
  answers.
\<close>

theorem shutdown_completes:
  assumes "Run_begin registe h events kv (make_app gate opts) = Inl s0" and "registers registe"
    and "sh_steps es s0 = Some s"
  shows "length (filter (\<lambda>e. \<not> is_renew e) es) \<le> 11
    \<and> (sh_run s \<noteq> RunTimedOut \<and> sh_service s \<noteq> SvPanicked \<longrightarrow>
        (\<exists>es' s'. list_all (works_on out) es' \<and> sh_steps (es @ es') s0 = Some s' \<and> sh_run s' = RunDone
          \<and> rpc_closed (sh_app s') \<and> d_exit (ap_dispatcher (sh_app s')) \<and> etcd_closed (sh_app s')))"
proof -
  note ok0 = Run_begin_ok [OF assms(1,2)]
  note ok = sh_steps_ok [OF assms(3) ok0]
  have "steps_left s0 = 11" using assms(1)
    by (auto simp: Run_begin_def steps_left_def split: option.splits prod.splits)
  with sh_steps_left [OF assms(3) ok0] have "length (filter (\<lambda>e. \<not> is_renew e) es) \<le> 11" by simp
  moreover {
    assume "sh_run s \<noteq> RunTimedOut \<and> sh_service s \<noteq> SvPanicked"
    with sh_can_finish [OF ok, of out] obtain es' s' where es': "list_all (works_on out) es'" "sh_steps es' s = Some s'" "sh_run s' = RunDone"
      by blast
    from sh_steps_ok [OF es'(2) ok] es'(3) have "rpc_closed (sh_app s') \<and> d_exit (ap_dispatcher (sh_app s')) \<and> etcd_closed (sh_app s')"
      using sh_ok_closed [of s'] sh_okD(6) [of s'] by simp
    with es' assms(3) have "\<exists>es' s'. list_all (works_on out) es' \<and> sh_steps (es @ es') s0 = Some s' \<and> sh_run s' = RunDone
          \<and> rpc_closed (sh_app s') \<and> d_exit (ap_dispatcher (sh_app s')) \<and> etcd_closed (sh_app s')"
      by (intro exI [of _ es'] exI [of _ s']) simp
  }
  ultimately show ?thesis by blast
qed

theorem shutdown_completes_witness:
  "\<exists>s0 es' s'. Run_begin (Some (App_Register 7 None)) started_host [] Map.empty (make_app False one_nats :: unit App) = Inl s0
    \<and> sh_steps (Main Signal # es') s0 = Some s' \<and> sh_run s' = RunDone \<and> etcd_closed (sh_app s')"
proof -
  obtain s0 where s0: "Run_begin (Some (App_Register 7 None)) started_host [] Map.empty (make_app False one_nats :: unit App) = Inl s0"
    "sh_run s0 = AwaitSignal" "sh_service s0 = SvStarting" by (rule begun)
  then obtain s where s: "sh_steps [Main Signal] s0 = Some s" "sh_run s = Selecting" "sh_service s = SvStarting" by simp
  from shutdown_completes [OF s0(1) registers_Register s(1), of all_well] s(2,3) s0(1) show ?thesis by (auto simp del: sh_steps.simps)
qed

section \<open>Runs of the sequential model\<close>

text \<open>When the service has ended, the destroying goroutine does what \<open>OnDestroy\<close> does.\<close>

lemma destroys:
  assumes "sh_ok s" and "sh_destroy s = AwaitService" and "sh_service s = SvEnded" and "sh_run s = Selecting"
  obtains s' where "sh_steps [Destroy, Destroy, Destroy, Destroy, Main Waited] s = Some s'" and "sh_run s' = RunDone"
    and "sh_sv s' = sh_sv s" and "sh_renew s' = sh_renew s" and "OnDestroy (sh_app s) = Some (sh_app s')"
proof -
  from sh_okD(1) [OF assms(1)] obtain c nc ec where c: "ap_rpc (sh_app s) = Some c" "rc_nats_client c = Some nc"
    "ap_etcd (sh_app s) = Some ec" "ec_client ec \<noteq> None" "\<not> nc_closed nc" "\<not> d_exit (ap_dispatcher (sh_app s))"
    unfolding closed_so_far_def by (auto simp: assms(2))
  from sh_okD(2) [OF assms(1)] assms(3) have "ap_serStoped (sh_app s)" by simp
  with c assms(2,4) show thesis
    by (auto intro!: that simp: OnDestroy_def RPC_Stop_def Done_def Dispatcher.Stop_def Let_def)
qed

lemma OnDestroy_trace:
  assumes "OnDestroy a = Some a'" and "OnDestroy (a\<lparr>ap_trace := tr\<rparr>) = Some b"
  shows "b = a'\<lparr>ap_trace := ap_trace b\<rparr>"
proof -
  have "map_option (ap_trace_update (\<lambda>_. [])) (OnDestroy (a\<lparr>ap_trace := tr\<rparr>)) = map_option (ap_trace_update (\<lambda>_. [])) (OnDestroy a)"
    by (simp add: OnDestroy_def Let_def split: option.split)
  then have "b\<lparr>ap_trace := []\<rparr> = a'\<lparr>ap_trace := []\<rparr>" using assms by simp
  then have "(b\<lparr>ap_trace := []\<rparr>)\<lparr>ap_trace := ap_trace b\<rparr> = a'\<lparr>ap_trace := ap_trace b\<rparr>" by simp
  then show ?thesis by simp
qed

lemma renewals:
  assumes "sh_renew s" and "\<not> etcd_closed (sh_app s)"
    and "foldl (\<lambda>rs out. run_tick (ap_opts (sh_app s)) out rs) (sh_registeTime s, sh_sv s) ticks = (t, sv)"
  shows "sh_steps (map (\<lambda>out. Renew (Renews out)) ticks) s = Some (s\<lparr>sh_registeTime := t, sh_sv := sv\<rparr>)"
  using assms
proof (induction ticks arbitrary: s)
  case (Cons out ticks)
  obtain t1 sv1 where "run_tick (ap_opts (sh_app s)) out (sh_registeTime s, sh_sv s) = (t1, sv1)" by force
  with Cons.prems Cons.IH [of "s\<lparr>sh_registeTime := t1, sh_sv := sv1\<rparr>"] show ?case by simp
qed simp

text \<open>What \<open>App_Run\<close> of the theory \<open>App\<close> ends with is what a run of the goroutines ends with.\<close>

theorem App_Run_is_a_run:
  assumes "App_Run os registe h events out ticks fin kv (make_app gate opts) = Some (a, kv', None)" and "registers registe"
  shows "\<exists>s0 es s. Run_begin registe h events kv (make_app gate opts) = Inl s0 \<and> sh_steps es s0 = Some s
    \<and> sh_run s = RunDone \<and> sv_kv (sh_sv s) = kv' \<and> (\<exists>tr. a = (sh_app s)\<lparr>ap_trace := tr\<rparr>)"
proof -
  obtain a1 where a1: "OnInit registe h events (make_app gate opts) = Some (a1, None)"
    using assms(1) by (auto simp: App_Run_def bind_eq_Some_conv Let_def split: prod.splits if_splits)
  obtain s0 where s0: "Run_begin registe h events kv (make_app gate opts) = Inl s0" and app0: "sh_app s0 = a1"
    and "sh_sv s0 = NewService (ap_opts a1) kv" "sh_service s0 = SvStarting" "sh_registeTime s0 = 0" "sh_run s0 = AwaitSignal"
    by (simp add: Run_begin_def a1)
  note fields = this(2-)
  note ok0 = Run_begin_ok [OF s0 assms(2)]
  have d0: "sh_destroy s0 = NotDestroying" using sh_okD(4) [OF ok0] fields by simp
  have open0: "\<not> etcd_closed (sh_app s0)" using sh_ok_closed(3) [OF ok0] d0 by simp
  obtain sv1 err where start: "Registration.Start out (NewService (ap_opts a1) kv) = (sv1, err)" by force
  define sv where "sv = (if err = None then Registration.Stop fin (Registration.run (ap_opts a1) ticks sv1) else sv1)"
  have "\<exists>es s. sh_steps es s0 = Some s \<and> sh_sv s = sv \<and> sh_app s = a1\<lparr>ap_serStoped := True\<rparr> \<and> sh_service s = SvEnded
    \<and> sh_destroy s = AwaitService \<and> sh_run s = Selecting"
  proof (cases err)
    case (Some e)
    then show ?thesis
      using fields start d0 sv_def
      by (intro exI [of _ "[Service (SvStarts out), Main Signal, Destroy]"]) simp
  next
    case None
    define s1 where "s1 = s0\<lparr>sh_sv := sv1, sh_service := SvServing, sh_renew := 0 < sint (opt_RegisterInterval (ap_opts a1))\<rparr>"
    have s1: "sh_step (Service (SvStarts out)) s0 = Some s1" using fields start None by (simp add: s1_def)
    have "\<exists>es t. sh_steps es s1 = Some (s1\<lparr>sh_registeTime := t, sh_sv := Registration.run (ap_opts a1) ticks sv1\<rparr>)"
    proof (cases "0 < sint (opt_RegisterInterval (ap_opts a1))")
      case True
      obtain t sv2 where "foldl (\<lambda>rs out. run_tick (ap_opts a1) out rs) (0, sv1) ticks = (t, sv2)" by force
      with renewals [of s1 ticks t sv2] True open0 fields show ?thesis
        by (intro exI [of _ "map (\<lambda>out. Renew (Renews out)) ticks"] exI [of _ t]) (simp add: s1_def Registration.run_def)
    next
      case False
      then show ?thesis by (intro exI [of _ "[]"] exI [of _ "sh_registeTime s1"]) (simp add: s1_def Registration.run_def)
    qed
    then obtain es t where "sh_steps es s1 = Some (s1\<lparr>sh_registeTime := t, sh_sv := Registration.run (ap_opts a1) ticks sv1\<rparr>)"
      by blast
    then have pre: "sh_steps (Service (SvStarts out) # es) s0 = Some (s1\<lparr>sh_registeTime := t, sh_sv := Registration.run (ap_opts a1) ticks sv1\<rparr>)"
      unfolding sh_steps.simps s1 by simp
    have "\<exists>s. sh_steps [Main Signal, Destroy, Service SvLeaves, Service (SvStops fin)]
        (s1\<lparr>sh_registeTime := t, sh_sv := Registration.run (ap_opts a1) ticks sv1\<rparr>) = Some s
      \<and> sh_sv s = sv \<and> sh_app s = a1\<lparr>ap_serStoped := True\<rparr> \<and> sh_service s = SvEnded \<and> sh_destroy s = AwaitService \<and> sh_run s = Selecting"
      using None fields d0 by (simp add: s1_def sv_def)
    then show ?thesis using pre sh_steps_append by (metis bind.bind_lunit)
  qed
  then obtain es s where s: "sh_steps es s0 = Some s" "sh_sv s = sv" "sh_app s = a1\<lparr>ap_serStoped := True\<rparr>" "sh_service s = SvEnded"
    "sh_destroy s = AwaitService" "sh_run s = Selecting" by blast
  from destroys [OF sh_steps_ok [OF s(1) ok0] s(5,4,6)] obtain s' where s':
    "sh_steps [Destroy, Destroy, Destroy, Destroy, Main Waited] s = Some s'" "sh_run s' = RunDone" "sh_sv s' = sv"
    "OnDestroy (a1\<lparr>ap_serStoped := True\<rparr>) = Some (sh_app s')" using s(2,3) by metis
  have "Registration.Run (ap_opts a1) out ticks fin (NewService (ap_opts a1) kv) = (sv, err)"
    using start by (simp add: Registration.Run_def sv_def)
  with assms(1) a1 obtain tr where "OnDestroy (a1\<lparr>ap_trace := tr, ap_serStoped := True\<rparr>) = Some a" "kv' = sv_kv sv"
    by (auto simp: App_Run_def bind_eq_Some_conv Let_def)
  moreover have "OnDestroy (a1\<lparr>ap_trace := tr, ap_serStoped := True\<rparr>) = OnDestroy ((a1\<lparr>ap_serStoped := True\<rparr>)\<lparr>ap_trace := tr\<rparr>)" for tr
    by (cases a1) simp
  ultimately have "a = (sh_app s')\<lparr>ap_trace := ap_trace a\<rparr>" using OnDestroy_trace [OF s'(4)] by metis
  with s0 s(1) s' \<open>kv' = sv_kv sv\<close> show ?thesis
    by (intro exI [of _ s0] exI [of _ "es @ [Destroy, Destroy, Destroy, Destroy, Main Waited]"] exI [of _ s'])
      (auto simp del: sh_steps.simps)
qed

section \<open>An entry that stays\<close>

text \<open>Answers of the outside with which the service starts and puts its entry.\<close>

definition puts :: "Outside \<Rightarrow> bool" where
  "puts out \<longleftrightarrow> o_BeforeStart out \<and> o_Start out \<and> o_AfterStart out \<and> o_put out"

lemma puts_Start:
  assumes "puts out" and "\<And>st. o_marshal out st \<noteq> None"
  obtains sv where "Registration.Start out s = (sv, None)" and "st_Key (sv_Status sv) = st_Key (sv_Status s)"
proof -
  obtain sv err where reg: "register out (s\<lparr>sv_trace := sv_trace s @ [BeforeStart, StartServer]\<rparr>) = (sv, err)" by force
  note r = register_fields [OF reg]
  have "err = None" using assms r(4) by (simp add: puts_def)
  with that [of "act AfterStart sv"] assms(1) reg r(1) show thesis by (simp add: Registration.Start_def puts_def Let_def)
qed

lemma puts_tick:
  assumes "puts out" and "\<And>st. o_marshal out st \<noteq> None"
  obtains sv where "run_tick opts out (t, s) = (0, sv)" and "sv_kv sv (st_Key (sv_Status s)) \<noteq> None"
proof -
  obtain t' sv where tick: "run_tick opts out (t, s) = (t', sv)" by force
  obtain data where "o_marshal out ((sv_Status s)\<lparr>st_Count := o_count out\<rparr>) = Some data" using assms(2) by blast
  with run_tick_entry [OF tick] that [of sv] tick assms(1) show thesis by (simp add: put_entry_def puts_def)
qed

text \<open>
  C35. The goroutine that renews the entry is not waited for. A renewal that gets through after the
  service has deleted its entry puts it again; then \<open>Run\<close> returns with everything closed, and the
  entry of the stopped server stays in the registry.
\<close>

theorem late_renewal_leaves_entry:
  assumes "Run_begin registe h events kv (make_app gate opts) = Inl s0" and "registers registe"
    and "0 < sint (opt_RegisterInterval (ap_opts (sh_app s0)))" and "puts out" and "\<And>st. o_marshal out st \<noteq> None"
  shows "\<exists>es s. sh_steps (es @ [Service (SvStops out), Renew (Renews out), Renew RenewEnds]) s0 = Some s
    \<and> sh_service s = SvEnded \<and> \<not> sh_renew s
    \<and> sv_kv (sh_sv s) (opt_AppName opts @ ''/'' @ opt_ServerType opts @ ''/'' @ opt_ServerName opts) \<noteq> None
    \<and> (\<exists>s'. sh_steps [Destroy, Destroy, Destroy, Destroy, Main Waited] s = Some s' \<and> sh_run s' = RunDone
        \<and> etcd_closed (sh_app s') \<and> sh_sv s' = sh_sv s \<and> \<not> sh_renew s')"
proof -
  obtain a1 where a1: "OnInit registe h events (make_app gate opts) = Some (a1, None)" and s0: "sh_app s0 = a1"
    "sh_sv s0 = NewService (ap_opts a1) kv" "sh_service s0 = SvStarting" "sh_registeTime s0 = 0" "sh_run s0 = AwaitSignal"
    using assms(1) by (auto simp: Run_begin_def split: option.splits prod.splits)
  let ?key = "opt_AppName opts @ ''/'' @ opt_ServerType opts @ ''/'' @ opt_ServerName opts"
  have key: "st_Key (sv_Status (NewService (ap_opts a1) kv)) = ?key"
    using a1 assms(2) by (cases rule: OnInit_cases) (simp_all add: NewService_def Let_def)
  note ok0 = Run_begin_ok [OF assms(1,2)]
  have d0: "sh_destroy s0 = NotDestroying" using sh_okD(4) [OF ok0] s0 by simp
  have open0: "\<not> etcd_closed (sh_app s0)" using sh_ok_closed(3) [OF ok0] d0 by simp
  obtain sv where start: "Registration.Start out (NewService (ap_opts a1) kv) = (sv, None)" and k1: "st_Key (sv_Status sv) = ?key"
    using puts_Start [OF assms(4,5)] key by metis
  have k2: "st_Key (sv_Status (Registration.Stop out sv)) = ?key"
    using k1 by (simp add: Registration.Stop_def deregister_def Let_def)
  obtain sv' where tick: "run_tick (ap_opts a1) out (0, Registration.Stop out sv) = (0, sv')" "sv_kv sv' ?key \<noteq> None"
    using puts_tick [OF assms(4,5)] k2 by metis
  have open1: "\<not> etcd_closed (a1\<lparr>ap_serStoped := True\<rparr>)" using open0 s0(1) by (simp add: etcd_closed_def)
  obtain s where s: "sh_steps ([Service (SvStarts out), Main Signal, Destroy, Service SvLeaves]
      @ [Service (SvStops out), Renew (Renews out), Renew RenewEnds]) s0 = Some s"
    "sh_service s = SvEnded" "\<not> sh_renew s" "sh_sv s = sv'" "sh_destroy s = AwaitService" "sh_run s = Selecting"
    using s0 d0 start tick(1) open1 assms(3) by simp
  from destroys [OF sh_steps_ok [OF s(1) ok0] s(5,2,6)] obtain s' where s':
    "sh_steps [Destroy, Destroy, Destroy, Destroy, Main Waited] s = Some s'" "sh_run s' = RunDone" "sh_sv s' = sh_sv s"
    "sh_renew s' = sh_renew s" by metis
  have "sh_ok s'" using sh_steps_ok [OF s'(1) sh_steps_ok [OF s(1) ok0]] .
  then have "etcd_closed (sh_app s')" using sh_ok_closed(3) sh_okD(6) s'(2) by blast
  with s s' tick(2) show ?thesis by (intro exI [of _ "[Service (SvStarts out), Main Signal, Destroy, Service SvLeaves]"]) auto
qed

theorem late_renewal_leaves_entry_witness:
  "\<exists>s0 es s. Run_begin (Some (App_Register 7 None)) started_host [] Map.empty (make_app False one_nats :: unit App) = Inl s0
    \<and> sh_steps es s0 = Some s \<and> sh_run s = RunDone \<and> etcd_closed (sh_app s)
    \<and> sv_kv (sh_sv s) (opt_AppName one_nats @ ''/'' @ opt_ServerType one_nats @ ''/'' @ opt_ServerName one_nats) \<noteq> None"
proof -
  obtain s0 where s0: "Run_begin (Some (App_Register 7 None)) started_host [] Map.empty (make_app False one_nats :: unit App) = Inl s0"
    "0 < sint (opt_RegisterInterval (ap_opts (sh_app s0)))" by (rule begun)
  have "puts all_well" "\<And>st. o_marshal all_well st \<noteq> None" by (simp_all add: puts_def all_well_def)
  from late_renewal_leaves_entry [OF s0(1) registers_Register s0(2) this]
  obtain es s s' where "sh_steps es s0 = Some s" "sh_steps [Destroy, Destroy, Destroy, Destroy, Main Waited] s = Some s'"
    "sh_run s' = RunDone" "etcd_closed (sh_app s')" "sh_sv s' = sh_sv s"
    "sv_kv (sh_sv s) (opt_AppName one_nats @ ''/'' @ opt_ServerType one_nats @ ''/'' @ opt_ServerName one_nats) \<noteq> None"
    by blast
  moreover from this(1,2) have "sh_steps (es @ [Destroy, Destroy, Destroy, Destroy, Main Waited]) s0 = Some s'"
    unfolding sh_steps_append by simp
  ultimately show ?thesis using s0(1) by metis
qed

end
