(* ===== verification/SortInterface.thy ===== *)
theory SortInterface
  imports Sorting Processor
begin

text \<open>
  The interface that the library sorts through, \<open>sort.Interface\<close>, which the program implements twice: the sortable slice of
  \<open>dispatcher/hash/containers/sort.go\<close> and the performance records of \<open>process/perf_recorder.go\<close>. The
  locale \<open>sort_interface\<close> states what the sort needs of the three methods.
\<close>

section \<open>The interface\<close>

record 's sort_methods =
  sm_Len :: "'s \<Rightarrow> nat"
  sm_Less :: "'s \<Rightarrow> nat \<Rightarrow> nat \<Rightarrow> bool option"
  sm_Swap :: "'s \<Rightarrow> nat \<Rightarrow> nat \<Rightarrow> 's option"

text \<open>The sort of the library, as in \<open>Sorting\<close>, over any implementation.\<close>

fun sm_sink :: "'s sort_methods \<Rightarrow> 's \<Rightarrow> nat \<Rightarrow> 's option" where
  "sm_sink m s 0 = Some s"
| "sm_sink m s (Suc j) = do {
     l \<leftarrow> sm_Less m s (Suc j) j;
     if l then do { s1 \<leftarrow> sm_Swap m s (Suc j) j; sm_sink m s1 j } else Some s
   }"

fun sm_insertion :: "'s sort_methods \<Rightarrow> 's \<Rightarrow> nat \<Rightarrow> nat \<Rightarrow> 's option" where
  "sm_insertion m s i 0 = Some s"
| "sm_insertion m s i (Suc n) = do { s1 \<leftarrow> sm_sink m s i; sm_insertion m s1 (Suc i) n }"

definition sm_Sort :: "'s sort_methods \<Rightarrow> 's \<Rightarrow> 's option" where
  "sm_Sort m s = sm_insertion m s 1 (sm_Len m s - 1)"

section \<open>The performance records\<close>

record perfRecorderSorter =
  ps_records :: "perfRecorder list"
  ps_by :: "perfRecorder \<Rightarrow> perfRecorder \<Rightarrow> bool"

definition perf_Len :: "perfRecorderSorter \<Rightarrow> nat" where
  "perf_Len s = length (ps_records s)"

definition perf_Swap :: "perfRecorderSorter \<Rightarrow> nat \<Rightarrow> nat \<Rightarrow> perfRecorderSorter option" where
  "perf_Swap s i j =
     (if i < length (ps_records s) \<and> j < length (ps_records s)
      then Some (s\<lparr>ps_records := (ps_records s)[i := ps_records s ! j, j := ps_records s ! i]\<rparr>)
      else None)"

definition perf_Less :: "perfRecorderSorter \<Rightarrow> nat \<Rightarrow> nat \<Rightarrow> bool option" where
  "perf_Less s i j =
     (if i < length (ps_records s) \<and> j < length (ps_records s)
      then Some (ps_by s (ps_records s ! i) (ps_records s ! j))
      else None)"

definition perf_methods :: "perfRecorderSorter sort_methods" where
  "perf_methods = \<lparr>sm_Len = perf_Len, sm_Less = perf_Less, sm_Swap = perf_Swap\<rparr>"

text \<open>\<open>perfRecorderSortBy.Sort\<close>, which sorts the slice in place.\<close>

definition perf_Sort :: "(perfRecorder \<Rightarrow> perfRecorder \<Rightarrow> bool) \<Rightarrow> perfRecorder list \<Rightarrow> perfRecorder list option" where
  "perf_Sort by_order records = map_option ps_records (sm_Sort perf_methods \<lparr>ps_records = records, ps_by = by_order\<rparr>)"

definition sortable_methods :: "sortable sort_methods" where
  "sortable_methods = \<lparr>sm_Len = sortable_Len, sm_Less = sortable_Less, sm_Swap = sortable_Swap\<rparr>"

section \<open>The contract\<close>

text \<open>The same on lists: a prefix given in reverse, and the elements that join it.\<close>

fun join :: "('a \<Rightarrow> 'a \<Rightarrow> bool option) \<Rightarrow> 'a list \<Rightarrow> 'a \<Rightarrow> 'a list option" where
  "join lt [] x = Some [x]"
| "join lt (y # ys) x = do {
     l \<leftarrow> lt x y;
     if l then map_option (\<lambda>r. y # r) (join lt ys x) else Some (x # y # ys)
   }"

fun join_all :: "('a \<Rightarrow> 'a \<Rightarrow> bool option) \<Rightarrow> 'a list \<Rightarrow> 'a list \<Rightarrow> 'a list option" where
  "join_all lt ys [] = Some ys"
| "join_all lt ys (x # xs) = do { ys1 \<leftarrow> join lt ys x; join_all lt ys1 xs }"

definition sorts_to :: "('a \<Rightarrow> 'a \<Rightarrow> bool option) \<Rightarrow> 'a list \<Rightarrow> 'a list option" where
  "sorts_to lt xs = (case xs of [] \<Rightarrow> Some [] | x # xs \<Rightarrow> map_option rev (join_all lt [x] xs))"

lemma length_join: "join lt ys x = Some r \<Longrightarrow> length r = Suc (length ys)"
  by (induction ys arbitrary: r) (auto simp: bind_eq_Some_conv split: if_splits)

text \<open>
  An implementation holds a list of values, which \<open>Swap\<close> changes and nothing else, and compares two
  of them with its own order.
\<close>

locale sort_interface =
  fixes m :: "'s sort_methods"
    and vals :: "'s \<Rightarrow> 'a list"
    and with_vals :: "'a list \<Rightarrow> 's \<Rightarrow> 's"
    and order_of :: "'s \<Rightarrow> 'a \<Rightarrow> 'a \<Rightarrow> bool option"
  assumes len: "sm_Len m s = length (vals s)"
    and swap: "i < length (vals s) \<Longrightarrow> j < length (vals s) \<Longrightarrow>
      sm_Swap m s i j = Some (with_vals ((vals s)[i := vals s ! j, j := vals s ! i]) s)"
    and less: "i < length (vals s) \<Longrightarrow> j < length (vals s) \<Longrightarrow> sm_Less m s i j = order_of s (vals s ! i) (vals s ! j)"
    and vals_with: "vals (with_vals xs s) = xs" "with_vals ys (with_vals xs s) = with_vals ys s" "with_vals (vals s) s = s"
    and order_with: "order_of (with_vals xs s) = order_of s"
begin

lemma sink_joins:
  "vals s = rev ys @ x # zs \<Longrightarrow> sm_sink m s (length ys) = map_option (\<lambda>r. with_vals (rev r @ zs) s) (join (order_of s) ys x)"
proof (induction ys arbitrary: s zs)
  case Nil
  then show ?case using vals_with(3) [of s] by simp
next
  case (Cons y ys)
  have at: "vals s ! Suc (length ys) = x" "vals s ! length ys = y" using Cons.prems by (simp_all add: nth_append)
  have lengths: "Suc (length ys) < length (vals s)" "length ys < length (vals s)" using Cons.prems by simp_all
  have "(rev ys @ y # x # zs)[Suc (length ys) := y, length ys := x] = rev ys @ x # y # zs"
    using swap_at [of "rev ys" "length ys" y x zs] by (simp add: list_update_swap)
  then have swapped: "sm_Swap m s (Suc (length ys)) (length ys) = Some (with_vals (rev ys @ x # y # zs) s)"
    using swap [OF lengths, unfolded at] Cons.prems by simp
  have less': "sm_Less m s (Suc (length ys)) (length ys) = order_of s x y" using less [OF lengths] by (simp add: at)
  have stays: "with_vals (rev ys @ y # x # zs) s = s" using vals_with(3) [of s] Cons.prems by simp
  from Cons.IH [of "with_vals (rev ys @ x # y # zs) s" "y # zs"] show ?case
    by (cases "order_of s x y") (auto simp: less' swapped vals_with(1,2) order_with stays option.map_comp comp_def)
qed

lemma insertion_joins:
  "vals s = rev ys @ xs \<Longrightarrow> sm_insertion m s (length ys) (length xs) = map_option (\<lambda>r. with_vals (rev r) s) (join_all (order_of s) ys xs)"
proof (induction xs arbitrary: s ys)
  case Nil
  then show ?case using vals_with(3) [of s] by simp
next
  case (Cons x xs)
  show ?case
  proof (cases "join (order_of s) ys x")
    case None
    with sink_joins [OF Cons.prems] show ?thesis by simp
  next
    case (Some r)
    with sink_joins [OF Cons.prems] Cons.IH [of "with_vals (rev r @ xs) s" r] length_join [OF Some]
    show ?thesis by (simp add: vals_with(1,2) order_with)
  qed
qed

lemma Sort_joins: "sm_Sort m s = map_option (\<lambda>xs. with_vals xs s) (sorts_to (order_of s) (vals s))"
proof (cases "vals s")
  case Nil
  then show ?thesis using vals_with(3) [of s] by (simp add: sm_Sort_def len sorts_to_def)
next
  case (Cons x xs)
  with insertion_joins [of s "[x]" xs] show ?thesis
    by (simp add: sm_Sort_def len sorts_to_def option.map_comp comp_def)
qed

end

interpretation records: sort_interface perf_methods ps_records "\<lambda>xs s. s\<lparr>ps_records := xs\<rparr>" "\<lambda>s a b. Some (ps_by s a b)"
  by unfold_locales (simp_all add: perf_methods_def perf_Len_def perf_Swap_def perf_Less_def)

interpretation slice: sort_interface sortable_methods so_values "\<lambda>xs s. s\<lparr>so_values := xs\<rparr>"
  "\<lambda>s a b. map_option (\<lambda>c. c < 0) (so_comparator s a b)"
  by unfold_locales (simp_all add: sortable_methods_def sortable_Len_def sortable_Swap_def sortable_Less_def)

section \<open>Both implementations\<close>

text \<open>The sort of \<open>Sorting\<close> is this one on the sortable slice.\<close>

lemma sortable_methods [simp]:
  "sm_Len sortable_methods = sortable_Len" "sm_Less sortable_methods = sortable_Less" "sm_Swap sortable_methods = sortable_Swap"
  by (simp_all add: sortable_methods_def)

lemma sink_eq: "sm_sink sortable_methods s j = sink s j"
  by (induction j arbitrary: s) (simp_all cong: Option.bind_cong if_cong)

lemma insertion_eq: "sm_insertion sortable_methods s i n = insertion s i n"
  by (induction n arbitrary: s i) (simp_all add: sink_eq cong: Option.bind_cong)

lemma sort_Sort_eq: "sort_Sort s = sm_Sort sortable_methods s"
  by (simp add: sort_Sort_def sm_Sort_def insertion_eq)

lemma Sort_sorts_to: "Sort values cmp = sorts_to (\<lambda>a b. map_option (\<lambda>c. c < 0) (cmp a b)) values"
  by (simp add: Sort_def sort_Sort_eq slice.Sort_joins option.map_comp comp_def option.map_ident)

text \<open>With an order that always answers, in the forward direction.\<close>

fun insert_after :: "('a \<Rightarrow> 'a \<Rightarrow> bool) \<Rightarrow> 'a \<Rightarrow> 'a list \<Rightarrow> 'a list" where
  "insert_after lt x [] = [x]"
| "insert_after lt x (y # ys) = (if lt x y then x # y # ys else y # insert_after lt x ys)"

lemma insert_after_commutes:
  assumes "\<And>a b. lt a b \<longleftrightarrow> (f b :: int) < f a"
  shows "insert_after lt x (insert_by lt y zs) = insert_by lt y (insert_after lt x zs)"
  by (induction zs) (auto simp: assms)

lemma fold_insert_after:
  assumes "\<And>a b. lt a b \<longleftrightarrow> (f b :: int) < f a"
  shows "foldl (\<lambda>zs x. insert_after lt x zs) [] xs = SortBy lt xs"
proof -
  have out: "foldl (\<lambda>zs x. insert_after lt x zs) (insert_by lt y zs) xs = insert_by lt y (foldl (\<lambda>zs x. insert_after lt x zs) zs xs)" for y zs xs
    by (induction xs arbitrary: zs) (simp_all add: insert_after_commutes [OF assms])
  show ?thesis
  proof (induction xs)
    case (Cons x xs)
    with out [of x "[]" xs] show ?case by (simp add: SortBy_def)
  qed (simp add: SortBy_def)
qed

lemma insert_after_snoc: "lt x y \<Longrightarrow> insert_after lt x (zs @ [y]) = insert_after lt x zs @ [y]"
  by (induction zs) simp_all

lemma insert_after_end: "\<forall>z \<in> set zs. \<not> lt x z \<Longrightarrow> insert_after lt x zs = zs @ [x]"
  by (induction zs) simp_all

lemma set_insert_after: "set (insert_after lt x zs) = insert x (set zs)"
  by (induction zs) auto

lemma sorted_insert_after:
  assumes "\<And>a b. lt a b \<longleftrightarrow> (f b :: int) < f a" and "sorted_wrt (\<lambda>a b. f b \<le> f a) zs"
  shows "sorted_wrt (\<lambda>a b. f b \<le> f a) (insert_after lt x zs)"
  using assms(2) by (induction zs) (auto simp: assms(1) set_insert_after)

lemma join_insert_after:
  assumes "\<And>a b. lt a b \<longleftrightarrow> (f b :: int) < f a" and "sorted_wrt (\<lambda>a b. f b \<le> f a) (rev ys)"
  shows "join (\<lambda>a b. Some (lt a b)) ys x = Some (rev (insert_after lt x (rev ys)))"
  using assms(2)
proof (induction ys)
  case (Cons y ys)
  show ?case
  proof (cases "lt x y")
    case True
    with Cons show ?thesis by (simp add: sorted_wrt_append insert_after_snoc)
  next
    case False
    with Cons.prems have "\<forall>z \<in> set (rev (y # ys)). \<not> lt x z" by (auto simp: assms(1) sorted_wrt_append)
    with False show ?thesis by (simp add: insert_after_end)
  qed
qed simp

lemma join_all_insert_after:
  assumes "\<And>a b. lt a b \<longleftrightarrow> (f b :: int) < f a" and "sorted_wrt (\<lambda>a b. f b \<le> f a) (rev ys)"
  shows "join_all (\<lambda>a b. Some (lt a b)) ys xs = Some (rev (foldl (\<lambda>zs x. insert_after lt x zs) (rev ys) xs))"
  using assms(2)
proof (induction xs arbitrary: ys)
  case (Cons x xs)
  from Cons.IH [of "rev (insert_after lt x (rev ys))"] sorted_insert_after [OF assms(1) Cons.prems]
  show ?case by (simp add: join_insert_after [OF assms(1) Cons.prems])
qed simp

lemma perf_Sort_total:
  assumes "\<And>a b. by_order a b \<longleftrightarrow> (f b :: int) < f a"
  shows "perf_Sort by_order records = Some (SortBy by_order records)"
proof (cases records)
  case Nil
  then show ?thesis by (simp add: perf_Sort_def records.Sort_joins sorts_to_def SortBy_def)
next
  case (Cons r rs)
  have "foldl (\<lambda>zs x. insert_after by_order x zs) [r] rs = SortBy by_order records"
    using fold_insert_after [of by_order f records] assms by (simp add: Cons)
  with join_all_insert_after [of by_order f "[r]" rs] assms show ?thesis
    by (simp add: perf_Sort_def records.Sort_joins sorts_to_def Cons option.map_comp comp_def)
qed

text \<open>
  Sorting the performance records through \<open>Len\<close>, \<open>Less\<close> and \<open>Swap\<close> does not panic, and gives the records in descending order
  of what is compared, equal ones in the order in which they came.
\<close>

theorem perf_Sort_sorts:
  assumes "\<And>a b. by_order a b \<longleftrightarrow> (f b :: int) < f a"
  shows "perf_Sort by_order records = Some (SortBy by_order records)
    \<and> mset (SortBy by_order records) = mset records \<and> sorted_wrt (\<lambda>a b. f b \<le> f a) (SortBy by_order records)"
  using perf_Sort_total [OF assms] sorted_SortBy [OF assms] by simp

theorem perf_Sort_sorts_witness:
  "perf_Sort by_count [\<lparr>pr_msgID = 1, pr_name = [], pr_totalTime = 5, pr_count = 2, pr_maxTime = 3\<rparr>,
      \<lparr>pr_msgID = 2, pr_name = [], pr_totalTime = 4, pr_count = 9, pr_maxTime = 4\<rparr>]
    = Some [\<lparr>pr_msgID = 2, pr_name = [], pr_totalTime = 4, pr_count = 9, pr_maxTime = 4\<rparr>,
        \<lparr>pr_msgID = 1, pr_name = [], pr_totalTime = 5, pr_count = 2, pr_maxTime = 3\<rparr>]"
  using perf_Sort_sorts [of by_count "\<lambda>r. sint (pr_count r)"
      "[\<lparr>pr_msgID = 1, pr_name = [], pr_totalTime = 5, pr_count = 2, pr_maxTime = 3\<rparr>,
        \<lparr>pr_msgID = 2, pr_name = [], pr_totalTime = 4, pr_count = 9, pr_maxTime = 4\<rparr>]"]
  by (simp add: by_count_def SortBy_def)

text \<open>The three sorts of \<open>Dump\<close>.\<close>

lemma Dump_sorts:
  "perf_Sort averageTime records = Some (SortBy averageTime records)"
  "perf_Sort maxTime records = Some (SortBy maxTime records)"
  "perf_Sort by_count records = Some (SortBy by_count records)"
  using perf_Sort_total [of averageTime "\<lambda>r. sint (average r)"] perf_Sort_total [of maxTime "\<lambda>r. sint (pr_maxTime r)"]
    perf_Sort_total [of by_count "\<lambda>r. sint (pr_count r)"]
  by (simp_all add: averageTime_def maxTime_def by_count_def)

end
