(* ===== verification/ManagerRace.thy ===== *)
theory ManagerRace
  imports Session
begin

text \<open>
  What the lock-free operations of the session manager do when they overlap. Elsewhere each of them is one
  atomic step; here \<open>add\<close> and \<open>DelSession\<close> of \<open>session_mgr.go\<close> go on step by step, one access to the
  \<open>sync.Map\<close> or to the counter at a time, while any number of other goroutines are in \<open>DelSession\<close>. There is
  one \<open>add\<close> at a time, that of the manager's goroutine. The counter is an integer here; the code's is this one
  modulo \<open>2 ^ 32\<close>.
\<close>

section \<open>Steps\<close>

text \<open>Where a goroutine is in \<open>DelSession\<close>: it looks the session up, deletes the entry, and counts down.\<close>

datatype del = DelLoad u64 | DelDelete u64 | DelDec | DelDone

text \<open>
  Where the manager's goroutine is in \<open>add\<close> for a user and a session: it looks up the old session, deletes its
  entry and stops it (which calls \<open>DelSession\<close>, or returns at once when it has been stopped before), or it counts
  up; then it stores the new session.
\<close>

datatype adding = AddIdle | AddLoad u64 sref | AddDelete u64 sref | AddStop u64 sref del | AddInc u64 sref | AddStore u64 sref

record Manager =
  mr_map :: "(u64 \<times> sref) list"
  mr_count :: int
  mr_add :: adding
  mr_dels :: "del list"

fun del_step :: "(u64 \<times> sref) list \<Rightarrow> int \<Rightarrow> del \<Rightarrow> (u64 \<times> sref) list \<times> int \<times> del" where
  "del_step m c (DelLoad uid) = (m, c, if uid = 0 \<or> map_of m uid = None then DelDone else DelDelete uid)"
| "del_step m c (DelDelete uid) = (AList.delete uid m, c, DelDec)"
| "del_step m c DelDec = (m, c - 1, DelDone)"
| "del_step m c DelDone = (m, c, DelDone)"

definition add_step :: "bool \<Rightarrow> Manager \<Rightarrow> Manager" where
  "add_step stops s = (case mr_add s of
     AddIdle \<Rightarrow> s
   | AddLoad uid r \<Rightarrow> s\<lparr>mr_add := (if map_of (mr_map s) uid = None then AddInc uid r else AddDelete uid r)\<rparr>
   | AddDelete uid r \<Rightarrow> s\<lparr>mr_map := AList.delete uid (mr_map s),
       mr_add := AddStop uid r (if stops then DelLoad uid else DelDone)\<rparr>
   | AddStop uid r d \<Rightarrow>
       if d = DelDone then s\<lparr>mr_add := AddStore uid r\<rparr>
       else (case del_step (mr_map s) (mr_count s) d of
         (m, c, d') \<Rightarrow> s\<lparr>mr_map := m, mr_count := c, mr_add := AddStop uid r d'\<rparr>)
   | AddInc uid r \<Rightarrow> s\<lparr>mr_count := mr_count s + 1, mr_add := AddStore uid r\<rparr>
   | AddStore uid r \<Rightarrow> s\<lparr>mr_map := (if map_of (mr_map s) uid = None then AList.update uid r (mr_map s) else mr_map s),
       mr_add := AddIdle\<rparr>)"

datatype race_event = StartAdd u64 sref | AddTurn bool | StartDel u64 | DelTurn nat

definition race_step :: "Manager \<Rightarrow> race_event \<Rightarrow> Manager option" where
  "race_step s e = (case e of
     StartAdd uid r \<Rightarrow> if mr_add s = AddIdle then Some (s\<lparr>mr_add := AddLoad uid r\<rparr>) else None
   | AddTurn stops \<Rightarrow> Some (add_step stops s)
   | StartDel uid \<Rightarrow> Some (s\<lparr>mr_dels := mr_dels s @ [DelLoad uid]\<rparr>)
   | DelTurn i \<Rightarrow>
       if i < length (mr_dels s)
       then (case del_step (mr_map s) (mr_count s) (mr_dels s ! i) of
         (m, c, d) \<Rightarrow> Some (s\<lparr>mr_map := m, mr_count := c, mr_dels := (mr_dels s)[i := d]\<rparr>))
       else None)"

fun race_run :: "Manager \<Rightarrow> race_event list \<Rightarrow> Manager option" where
  "race_run s [] = Some s"
| "race_run s (e # es) = do { s1 \<leftarrow> race_step s e; race_run s1 es }"

definition manager_of :: "World \<Rightarrow> Manager" where
  "manager_of w = \<lparr>mr_map = w_mgr w, mr_count = sint (w_count w), mr_add = AddIdle, mr_dels = []\<rparr>"

section \<open>Alone\<close>

text \<open>A goroutine that is not disturbed does what the atomic operation does.\<close>

theorem DelSession_alone:
  "\<exists>s. race_run (manager_of w) [StartDel uid, DelTurn 0, DelTurn 0, DelTurn 0] = Some s
    \<and> mr_map s = w_mgr (DelSession w uid) \<and> word_of_int (mr_count s) = w_count (DelSession w uid) \<and> mr_dels s = [DelDone]"
  by (simp add: manager_of_def race_step_def DelSession_def GetSession_def)

section \<open>Overlapping\<close>

text \<open>
  What the operations under way still owe: an \<open>add\<close> that has counted or has deleted the old entry will store one,
  a goroutine that has deleted an entry will count down.
\<close>

fun owed_del :: "del \<Rightarrow> int" where
  "owed_del DelDec = 1"
| "owed_del _ = 0"

fun owed_add :: "adding \<Rightarrow> int" where
  "owed_add (AddStop uid r d) = 1 + owed_del d"
| "owed_add (AddStore uid r) = 1"
| "owed_add _ = 0"

fun about_to_store :: "adding \<Rightarrow> u64 option" where
  "about_to_store (AddStop uid r d) = Some uid"
| "about_to_store (AddInc uid r) = Some uid"
| "about_to_store (AddStore uid r) = Some uid"
| "about_to_store _ = None"

definition race_ok :: "Manager \<Rightarrow> bool" where
  "race_ok s \<longleftrightarrow> distinct (map fst (mr_map s))
     \<and> mr_count s \<le> int (length (mr_map s)) + owed_add (mr_add s) + sum_list (map owed_del (mr_dels s))
     \<and> (\<forall>uid. about_to_store (mr_add s) = Some uid \<longrightarrow> map_of (mr_map s) uid = None)"

lemma length_delete_le: "distinct (map fst m) \<Longrightarrow> length m \<le> Suc (length (AList.delete uid m))"
proof (induction m)
  case (Cons p m)
  then show ?case using delete_absent [of m uid] by (cases "fst p = uid") (auto simp: map_of_eq_None_iff)
qed simp

lemma del_step_ok:
  assumes "del_step m c d = (m', c', d')" and "distinct (map fst m)"
  shows "distinct (map fst m')" "c' - int (length m') - owed_del d' \<le> c - int (length m) - owed_del d"
    "map_of m uid = None \<Longrightarrow> map_of m' uid = None"
proof -
  have len: "int (length m) \<le> int (length (AList.delete x m)) + 1" for x using length_delete_le [OF assms(2), of x] by simp
  show "distinct (map fst m')" "c' - int (length m') - owed_del d' \<le> c - int (length m) - owed_del d"
    "map_of m uid = None \<Longrightarrow> map_of m' uid = None"
    using assms len by (cases d; auto simp: distinct_delete delete_conv' algebra_simps split: if_splits)+
qed

lemma add_step_ok:
  assumes "race_ok s"
  shows "race_ok (add_step stops s)"
proof (cases "mr_add s")
  case (AddDelete uid r)
  then show ?thesis
    using assms length_delete_le [of "mr_map s" uid]
    by (auto simp: add_step_def race_ok_def distinct_delete delete_conv')
next
  case (AddStop uid r d)
  show ?thesis
  proof (cases "d = DelDone")
    case True
    with AddStop assms show ?thesis by (auto simp: add_step_def race_ok_def)
  next
    case False
    obtain m c d' where step: "del_step (mr_map s) (mr_count s) d = (m, c, d')" by (metis prod_cases3)
    have "distinct (map fst (mr_map s))" using assms by (simp add: race_ok_def)
    from del_step_ok [OF step this] assms AddStop False step show ?thesis
      by (auto simp: add_step_def race_ok_def)
  qed
next
  case (AddStore uid r)
  with assms have "AList.update uid r (mr_map s) = mr_map s @ [(uid, r)]" "uid \<notin> fst ` set (mr_map s)"
    by (simp_all add: race_ok_def update_absent map_of_eq_None_iff)
  with assms AddStore show ?thesis by (auto simp: add_step_def race_ok_def)
qed (use assms in \<open>auto simp: add_step_def race_ok_def\<close>)

lemma sum_owed_upd:
  "i < length ds \<Longrightarrow> sum_list (map owed_del (ds[i := d])) = sum_list (map owed_del ds) - owed_del (ds ! i) + owed_del d"
  by (induction ds arbitrary: i) (auto split: nat.splits)

lemma owed_done: "set ds \<subseteq> {DelDone} \<Longrightarrow> sum_list (map owed_del ds) = 0"
  by (induction ds) auto

lemma race_step_ok:
  assumes "race_ok s" and "race_step s e = Some s'"
  shows "race_ok s'"
proof (cases e)
  case (DelTurn i)
  then have i: "i < length (mr_dels s)" using assms(2) by (simp add: race_step_def split: if_splits)
  obtain m c d where step: "del_step (mr_map s) (mr_count s) (mr_dels s ! i) = (m, c, d)" by (metis prod_cases3)
  have dist: "distinct (map fst (mr_map s))" using assms(1) by (simp add: race_ok_def)
  have "s' = s\<lparr>mr_map := m, mr_count := c, mr_dels := (mr_dels s)[i := d]\<rparr>"
    using assms(2) DelTurn i step by (simp add: race_step_def)
  with del_step_ok [OF step dist] assms(1) sum_owed_upd [OF i, of d] show ?thesis
    by (auto simp: race_ok_def)
next
  case (AddTurn stops)
  with assms add_step_ok show ?thesis by (auto simp: race_step_def)
qed (use assms in \<open>auto simp: race_step_def race_ok_def split: if_splits\<close>)

interpretation race: run_invariant race_step race_run "\<lambda>_. True" race_ok
  by unfold_locales (auto dest: race_step_ok)

text \<open>
  However the operations overlap, the counter never exceeds the number of entries when all have ended, if it did
  not before: races only lose counts.
\<close>

theorem races_only_lose_counts:
  assumes "distinct (map fst (w_mgr w))" and "sint (w_count w) \<le> int (length (w_mgr w))"
    and "race_run (manager_of w) es = Some s" and "mr_add s = AddIdle" and "set (mr_dels s) \<subseteq> {DelDone}"
  shows "mr_count s \<le> int (length (mr_map s)) \<and> distinct (map fst (mr_map s))"
proof -
  have "race_ok (manager_of w)" using assms(1,2) by (simp add: race_ok_def manager_of_def)
  from race.run_inv [OF this _ assms(3)] have "race_ok s" by simp
  with owed_done [OF assms(5)] assms(4) show ?thesis by (simp add: race_ok_def)
qed

text \<open>
  And they do lose counts: the old session of a user stops by itself, and has looked up its entry when the
  user logs in again. The manager deletes the entry and waits in \<open>OnStop\<close> until the old session has stopped, which
  counts down for the deleted entry; then it stores the new session, which is found, but not counted.
\<close>

theorem overlapping_stop_loses_count:
  assumes "w_mgr w = [(uid, old)]" and "w_count w = 1" and "uid \<noteq> 0"
  shows "\<exists>s. race_run (manager_of w) [StartDel uid, DelTurn 0, StartAdd uid r, AddTurn False, AddTurn False,
      DelTurn 0, DelTurn 0, AddTurn False, AddTurn False] = Some s
    \<and> mr_add s = AddIdle \<and> mr_dels s = [DelDone] \<and> mr_map s = [(uid, r)] \<and> mr_count s = 0"
  using assms by (simp add: manager_of_def race_step_def add_step_def)

theorem overlapping_stop_loses_count_witness:
  "\<exists>s. race_run (manager_of ((empty_gate default_options)\<lparr>w_mgr := [(7, 0)], w_count := 1\<rparr>))
      [StartDel 7, DelTurn 0, StartAdd 7 1, AddTurn False, AddTurn False,
      DelTurn 0, DelTurn 0, AddTurn False, AddTurn False] = Some s
    \<and> mr_map s = [(7, 1)] \<and> mr_count s = 0"
  using overlapping_stop_loses_count [of "(empty_gate default_options)\<lparr>w_mgr := [(7, 0)], w_count := 1\<rparr>" 7 0 1] by auto

end
