(* ===== verification/Spec2Isabelle.thy ===== *)
theory Spec2Isabelle
  imports MapsSpec MapsPaths HashRing Dispatcher Connect Options Common Containers SessionSpec GateServer
    Registration RpcClient AppServer System App Sorting MapsLoops RingTypes Placement Demo Login Files
    Logging Lifecycle Delivery Cluster Shutdown SortInterface ManagerRace
begin

text \<open>
  Verification of newtbig, a Go framework for game servers behind gates.

  The program. Clients connect to a gate over TCP or WebSocket. A gate keeps a session for each
  connection and sends the messages of verified clients on to the servers of an application, which
  are found in an etcd registry and reached over NATS. Which server gets a message is decided by a
  consistent hash of the key of the message; the ring of the hash keeps its virtual nodes in a
  red-black tree. Every gate and server is an application object that reads its options, starts
  the RPC client and the dispatcher, registers itself, and stops all of it on a signal.

  Theories and sources (paths under \<open>src/\<close>).

  \<^item> \<open>Prelude\<close>: the widths of the integers, lemmas on bind, sorted association lists, the lemma
    collections \<open>heap_simps\<close> and \<open>rep_simps\<close>. \<open>Runs\<close>: reachable states, and the locales \<open>runs\<close>,
    \<open>run_invariant\<close> and \<open>total_runs\<close> of components that work step by step, interpreted on the gate, on
    the watcher of the dispatcher and on the goroutine of the stream. \<open>Assoc\<close>: association lists,
    which model Go maps with their order of iteration. \<open>Strings\<close>, \<open>Paths\<close>: the functions of the standard library the program uses
    (\<open>strconv\<close>, \<open>strings\<close>, \<open>path\<close>).
  \<^item> \<open>Containers\<close>: \<open>dispatcher/hash/containers/comparator.go\<close>. The locale \<open>comparator_order\<close> states
    what the map asks of a comparator, and is interpreted on each comparator of the source.
  \<^item> \<open>Maps\<close>: \<open>dispatcher/hash/maps/\<close> (maps, iterator, serialization), on an explicit store of nodes
    with parent pointers; \<open>None\<close> is a nil dereference or a panic of the comparator. \<open>RbTree\<close> is the
    abstract tree and its contexts, \<open>MapsRep\<close> relates store and tree, \<open>MapsFix\<close> the rebalancing
    loops, \<open>MapsCorrect\<close> the operations, \<open>MapsIter\<close> the iterator; \<open>MapsSpec\<close>,
    \<open>MapsPaths\<close> and \<open>MapsLoops\<close> have the properties. \<open>Sorting\<close>: \<open>containers.go\<close> and \<open>sort.go\<close> beside
    the comparators. \<open>SortInterface\<close>: the interface \<open>sort.Interface\<close> as the locale \<open>sort_interface\<close>, interpreted
    on the slice of \<open>sort.go\<close> and on the records of \<open>process/perf_recorder.go\<close>.
  \<^item> \<open>HashRing\<close>: \<open>dispatcher/hash/hash_ring.go\<close>, over that map. The locale \<open>key_set\<close> is what the ring
    needs of its sorted keys; it is interpreted on the red-black map. \<open>RingTypes\<close>: the types of the keys
    of a ring.
  \<^item> \<open>Common\<close>: \<open>common/define.go\<close> and the message. \<open>Options\<close>: \<open>module/options.go\<close>, \<open>app/options.go\<close>,
    \<open>service/context.go\<close>.
  \<^item> \<open>Dispatcher\<close>: \<open>dispatcher/proxy.go\<close>, \<open>service.go\<close>, \<open>dispatcher.go\<close>: what the registry says about the
    servers, and routing.
  \<^item> \<open>Connect\<close>: \<open>gate/connect/tcp/connect.go\<close> and \<open>gate/connect/ws/connect.go\<close>.
  \<^item> \<open>Session\<close>: \<open>gate/session/session.go\<close>, \<open>session_mgr.go\<close> and the callback loop of
    \<open>gate/server/server.go\<close>: the state of a gate and every operation and turn of a goroutine as one
    step of it, with the invariant \<open>gate_ok\<close>. The events of the gate are \<open>gate_event\<close>, the shutdown
    (\<open>StopAll\<close>) among them; \<open>api_event\<close> adds the methods of a session that only other code calls. \<open>SessionSpec\<close>
    has the properties. \<open>ManagerRace\<close>: \<open>add\<close> and \<open>DelSession\<close> of \<open>session_mgr.go\<close> once more, one access to the
    shared map or counter at a time. \<open>GateServer\<close>: the rest of \<open>gate/server/\<close> and \<open>gate/handle/\<close>.
  \<^item> \<open>Processor\<close>: \<open>process/\<close>. \<open>Registration\<close>: \<open>service/service.go\<close>. \<open>Utils\<close>: \<open>utils/rand.go\<close>, \<open>timer.go\<close>,
    \<open>net.go\<close>, \<open>stack.go\<close>. \<open>AppServer\<close>: \<open>server/server.go\<close>, \<open>server/proxy/proxy.go\<close>.
  \<^item> \<open>Rpc\<close>: \<open>rpc/mq/mq_nats.go\<close>, \<open>rpc/mq/register.go\<close>. \<open>RpcClient\<close>: \<open>rpc/rpc.go\<close>,
    \<open>rpc/mq/mq_nats_stream.go\<close>.
  \<^item> \<open>App\<close>: \<open>app/app.go\<close>, \<open>app/gate.go\<close>, \<open>etcdclient/etcd_client.go\<close> and the start of the dispatcher.
  \<^item> \<open>System\<close>: properties of the dispatcher, the servers and the gate together. \<open>Placement\<close>: rings and
    servers with different histories agree. \<open>Cluster\<close>: a step relation of a registry with its writers and readers.
    \<open>Delivery\<close>: the messages between a session and its client; the locale \<open>connection\<close>, the interface \<open>Connect\<close>
    of \<open>module/module.go\<close>, is interpreted on TCP and WebSocket connections. \<open>Lifecycle\<close>: a service with the
    server that it runs; the locale \<open>server_module\<close>, the interface \<open>Server\<close>, is interpreted on the servers of
    the gate and of the application. \<open>Shutdown\<close>: the end of an application, \<open>Run\<close> and \<open>OnDestroy\<close> of \<open>app/app.go\<close>
    with the goroutines of the service, as steps that interleave; \<open>App_Run\<close> of \<open>App\<close> is one of its runs.
  \<^item> \<open>Demo\<close>: \<open>demo/msg/\<close>, \<open>demo/process/\<close>, \<open>demo/app/\<close>, \<open>demo/gate/\<close>. \<open>Login\<close>: \<open>demo/login/\<close> and \<open>Clear\<close> of the
    dispatcher.
  \<^item> \<open>Files\<close>: \<open>utils/file/file.go\<close>. \<open>Logging\<close>: \<open>logging/zapLog.go\<close>.

  What the groups of lemmas show. The map refines a dictionary and its iterator the ordered list of
  its entries; its search loops take a logarithmic number of iterations. The ring gives every name to the next member, moves as few names as it can when
  members come and go, and its virtual nodes, keys and members stay consistent; it depends on its members only, not on how they
  came, when no virtual nodes collide, so that servers that follow the same registry choose the same
  gate for a user, the login server among them. In a cluster, however its steps interleave, messages go
  to servers that were registered at the point that the dispatcher has heard of. The dispatcher
  follows the registry, so that messages and requests arrive at servers that are registered; it
  misses what changes between its first read and its watch, and its counter goes wrong when a
  server is deleted that it does not know. What the JSON library can read back is restored by a map. A connection never panics and delivers what was sent, and so messages of servers reach the clients of their users and
  messages of clients reach the RPC client, in order. The manager of the
  gate has one session of each user and counts them, as long as its operations do not overlap and it has not been
  shut down; overlapping operations only lose counts; what is not verified reaches nothing; a login
  replaces the earlier session; silent clients are stopped. Services and applications start and stop
  in order, and take their entry back, when its last renewal is over; however its goroutines interleave, an application closes its
  parts in order and comes to an end in a bounded number of steps, unless its service panics. In the demonstration a login is answered, through a gate, NATS and a
  server, to the session of the user that the client named. Several properties state what the code does where that is
  not what it means to do.

  Conventions. Results of type option: \<open>None\<close> is a panic, or a goroutine that waits for ever (a
  full or missing channel); an error that the code returns is a value, mostly of a sum type.
  Machine integers are words of their width, so that conversions and arithmetic wrap as in Go;
  \<open>int\<close> is 64 bits wide. Loops over the tree are partial functions, and the properties of the
  operations show that they return. The \<open>_within\<close> functions of \<open>MapsLoops\<close> are the search loops with
  a bound on their iterations: for a map of \<open>n\<close> entries \<open>k\<close> are enough when \<open>(n + 1)^2 < 2^(k + 1)\<close>, since
  a red-black tree of \<open>n\<close> entries is not higher than \<open>2 log (n + 1)\<close>. What is outside, the clock included,
  is an argument of the operation that asks it: the parameters are arbitrary functions, and what a
  property needs of them is among its hypotheses. A run of the gate is a list of events, each with
  the answers of the outside to it, in any order: the steps of all goroutines interleave.

  Not modelled. The Go scheduler below the granularity of these steps: an operation under a lock or
  on a \<open>sync.Map\<close> is atomic, and so is an operation of the session manager except in \<open>ManagerRace\<close>; data races
  are not considered. The flags, the file system, the
  configuration, TLS, sockets, the etcd, NATS, HTTP, zap and protobuf libraries and the WebSocket upgrade are
  outside: what they answer is a parameter. What is only logged is left out. The timer around the shutdown of \<open>App.Run\<close> may
  fire at any moment after it has been set: the clock is not modelled. The interfaces of
  \<open>module/module.go\<close> have no code; those that are used through more than one implementation are locales.
\<close>

end
